(* ===== verification/Prelude.thy ===== *)
theory Prelude
  imports Main "HOL-Library.Word"
begin

text \<open>
  Shared ground of the development: Go byte strings, error values, byte readers and
  writers as scripted environments, big-endian integers, and the generic lemmas the
  component theories use.

  A Go string or byte slice is a \<^typ>\<open>string\<close>: a \<^typ>\<open>char\<close> is one byte, and
  \<open>ord\<close> reads its value.
\<close>

named_theorems go_defs \<open>definitions that the proofs of one component unfold together\<close>
named_theorems len_dec \<open>facts saying that reading never lengthens the input\<close>

type_synonym bytes = string

subsection \<open>Bytes\<close>

abbreviation ord :: "char \<Rightarrow> nat" where
  "ord c \<equiv> of_char c"

lemma ord_lt_256 [simp]: "ord c < 256"
  using of_char_eq_iff [of c] by (metis nat_of_char_less_256)

lemma ord_le_255 [simp]: "ord c \<le> 255"
  using ord_lt_256 [of c] by linarith

lemma ord_inject: "ord c = ord d \<longleftrightarrow> c = d"
  by simp

lemma ord_char_of [simp]: "n < 256 \<Longrightarrow> ord (char_of (n :: nat)) = n"
  by (simp add: of_char_of)

subsection \<open>Errors\<close>

text \<open>
  Go error values. \<open>Errorf\<close> is \<open>errors.New\<close> (or \<open>fmt.Errorf\<close> without a wrapped
  error), \<open>Wrapf\<close> is \<open>fmt.Errorf\<close> with a \<open>%w\<close>; the sentinels are the package's
  \<open>ErrProtocol\<close> and those of \<open>io\<close>, \<open>net\<close>, \<open>os\<close> and \<open>context\<close> that the code
  inspects. \<open>Remote code message\<close> is a \<open>*RemoteError\<close>.
\<close>

datatype err =
    ErrProtocol
  | EOF
  | UnexpectedEOF
  | ShortWrite
  | ErrClosed
  | Canceled
  | DeadlineExceeded
  | NotExist
  | Remote string string
  | Errorf string
  | Wrapf string err

type_synonym 'a res = "err + 'a"

fun errors_is :: "err \<Rightarrow> err \<Rightarrow> bool" where
  "errors_is (Wrapf m e) t \<longleftrightarrow> Wrapf m e = t \<or> errors_is e t"
| "errors_is e t \<longleftrightarrow> e = t"

fun errors_as_remote :: "err \<Rightarrow> (string \<times> string) option" where
  "errors_as_remote (Remote c m) = Some (c, m)"
| "errors_as_remote (Wrapf m e) = errors_as_remote e"
| "errors_as_remote e = None"

definition is_ok :: "'a res \<Rightarrow> bool" where
  "is_ok r \<longleftrightarrow> (case r of Inl e \<Rightarrow> False | Inr x \<Rightarrow> True)"

lemma is_ok_simps [simp]: "is_ok (Inr x)" "\<not> is_ok (Inl e)"
  by (simp_all add: is_ok_def)

lemma is_ok_iff: "is_ok r \<longleftrightarrow> (\<exists>x. r = Inr x)"
  by (cases r) auto

lemma is_ok_unit: "is_ok (r :: unit res) \<longleftrightarrow> r = Inr ()"
  by (cases r) auto

text \<open>Inverting the error-propagating cases of a successful run.\<close>

named_theorems res_simps \<open>inversion of error-propagating case expressions\<close>

lemma res_bind_Inr [res_simps]:
  "(case r of Inl e \<Rightarrow> Inl (f e) | Inr x \<Rightarrow> g x) = Inr y \<longleftrightarrow> (\<exists>x. r = Inr x \<and> g x = Inr y)"
  by (cases r) auto

lemma io_bind_Inr [res_simps]:
  "(case r of (Inl e, s) \<Rightarrow> (Inl (f e), h e s) | (Inr x, s) \<Rightarrow> g x s) = (Inr y, t) \<longleftrightarrow>
     (\<exists>x s. r = (Inr x, s) \<and> g x s = (Inr y, t))"
  by (cases r; cases "fst r") auto

lemma pure_io_bind_Inr [res_simps]:
  "(case r of Inl e \<Rightarrow> (Inl (f e), s) | Inr x \<Rightarrow> g x) = (Inr y, t) \<longleftrightarrow>
     (\<exists>x. r = Inr x \<and> g x = (Inr y, t))"
  by (cases r) auto

lemma if_err_Inr [res_simps]:
  "(if b then Inl e else r) = Inr y \<longleftrightarrow> \<not> b \<and> r = Inr y"
  "(if b then r else Inl e) = Inr y \<longleftrightarrow> b \<and> r = Inr y"
  by auto

lemma if_io_err_Inr [res_simps]:
  "(if b then (Inl e, s) else r) = (Inr y, t) \<longleftrightarrow> \<not> b \<and> r = (Inr y, t)"
  "(if b then r else (Inl e, s)) = (Inr y, t) \<longleftrightarrow> b \<and> r = (Inr y, t)"
  by auto

text \<open>An error checker returns \<open>Inr ()\<close> for Go's \<open>nil\<close>.\<close>

type_synonym check = "unit res"

subsection \<open>Byte readers\<close>

text \<open>
  An \<open>io.Reader\<close> is the sequence of chunks that its successive \<open>Read\<close> calls can
  deliver, in order, followed by a final error (\<open>EOF\<close>, a timeout, a closed
  connection). A \<open>Read\<close> into a buffer of \<open>p\<close> bytes delivers at most one chunk, so any
  fragmentation of the stream is a value of this type.
\<close>

record reader =
  r_chunks :: "bytes list"
  r_end :: err

definition Read :: "nat \<Rightarrow> reader \<Rightarrow> bytes \<times> err option \<times> reader" where
  "Read p r =
     (case r_chunks r of
        [] \<Rightarrow> ([], Some (r_end r), r)
      | c # cs \<Rightarrow>
          if length c \<le> p then (c, None, r\<lparr>r_chunks := cs\<rparr>)
          else (take p c, None, r\<lparr>r_chunks := drop p c # cs\<rparr>))"

text \<open>\<open>stream r\<close> is everything the reader will still deliver.\<close>

definition stream :: "reader \<Rightarrow> bytes" where
  "stream r = concat (r_chunks r)"

text \<open>
  \<open>io.ReadFull\<close> calls \<open>Read\<close> until the buffer is full. It fails with the reader's own
  error when nothing was read, with \<open>io.ErrUnexpectedEOF\<close> when the stream ended in the
  middle, and never returns an error with a full buffer.
\<close>

fun read_loop :: "nat \<Rightarrow> bytes \<Rightarrow> bytes list \<Rightarrow> bytes \<times> bytes list" where
  "read_loop 0 acc cs = (acc, cs)"
| "read_loop n acc [] = (acc, [])"
| "read_loop n acc (c # cs) =
     (if length c \<le> n then read_loop (n - length c) (acc @ c) cs
      else (acc @ take n c, drop n c # cs))"

definition ReadFull :: "nat \<Rightarrow> reader \<Rightarrow> bytes res \<times> reader" where
  "ReadFull n r =
     (let (got, cs) = read_loop n [] (r_chunks r); r' = r\<lparr>r_chunks := cs\<rparr>
      in if n \<le> length got then (Inr got, r')
         else if got \<noteq> [] \<and> r_end r = EOF then (Inl UnexpectedEOF, r')
         else (Inl (r_end r), r'))"

lemma read_loop_spec:
  "read_loop n acc cs = (got, cs') \<Longrightarrow>
     got = acc @ take n (concat cs) \<and> concat cs' = drop n (concat cs)"
  by (induction n acc cs rule: read_loop.induct) (auto split: if_splits)

lemma stream_update [simp]:
  "stream (r\<lparr>r_chunks := cs\<rparr>) = concat cs"
  by (simp add: stream_def)

text \<open>The result of \<open>ReadFull\<close> depends on the bytes of the stream only, not on its chunks.\<close>

lemma ReadFull_ok:
  assumes "n \<le> length (stream r)"
  obtains r' where "ReadFull n r = (Inr (take n (stream r)), r')"
    and "stream r' = drop n (stream r)" and "r_end r' = r_end r"
proof -
  obtain got cs where rl: "read_loop n [] (r_chunks r) = (got, cs)" by fastforce
  note sp = read_loop_spec [OF rl]
  have "ReadFull n r = (Inr (take n (stream r)), r\<lparr>r_chunks := cs\<rparr>)"
    using sp assms by (simp add: ReadFull_def rl stream_def)
  then show thesis by (rule that) (use sp in \<open>simp_all add: stream_def\<close>)
qed

lemma ReadFull_short:
  assumes "length (stream r) < n"
  obtains e r' where "ReadFull n r = (Inl e, r')" and "stream r' = []" and "r_end r' = r_end r"
    and "e = (if stream r \<noteq> [] \<and> r_end r = EOF then UnexpectedEOF else r_end r)"
proof -
  obtain got cs where rl: "read_loop n [] (r_chunks r) = (got, cs)" by fastforce
  note sp = read_loop_spec [OF rl]
  show thesis
    by (rule that [of "if stream r \<noteq> [] \<and> r_end r = EOF then UnexpectedEOF else r_end r"
          "r\<lparr>r_chunks := cs\<rparr>"])
      (use sp assms in \<open>auto simp: ReadFull_def rl stream_def\<close>)
qed

lemma ReadFull_InrD:
  assumes "ReadFull n r = (Inr got, r')"
  shows "n \<le> length (stream r)" "got = take n (stream r)" "stream r' = drop n (stream r)"
    "r_end r' = r_end r"
proof -
  have n: "n \<le> length (stream r)"
  proof (rule ccontr)
    assume "\<not> n \<le> length (stream r)"
    then have "length (stream r) < n" by simp
    then show False by (rule ReadFull_short) (use assms in simp)
  qed
  then show "n \<le> length (stream r)" .
  from n show "got = take n (stream r)" "stream r' = drop n (stream r)" "r_end r' = r_end r"
    by (rule ReadFull_ok, use assms in simp)+
qed

lemma ReadFull_InlD:
  assumes "ReadFull n r = (Inl e, r')"
  shows "length (stream r) < n" "stream r' = []" "r_end r' = r_end r"
    "e = (if stream r \<noteq> [] \<and> r_end r = EOF then UnexpectedEOF else r_end r)"
proof -
  have n: "length (stream r) < n"
  proof (rule ccontr)
    assume "\<not> length (stream r) < n"
    then have "n \<le> length (stream r)" by simp
    then show False by (rule ReadFull_ok) (use assms in simp)
  qed
  then show "length (stream r) < n" .
  from n show "stream r' = []" "r_end r' = r_end r"
    "e = (if stream r \<noteq> [] \<and> r_end r = EOF then UnexpectedEOF else r_end r)"
    by (rule ReadFull_short, use assms in simp)+
qed

lemma ReadFull_len [len_dec]:
  "ReadFull n r = (x, r') \<Longrightarrow> length (stream r') \<le> length (stream r)"
  by (cases x) (auto dest: ReadFull_InrD ReadFull_InlD)

text \<open>Two readers that deliver the same bytes and end in the same way are interchangeable.\<close>

definition same_stream :: "reader \<Rightarrow> reader \<Rightarrow> bool" where
  "same_stream r s \<longleftrightarrow> stream r = stream s \<and> r_end r = r_end s"

lemma ReadFull_same_stream:
  assumes "same_stream r s"
  shows "fst (ReadFull n r) = fst (ReadFull n s)"
    and "same_stream (snd (ReadFull n r)) (snd (ReadFull n s))"
proof -
  obtain x r' where r: "ReadFull n r = (x, r')" by fastforce
  obtain y s' where s: "ReadFull n s = (y, s')" by fastforce
  have eq: "stream r = stream s" "r_end r = r_end s"
    using assms by (simp_all add: same_stream_def)
  have "x = y \<and> same_stream r' s'"
  proof (cases "n \<le> length (stream r)")
    case True
    from True obtain r1 where "ReadFull n r = (Inr (take n (stream r)), r1)"
      "stream r1 = drop n (stream r)" "r_end r1 = r_end r" by (rule ReadFull_ok)
    moreover from True eq obtain s1 where "ReadFull n s = (Inr (take n (stream s)), s1)"
      "stream s1 = drop n (stream s)" "r_end s1 = r_end s" by (metis ReadFull_ok)
    ultimately show ?thesis using r s eq by (simp add: same_stream_def)
  next
    case False
    then have l: "length (stream r) < n" "length (stream s) < n" using eq by simp_all
    from l(1) obtain r1 where "ReadFull n r = (Inl (if stream r \<noteq> [] \<and> r_end r = EOF
        then UnexpectedEOF else r_end r), r1)" "stream r1 = []" "r_end r1 = r_end r"
      by (rule ReadFull_short) blast
    moreover from l(2) obtain s1 where "ReadFull n s = (Inl (if stream s \<noteq> [] \<and> r_end s = EOF
        then UnexpectedEOF else r_end s), s1)" "stream s1 = []" "r_end s1 = r_end s"
      by (rule ReadFull_short) blast
    ultimately show ?thesis using r s eq by (simp add: same_stream_def)
  qed
  then show "fst (ReadFull n r) = fst (ReadFull n s)"
    "same_stream (snd (ReadFull n r)) (snd (ReadFull n s))"
    using r s by simp_all
qed

definition whole :: "bytes \<Rightarrow> reader" where
  "whole bs = \<lparr>r_chunks = [bs], r_end = EOF\<rparr>"

lemma whole_simps [simp]: "stream (whole bs) = bs" "r_end (whole bs) = EOF"
  by (simp_all add: whole_def stream_def)

subsection \<open>Byte writers\<close>

text \<open>
  An \<open>io.Writer\<close> is the bytes it has accepted and the outcomes of its coming \<open>Write\<close>
  calls: each call takes one outcome, the reported count and the error; a call beyond the
  script accepts all its bytes. Counts outside the slice are possible, as the code checks
  for them.
\<close>

record writer =
  w_out :: bytes
  w_script :: "(int \<times> err option) list"

definition Write :: "bytes \<Rightarrow> writer \<Rightarrow> int \<times> err option \<times> writer" where
  "Write data w =
     (case w_script w of
        [] \<Rightarrow> (int (length data), None, w\<lparr>w_out := w_out w @ data\<rparr>)
      | (n, e) # rest \<Rightarrow> (n, e, w\<lparr>w_out := w_out w @ take (nat n) data, w_script := rest\<rparr>))"

definition fresh_writer :: writer where
  "fresh_writer = \<lparr>w_out = [], w_script = []\<rparr>"

subsection \<open>Big-endian integers\<close>

definition PutUint32 :: "32 word \<Rightarrow> bytes" where
  "PutUint32 w =
     map char_of [unat w div 2 ^ 24, unat w div 2 ^ 16 mod 256, unat w div 2 ^ 8 mod 256,
                  unat w mod 256]"

fun be_nat :: "nat \<Rightarrow> bytes \<Rightarrow> nat" where
  "be_nat acc [] = acc"
| "be_nat acc (b # bs) = be_nat (acc * 256 + ord b) bs"

definition Uint32 :: "bytes \<Rightarrow> 32 word" where
  "Uint32 bs = word_of_nat (be_nat 0 bs)"

definition Uint16 :: "bytes \<Rightarrow> 16 word" where
  "Uint16 bs = word_of_nat (be_nat 0 bs)"

lemma length_PutUint32 [simp]: "length (PutUint32 w) = 4"
  by (simp add: PutUint32_def)

lemma unat32_lt: "unat (w :: 32 word) < 4294967296"
  using unsigned_less [of w] by simp

lemma split4: 
  fixes n :: nat
  assumes "n < 4294967296"
  shows "((n div 2 ^ 24 * 256 + n div 2 ^ 16 mod 256) * 256 + n div 2 ^ 8 mod 256) * 256
            + n mod 256 = n"
proof -
  have "n div 2 ^ 16 = n div 2 ^ 24 * 256 + n div 2 ^ 16 mod 256"
    using div_mult_mod_eq [of "n div 2 ^ 16" 256] by (simp add: div_mult2_eq [symmetric])
  moreover have "n div 2 ^ 8 = n div 2 ^ 16 * 256 + n div 2 ^ 8 mod 256"
    using div_mult_mod_eq [of "n div 2 ^ 8" 256] by (simp add: div_mult2_eq [symmetric])
  moreover have "n = n div 2 ^ 8 * 256 + n mod 256"
    using div_mult_mod_eq [of n 256] by simp
  ultimately show ?thesis by presburger
qed

lemma Uint32_PutUint32 [simp]: "Uint32 (PutUint32 w) = w"
proof -
  have "unat w div 2 ^ 24 < 256" using unat32_lt [of w] by simp
  then have "be_nat 0 (PutUint32 w) = unat w"
    using split4 [OF unat32_lt [of w]] by (simp add: PutUint32_def)
  then show ?thesis by (simp add: Uint32_def)
qed

lemma be_nat_append: "be_nat acc (xs @ ys) = be_nat (be_nat acc xs) ys"
  by (induction xs arbitrary: acc) auto

lemma be_nat_bound: "be_nat acc bs < (acc + 1) * 256 ^ length bs"
proof (induction bs arbitrary: acc)
  case Nil
  then show ?case by simp
next
  case (Cons b bs)
  have "be_nat (acc * 256 + ord b) bs < (acc * 256 + ord b + 1) * 256 ^ length bs"
    by (rule Cons.IH)
  also have "\<dots> \<le> ((acc + 1) * 256) * 256 ^ length bs"
    by (intro mult_le_mono1) simp
  finally show ?case by (simp add: algebra_simps)
qed

lemma length4_cases:
  assumes "length bs = 4"
  obtains a b c d where "bs = [a, b, c, d]"
proof -
  from assms have "\<exists>a b c d. bs = [a, b, c, d]"
    by (auto simp: length_Suc_conv numeral_eq_Suc)
  with that show thesis by blast
qed

lemma PutUint32_Uint32: 
  assumes "length bs = 4"
  shows "PutUint32 (Uint32 bs) = bs"
proof -
  from assms obtain a b c d where bs: "bs = [a, b, c, d]" by (rule length4_cases)
  define n where "n = be_nat 0 bs"
  have n: "n = ((ord a * 256 + ord b) * 256 + ord c) * 256 + ord d"
    by (simp add: n_def bs)
  have lt: "n < 2 ^ 32" using be_nat_bound [of 0 bs] assms by (simp add: n_def)
  have u: "unat (Uint32 bs) = n" using lt
    by (simp add: Uint32_def n_def unat_of_nat take_bit_nat_eq_self)
  have step: "(m * 256 + ord x) div 256 = m" "(m * 256 + ord x) mod 256 = ord x" for m x
    by (simp_all add: div_add1_eq)
  have "n mod 256 = ord d" "n div 2 ^ 8 = (ord a * 256 + ord b) * 256 + ord c"
    unfolding n using step [of "(ord a * 256 + ord b) * 256 + ord c" d] by simp_all
  moreover have "n div 2 ^ 16 = ord a * 256 + ord b"
    using step(1) [of "ord a * 256 + ord b" c] calculation(2)
    by (simp add: div_mult2_eq [of n 256 256, simplified])
  moreover have "n div 2 ^ 24 = ord a"
    using step(1) [of "ord a" b] calculation(3)
    by (simp add: div_mult2_eq [of n 65536 256, simplified])
  ultimately show ?thesis
    using step(2) [of "ord a" b] step(2) [of "ord a * 256 + ord b" c]
    by (simp only: PutUint32_def u) (simp add: bs)
qed

end
