(* ===== verification/GoLib.thy ===== *)
theory GoLib
  imports Prelude
begin

text \<open>
  The parts of Go's standard library that the program computes with: \<open>strings\<close>,
  \<open>unicode/utf8\<close>, \<open>unicode\<close>, \<open>strconv\<close> and \<open>encoding/hex\<close>, as functions on byte
  strings.
\<close>

subsection \<open>strings\<close>

fun IndexBy :: "(char \<Rightarrow> bool) \<Rightarrow> string \<Rightarrow> nat option" where
  "IndexBy P [] = None"
| "IndexBy P (c # cs) = (if P c then Some 0 else map_option Suc (IndexBy P cs))"

text \<open>\<open>None\<close> stands for the index \<open>-1\<close>.\<close>

definition IndexByte :: "string \<Rightarrow> char \<Rightarrow> nat option" where
  "IndexByte s c = IndexBy (\<lambda>x. x = c) s"

definition IndexAny :: "string \<Rightarrow> string \<Rightarrow> nat option" where
  "IndexAny s chars = IndexBy (\<lambda>x. x \<in> set chars) s"

fun Split :: "string \<Rightarrow> char \<Rightarrow> string list" where
  "Split [] d = [[]]"
| "Split (c # cs) d =
     (if c = d then [] # Split cs d
      else (case Split cs d of [] \<Rightarrow> [[c]] | p # ps \<Rightarrow> (c # p) # ps))"

definition lower :: "char \<Rightarrow> char" where
  "lower c = (if 65 \<le> ord c \<and> ord c \<le> 90 then char_of (ord c + 32) else c)"

text \<open>\<open>strings.ToLower\<close> and \<open>strings.EqualFold\<close> on ASCII text.\<close>

definition ToLower :: "string \<Rightarrow> string" where
  "ToLower s = map lower s"

definition EqualFold :: "string \<Rightarrow> string \<Rightarrow> bool" where
  "EqualFold s t \<longleftrightarrow> map lower s = map lower t"

definition HasPrefix :: "string \<Rightarrow> string \<Rightarrow> bool" where
  "HasPrefix s p \<longleftrightarrow> take (length p) s = p"

definition HasSuffix :: "string \<Rightarrow> string \<Rightarrow> bool" where
  "HasSuffix s p \<longleftrightarrow> HasPrefix (rev s) (rev p)"

definition TrimPrefix :: "string \<Rightarrow> string \<Rightarrow> string" where
  "TrimPrefix s p = (if HasPrefix s p then drop (length p) s else s)"

definition ReplaceAll :: "string \<Rightarrow> char \<Rightarrow> char \<Rightarrow> string" where
  "ReplaceAll s a b = map (\<lambda>c. if c = a then b else c) s"

definition ContainsAny :: "string \<Rightarrow> string \<Rightarrow> bool" where
  "ContainsAny s chars \<longleftrightarrow> list_ex (\<lambda>c. c \<in> set chars) s"

lemma IndexBy_None: "IndexBy P s = None \<longleftrightarrow> (\<forall>c\<in>set s. \<not> P c)"
  by (induction s) auto

lemma IndexBy_Some:
  "IndexBy P s = Some i \<longleftrightarrow> i < length s \<and> P (s ! i) \<and> (\<forall>j<i. \<not> P (s ! j))"
proof (induction s arbitrary: i)
  case Nil
  then show ?case by simp
next
  case (Cons c cs)
  show ?case
  proof (cases i)
    case 0
    then show ?thesis by auto
  next
    case (Suc k)
    then show ?thesis using Cons [of k] by (auto simp: less_Suc_eq_0_disj)
  qed
qed

lemma IndexBy_append_notin:
  "\<forall>c\<in>set a. \<not> P c \<Longrightarrow> IndexBy P (a @ b) = map_option (\<lambda>i. length a + i) (IndexBy P b)"
  by (induction a; cases "IndexBy P b") auto

lemma IndexBy_append_hit:
  "\<forall>c\<in>set a. \<not> P c \<Longrightarrow> P x \<Longrightarrow> IndexBy P (a @ x # b) = Some (length a)"
  by (simp add: IndexBy_append_notin)

lemma IndexBy_takeWhile:
  "IndexBy P s = Some i \<Longrightarrow> take i s = takeWhile (\<lambda>c. \<not> P c) s"
proof (induction s arbitrary: i)
  case Nil
  then show ?case by simp
next
  case (Cons c cs)
  then show ?case by (auto split: if_splits)
qed

lemma Split_ne [simp]: "Split s d \<noteq> []"
  by (cases s) (auto split: list.splits)

lemma Split_no_sep: "d \<notin> set s \<Longrightarrow> Split s d = [s]"
  by (induction s) auto

lemma Split_append: "d \<notin> set a \<Longrightarrow> Split (a @ d # b) d = a # Split b d"
  by (induction a) auto

lemma Split_parts_no_sep: "p \<in> set (Split s d) \<Longrightarrow> d \<notin> set p"
proof (induction s arbitrary: p)
  case Nil
  then show ?case by simp
next
  case (Cons c cs)
  then show ?case by (cases "Split cs d") (auto split: if_splits)
qed

fun join :: "char \<Rightarrow> string list \<Rightarrow> string" where
  "join d [] = []"
| "join d [p] = p"
| "join d (p # ps) = p @ d # join d ps"

lemma join_Split: "join d (Split s d) = s"
proof (induction s)
  case Nil
  then show ?case by simp
next
  case (Cons c cs)
  then show ?case
    by (cases "Split cs d"; cases "tl (Split cs d)") auto
qed

lemma Split_eq_2_iff: "Split s d = [a, b] \<longleftrightarrow> s = a @ d # b \<and> d \<notin> set a \<and> d \<notin> set b"
proof
  assume L: "Split s d = [a, b]"
  from join_Split [of d s] L Split_parts_no_sep [of _ s d]
  show "s = a @ d # b \<and> d \<notin> set a \<and> d \<notin> set b" by auto
next
  assume "s = a @ d # b \<and> d \<notin> set a \<and> d \<notin> set b"
  then show "Split s d = [a, b]" by (simp add: Split_append Split_no_sep)
qed

lemma HasPrefix_iff: "HasPrefix s p \<longleftrightarrow> (\<exists>t. s = p @ t)"
  by (metis HasPrefix_def append_eq_conv_conj)

lemma HasSuffix_iff: "HasSuffix s p \<longleftrightarrow> (\<exists>t. s = t @ p)"
  unfolding HasSuffix_def HasPrefix_iff by (metis rev_append rev_rev_ident)

lemma lower_idem [simp]: "lower (lower c) = lower c"
  by (simp add: lower_def)

lemma ToLower_idem [simp]: "ToLower (ToLower s) = ToLower s"
  by (simp add: ToLower_def)

lemma length_ToLower [simp]: "length (ToLower s) = length s"
  by (simp add: ToLower_def)

subsection \<open>unicode/utf8\<close>

definition cont :: "char \<Rightarrow> bool" where
  "cont c \<longleftrightarrow> 128 \<le> ord c \<and> ord c \<le> 191"

text \<open>
  The first rune of a byte string with its width, \<open>None\<close> when the bytes are not a
  well-formed UTF-8 encoding (overlong forms, surrogates and values above 10FFFF included).
\<close>

definition decode_rune :: "bytes \<Rightarrow> (nat \<times> nat) option" where
  "decode_rune bs =
     (case bs of [] \<Rightarrow> None
      | b0 # t0 \<Rightarrow>
          if ord b0 < 128 then Some (ord b0, 1)
          else (case t0 of [] \<Rightarrow> None
            | b1 # t1 \<Rightarrow>
                if 194 \<le> ord b0 \<and> ord b0 \<le> 223 then
                  (if cont b1 then Some ((ord b0 - 192) * 64 + (ord b1 - 128), 2) else None)
                else (case t1 of [] \<Rightarrow> None
                  | b2 # t2 \<Rightarrow>
                      if 224 \<le> ord b0 \<and> ord b0 \<le> 239 then
                        (if cont b1 \<and> cont b2 \<and> (ord b0 = 224 \<longrightarrow> 160 \<le> ord b1) \<and>
                            (ord b0 = 237 \<longrightarrow> ord b1 \<le> 159)
                         then Some ((ord b0 - 224) * 4096 + (ord b1 - 128) * 64 + (ord b2 - 128), 3)
                         else None)
                      else (case t2 of [] \<Rightarrow> None
                        | b3 # t3 \<Rightarrow>
                            if 240 \<le> ord b0 \<and> ord b0 \<le> 244 \<and> cont b1 \<and> cont b2 \<and> cont b3 \<and>
                               (ord b0 = 240 \<longrightarrow> 144 \<le> ord b1) \<and> (ord b0 = 244 \<longrightarrow> ord b1 \<le> 143)
                            then Some ((ord b0 - 240) * 262144 + (ord b1 - 128) * 4096 +
                                       (ord b2 - 128) * 64 + (ord b3 - 128), 4)
                            else None))))"

lemma decode_rune_Nil [simp]: "decode_rune [] = None"
  by (simp add: decode_rune_def)

lemma decode_rune_ascii [simp]: "ord b < 128 \<Longrightarrow> decode_rune (b # bs) = Some (ord b, 1)"
  by (simp add: decode_rune_def)

lemma decode_rune_width:
  "decode_rune bs = Some (r, n) \<Longrightarrow> 0 < n \<and> n \<le> 4 \<and> n \<le> length bs"
  by (auto simp: decode_rune_def split: list.splits if_splits)

text \<open>The four shapes of an encoded rune.\<close>

lemma decode_rune2:
  "194 \<le> ord b0 \<Longrightarrow> ord b0 \<le> 223 \<Longrightarrow> cont b1 \<Longrightarrow>
     decode_rune (b0 # b1 # t) = Some ((ord b0 - 192) * 64 + (ord b1 - 128), 2)"
  by (simp add: decode_rune_def)

lemma decode_rune3:
  "224 \<le> ord b0 \<Longrightarrow> ord b0 \<le> 239 \<Longrightarrow> cont b1 \<Longrightarrow> cont b2 \<Longrightarrow>
     (ord b0 = 224 \<longrightarrow> 160 \<le> ord b1) \<Longrightarrow> (ord b0 = 237 \<longrightarrow> ord b1 \<le> 159) \<Longrightarrow>
     decode_rune (b0 # b1 # b2 # t) =
       Some ((ord b0 - 224) * 4096 + (ord b1 - 128) * 64 + (ord b2 - 128), 3)"
  by (simp add: decode_rune_def)

lemma decode_rune4:
  "240 \<le> ord b0 \<Longrightarrow> ord b0 \<le> 244 \<Longrightarrow> cont b1 \<Longrightarrow> cont b2 \<Longrightarrow> cont b3 \<Longrightarrow>
     (ord b0 = 240 \<longrightarrow> 144 \<le> ord b1) \<Longrightarrow> (ord b0 = 244 \<longrightarrow> ord b1 \<le> 143) \<Longrightarrow>
     decode_rune (b0 # b1 # b2 # b3 # t) =
       Some ((ord b0 - 240) * 262144 + (ord b1 - 128) * 4096 + (ord b2 - 128) * 64 +
             (ord b3 - 128), 4)"
  by (simp add: decode_rune_def)

lemma decode_rune_shape:
  assumes "decode_rune bs = Some (r, n)"
  shows "(\<exists>b t. bs = b # t \<and> ord b < 128 \<and> r = ord b \<and> n = 1) \<or>
    (\<exists>b0 b1 t. bs = b0 # b1 # t \<and> 194 \<le> ord b0 \<and> ord b0 \<le> 223 \<and> cont b1 \<and>
       r = (ord b0 - 192) * 64 + (ord b1 - 128) \<and> n = 2) \<or>
    (\<exists>b0 b1 b2 t. bs = b0 # b1 # b2 # t \<and> 224 \<le> ord b0 \<and> ord b0 \<le> 239 \<and> cont b1 \<and>
       cont b2 \<and> (ord b0 = 224 \<longrightarrow> 160 \<le> ord b1) \<and> (ord b0 = 237 \<longrightarrow> ord b1 \<le> 159) \<and>
       r = (ord b0 - 224) * 4096 + (ord b1 - 128) * 64 + (ord b2 - 128) \<and> n = 3) \<or>
    (\<exists>b0 b1 b2 b3 t. bs = b0 # b1 # b2 # b3 # t \<and> 240 \<le> ord b0 \<and> ord b0 \<le> 244 \<and> cont b1 \<and>
       cont b2 \<and> cont b3 \<and> (ord b0 = 240 \<longrightarrow> 144 \<le> ord b1) \<and>
       (ord b0 = 244 \<longrightarrow> ord b1 \<le> 143) \<and>
       r = (ord b0 - 240) * 262144 + (ord b1 - 128) * 4096 + (ord b2 - 128) * 64 +
           (ord b3 - 128) \<and> n = 4)"
  using assms unfolding decode_rune_def by (auto split: list.splits if_splits)

lemma decode_runeE:
  assumes "decode_rune bs = Some (r, n)"
  obtains (one) b t where "bs = b # t" "ord b < 128" "r = ord b" "n = 1"
    | (two) b0 b1 t where "bs = b0 # b1 # t" "194 \<le> ord b0" "ord b0 \<le> 223" "cont b1"
        "r = (ord b0 - 192) * 64 + (ord b1 - 128)" "n = 2"
    | (three) b0 b1 b2 t where "bs = b0 # b1 # b2 # t" "224 \<le> ord b0" "ord b0 \<le> 239" "cont b1"
        "cont b2" "ord b0 = 224 \<longrightarrow> 160 \<le> ord b1" "ord b0 = 237 \<longrightarrow> ord b1 \<le> 159"
        "r = (ord b0 - 224) * 4096 + (ord b1 - 128) * 64 + (ord b2 - 128)" "n = 3"
    | (four) b0 b1 b2 b3 t where "bs = b0 # b1 # b2 # b3 # t" "240 \<le> ord b0" "ord b0 \<le> 244"
        "cont b1" "cont b2" "cont b3" "ord b0 = 240 \<longrightarrow> 144 \<le> ord b1"
        "ord b0 = 244 \<longrightarrow> ord b1 \<le> 143"
        "r = (ord b0 - 240) * 262144 + (ord b1 - 128) * 4096 + (ord b2 - 128) * 64 +
           (ord b3 - 128)" "n = 4"
  using decode_rune_shape [OF assms] by (elim disjE exE conjE) (fast intro: that)+

lemma decode_rune_append:
  assumes "decode_rune bs = Some p"
  shows "decode_rune (bs @ t) = Some p"
proof (cases p)
  case (Pair r n)
  from assms [unfolded Pair] show ?thesis unfolding Pair
    by (cases rule: decode_runeE) (simp_all add: decode_rune2 decode_rune3 decode_rune4)
qed

lemma decode_rune_take:
  assumes "decode_rune bs = Some (r, n)"
  shows "decode_rune (take n bs) = Some (r, n)"
  using assms
  by (cases rule: decode_runeE) (simp_all add: decode_rune2 decode_rune3 decode_rune4)

lemma decode_rune_big:
  assumes "decode_rune bs = Some (r, n)" "c \<in> set (take n bs)" "128 \<le> r"
  shows "128 \<le> ord c"
  using assms by (cases rule: decode_runeE) (auto simp: cont_def)

lemma decode_rune_small:
  assumes "decode_rune (b # bs) = Some (r, n)" "r < 128"
  shows "r = ord b \<and> n = 1 \<and> ord b < 128"
  using assms by (cases rule: decode_runeE) (auto simp: cont_def)

text \<open>
  Ranging over a string: each rune with the bytes it came from; an invalid byte is the
  replacement rune FFFD of width one.
\<close>

function runes :: "bytes \<Rightarrow> (nat \<times> bytes) list" where
  "runes [] = []"
| "runes (b # bs) =
     (case decode_rune (b # bs) of
        None \<Rightarrow> (65533, [b]) # runes bs
      | Some (r, n) \<Rightarrow> (r, take n (b # bs)) # runes (drop n (b # bs)))"
  by pat_completeness auto
termination
  by (relation "measure length") (auto dest: decode_rune_width)

function utf8_valid :: "bytes \<Rightarrow> bool" where
  "utf8_valid [] = True"
| "utf8_valid (b # bs) =
     (case decode_rune (b # bs) of
        None \<Rightarrow> False
      | Some (r, n) \<Rightarrow> utf8_valid (drop n (b # bs)))"
  by pat_completeness auto
termination
  by (relation "measure length") (auto dest: decode_rune_width)

lemma runes_concat: "concat (map snd (runes bs)) = bs"
proof (induction bs rule: runes.induct)
  case (2 b bs)
  show ?case
  proof (cases "decode_rune (b # bs)")
    case None
    with 2 show ?thesis by simp
  next
    case (Some p)
    obtain r n where p: "p = (r, n)" by fastforce
    from 2(2) [OF Some p [symmetric]] Some p show ?thesis
      by (metis (no_types, lifting) append_take_drop_id case_prod_conv concat.simps(2)
          list.simps(9) option.simps(5) runes.simps(2) snd_conv)
  qed
qed simp

lemma runes_ascii_Cons [simp]: "ord b < 128 \<Longrightarrow> runes (b # bs) = (ord b, [b]) # runes bs"
  by (simp add: decode_rune_ascii)

lemma utf8_valid_ascii_Cons [simp]: "ord b < 128 \<Longrightarrow> utf8_valid (b # bs) = utf8_valid bs"
  by (simp add: decode_rune_ascii)

lemma utf8_valid_ascii: "\<forall>c\<in>set bs. ord c < 128 \<Longrightarrow> utf8_valid bs"
proof (induction bs)
  case Nil
  then show ?case by simp
next
  case (Cons b bs)
  then show ?case by (simp del: utf8_valid.simps)
qed

lemma runes_ascii: "\<forall>c\<in>set bs. ord c < 128 \<Longrightarrow> runes bs = map (\<lambda>c. (ord c, [c])) bs"
proof (induction bs)
  case Nil
  then show ?case by simp
next
  case (Cons b bs)
  then show ?case by (simp del: runes.simps)
qed

declare runes.simps(2) [simp del] utf8_valid.simps(2) [simp del]

lemma utf8_valid_append: "utf8_valid a \<Longrightarrow> utf8_valid (a @ b) = utf8_valid b"
proof (induction a rule: utf8_valid.induct)
  case 1
  then show ?case by simp
next
  case (2 x xs)
  then obtain r n where d: "decode_rune (x # xs) = Some (r, n)" and v: "utf8_valid (drop n (x # xs))"
    by (auto simp: utf8_valid.simps(2) split: option.splits)
  from decode_rune_width [OF d] have n: "n \<le> length (x # xs)" by simp
  have "utf8_valid ((x # xs) @ b) = utf8_valid (drop n ((x # xs) @ b))"
    using decode_rune_append [OF d, of b] by (simp add: utf8_valid.simps(2))
  also have "drop n ((x # xs) @ b) = drop n (x # xs) @ b"
    using n by (simp only: drop_append) simp
  finally show ?case using 2(1) [OF d refl v] by simp
qed

text \<open>\<open>utf8.AppendRune\<close>: surrogates and values out of range become FFFD.\<close>

definition encode_rune :: "nat \<Rightarrow> bytes" where
  "encode_rune r0 =
     (let r = (if 1114111 < r0 \<or> (55296 \<le> r0 \<and> r0 \<le> 57343) then 65533 else r0)
      in if r < 128 then [char_of r]
         else if r < 2048 then [char_of (192 + r div 64), char_of (128 + r mod 64)]
         else if r < 65536 then
           [char_of (224 + r div 4096), char_of (128 + r div 64 mod 64), char_of (128 + r mod 64)]
         else [char_of (240 + r div 262144), char_of (128 + r div 4096 mod 64),
               char_of (128 + r div 64 mod 64), char_of (128 + r mod 64)])"

subsection \<open>unicode\<close>

text \<open>Category Cc, and the range tables of the categories Cf, Zl and Zp (Unicode 15).\<close>

definition IsControl :: "nat \<Rightarrow> bool" where
  "IsControl r \<longleftrightarrow> r < 32 \<or> (127 \<le> r \<and> r < 160)"

definition Cf_table :: "(nat \<times> nat) list" where
  "Cf_table = [(173, 173), (1536, 1541), (1564, 1564), (1757, 1757), (1807, 1807),
     (2192, 2193), (2274, 2274), (6158, 6158), (8203, 8207), (8234, 8238), (8288, 8292),
     (8294, 8303), (65279, 65279), (65529, 65531), (69821, 69821), (69837, 69837),
     (78896, 78911), (113824, 113827), (119155, 119162), (917505, 917505), (917536, 917631)]"

definition In_Cf :: "nat \<Rightarrow> bool" where
  "In_Cf r \<longleftrightarrow> list_ex (\<lambda>(lo, hi). lo \<le> r \<and> r \<le> hi) Cf_table"

definition In_Cf_Zl_Zp :: "nat \<Rightarrow> bool" where
  "In_Cf_Zl_Zp r \<longleftrightarrow> In_Cf r \<or> r = 8232 \<or> r = 8233"

definition IsSpace :: "nat \<Rightarrow> bool" where
  "IsSpace r \<longleftrightarrow> (9 \<le> r \<and> r \<le> 13) \<or> r \<in> {32, 133, 160, 5760, 8232, 8233, 8239, 8287, 12288}
     \<or> (8192 \<le> r \<and> r \<le> 8202)"

definition TrimSpace :: "bytes \<Rightarrow> bytes" where
  "TrimSpace s =
     concat (map snd (rev (dropWhile (\<lambda>p. IsSpace (fst p))
       (rev (dropWhile (\<lambda>p. IsSpace (fst p)) (runes s))))))"

subsection \<open>strconv\<close>

definition digit_char :: "nat \<Rightarrow> char" where
  "digit_char d = char_of (48 + d)"

fun nat_dec :: "nat \<Rightarrow> string" where
  "nat_dec n = (if n < 10 then [digit_char n] else nat_dec (n div 10) @ [digit_char (n mod 10)])"

declare nat_dec.simps [simp del]

definition Itoa :: "int \<Rightarrow> string" where
  "Itoa i = (if i < 0 then CHR ''-'' # nat_dec (nat (- i)) else nat_dec (nat i))"

definition is_digit :: "char \<Rightarrow> bool" where
  "is_digit c \<longleftrightarrow> 48 \<le> ord c \<and> ord c \<le> 57"

definition dec_value :: "string \<Rightarrow> nat" where
  "dec_value s = foldl (\<lambda>a c. a * 10 + (ord c - 48)) 0 s"

text \<open>\<open>strconv.ParseUint\<close> base 10 and \<open>strconv.ParseInt\<close> base 10, of a given bit size.\<close>

definition ParseUint10 :: "nat \<Rightarrow> string \<Rightarrow> nat option" where
  "ParseUint10 bits s =
     (if s \<noteq> [] \<and> list_all is_digit s \<and> dec_value s < 2 ^ bits then Some (dec_value s) else None)"

definition ParseInt10 :: "nat \<Rightarrow> string \<Rightarrow> int option" where
  "ParseInt10 bits s =
     (let neg = (s \<noteq> [] \<and> hd s = CHR ''-'');
          t = (if s \<noteq> [] \<and> (hd s = CHR ''-'' \<or> hd s = CHR ''+'') then tl s else s)
      in if t = [] \<or> \<not> list_all is_digit t then None
         else if neg then (if dec_value t \<le> 2 ^ (bits - 1) then Some (- int (dec_value t)) else None)
         else (if dec_value t < 2 ^ (bits - 1) then Some (int (dec_value t)) else None))"

definition Atoi :: "string \<Rightarrow> int option" where
  "Atoi s = ParseInt10 64 s"

lemma ord_digit_char [simp]: "d < 10 \<Longrightarrow> ord (digit_char d) = 48 + d"
  by (simp add: digit_char_def)

lemma nat_dec_ne [simp]: "nat_dec n \<noteq> []"
  by (subst nat_dec.simps) simp

lemma nat_dec_digits: "list_all is_digit (nat_dec n)"
proof (induction n rule: nat_dec.induct)
  case (1 n)
  have "is_digit (digit_char d)" if "d < 10" for d
    using that by (simp add: is_digit_def)
  with 1 show ?case by (subst nat_dec.simps) simp
qed

lemma dec_value_snoc [simp]: "dec_value (s @ [c]) = dec_value s * 10 + (ord c - 48)"
  by (simp add: dec_value_def)

lemma dec_value_Nil [simp]: "dec_value [] = 0"
  by (simp add: dec_value_def)

lemma dec_value_nat_dec [simp]: "dec_value (nat_dec n) = n"
proof (induction n rule: nat_dec.induct)
  case (1 n)
  show ?case
  proof (cases "n < 10")
    case True
    then show ?thesis
      using dec_value_snoc [of "[]" "digit_char n"] by (subst nat_dec.simps) simp
  next
    case False
    with 1 show ?thesis by (subst nat_dec.simps) simp
  qed
qed

lemma digits_hd: "list_all is_digit s \<Longrightarrow> s \<noteq> [] \<Longrightarrow> hd s \<noteq> CHR ''-'' \<and> hd s \<noteq> CHR ''+''"
  by (cases s) (auto simp: is_digit_def)

lemma ParseInt10_Itoa:
  assumes "- (2 ^ (bits - 1)) \<le> i" "i < 2 ^ (bits - 1)"
  shows "ParseInt10 bits (Itoa i) = Some i"
proof (cases "i < 0")
  case True
  have "nat (- i) \<le> 2 ^ (bits - 1)"
    using assms(1) True by (simp add: nat_le_iff)
  with True show ?thesis
    by (simp add: ParseInt10_def Itoa_def nat_dec_digits)
next
  case False
  have "nat i < 2 ^ (bits - 1)" using assms(2) False by (simp add: nat_less_iff)
  with False digits_hd [OF nat_dec_digits [of "nat i"]] show ?thesis
    by (simp add: ParseInt10_def Itoa_def nat_dec_digits)
qed

lemma Itoa_ascii: "c \<in> set (Itoa i) \<Longrightarrow> is_digit c \<or> c = CHR ''-''"
  using nat_dec_digits by (auto simp: Itoa_def list_all_iff split: if_splits)

subsection \<open>encoding/hex\<close>

definition hex_val :: "char \<Rightarrow> nat option" where
  "hex_val c =
     (if 48 \<le> ord c \<and> ord c \<le> 57 then Some (ord c - 48)
      else if 97 \<le> ord c \<and> ord c \<le> 102 then Some (ord c - 87)
      else if 65 \<le> ord c \<and> ord c \<le> 70 then Some (ord c - 55)
      else None)"

definition hex_digit :: "nat \<Rightarrow> char" where
  "hex_digit d = (if d < 10 then char_of (48 + d) else char_of (87 + d))"

definition EncodeToString :: "bytes \<Rightarrow> string" where
  "EncodeToString bs = concat (map (\<lambda>b. [hex_digit (ord b div 16), hex_digit (ord b mod 16)]) bs)"

fun DecodeString :: "string \<Rightarrow> bytes option" where
  "DecodeString [] = Some []"
| "DecodeString [c] = None"
| "DecodeString (a # b # s) =
     (case (hex_val a, hex_val b) of
        (Some x, Some y) \<Rightarrow> map_option (\<lambda>t. char_of (x * 16 + y) # t) (DecodeString s)
      | _ \<Rightarrow> None)"

lemma hex_val_digit [simp]: "d < 16 \<Longrightarrow> hex_val (hex_digit d) = Some d"
  by (auto simp: hex_val_def hex_digit_def)

lemma hex_val_lt: "hex_val c = Some d \<Longrightarrow> d < 16"
  by (auto simp: hex_val_def split: if_splits)

lemma DecodeString_EncodeToString [simp]: "DecodeString (EncodeToString bs) = Some bs"
proof (induction bs)
  case Nil
  then show ?case by (simp add: EncodeToString_def)
next
  case (Cons b bs)
  have "ord b div 16 < 16" by (rule less_mult_imp_div_less) simp
  with Cons show ?case by (simp add: EncodeToString_def)
qed

lemma length_EncodeToString [simp]: "length (EncodeToString bs) = 2 * length bs"
  by (induction bs) (simp_all add: EncodeToString_def)

lemma DecodeString_length: "DecodeString s = Some bs \<Longrightarrow> length s = 2 * length bs"
  by (induction s arbitrary: bs rule: DecodeString.induct) (auto split: option.splits)

lemma DecodeString_Some_iff:
  "(\<exists>bs. DecodeString s = Some bs) \<longleftrightarrow> even (length s) \<and> (\<forall>c\<in>set s. hex_val c \<noteq> None)"
  by (induction s rule: DecodeString.induct) (auto split: option.splits)

lemma EncodeToString_inject [simp]: "EncodeToString a = EncodeToString b \<longleftrightarrow> a = b"
  by (metis DecodeString_EncodeToString option.inject)

text \<open>\<open>strconv.ParseUint(s, 16, 16)\<close>.\<close>

definition ParseHex16 :: "string \<Rightarrow> nat option" where
  "ParseHex16 s =
     (if s \<noteq> [] \<and> list_all (\<lambda>c. hex_val c \<noteq> None) s \<and>
         foldl (\<lambda>a c. a * 16 + the (hex_val c)) 0 s < 65536
      then Some (foldl (\<lambda>a c. a * 16 + the (hex_val c)) 0 s) else None)"

end
