(* ===== verification/Json.thy ===== *)
theory Json
  imports GoLib
begin

text \<open>
  The part of Go's \<open>encoding/json\<close> that the program uses: the token stream of
  \<open>json.Decoder\<close> (\<open>Token\<close>, \<open>More\<close>), the value decoder built on it, decoding into
  structs field by field, and \<open>json.Marshal\<close> of structs. Every caller of the program
  checks \<open>utf8.Valid\<close> before decoding, so string bytes of 128 and above are copied.
\<close>

datatype jvalue =
    JNull
  | JBool bool
  | JNumber string
  | JString bytes
  | JArray "jvalue list"
  | JObject "(bytes \<times> jvalue) list"

subsection \<open>Scanning scalars\<close>

definition is_ws :: "char \<Rightarrow> bool" where
  "is_ws c \<longleftrightarrow> ord c = 32 \<or> ord c = 9 \<or> ord c = 13 \<or> ord c = 10"

definition skip_ws :: "bytes \<Rightarrow> bytes" where
  "skip_ws bs = dropWhile is_ws bs"

fun getu4 :: "bytes \<Rightarrow> (nat \<times> bytes) option" where
  "getu4 (a # b # c # d # rest) =
     (case (hex_val a, hex_val b, hex_val c, hex_val d) of
        (Some w, Some x, Some y, Some z) \<Rightarrow> Some (((w * 16 + x) * 16 + y) * 16 + z, rest)
      | _ \<Rightarrow> None)"
| "getu4 _ = None"

definition is_high :: "nat \<Rightarrow> bool" where
  "is_high v \<longleftrightarrow> 55296 \<le> v \<and> v \<le> 56319"

definition is_low :: "nat \<Rightarrow> bool" where
  "is_low v \<longleftrightarrow> 56320 \<le> v \<and> v \<le> 57343"

text \<open>A second escape that completes a surrogate pair, with the rune of the pair.\<close>

fun low_half :: "nat \<Rightarrow> bytes \<Rightarrow> (nat \<times> bytes) option" where
  "low_half v (a # b # rest) =
     (if is_high v \<and> a = CHR 0x5C \<and> b = CHR ''u'' then
        (case getu4 rest of
           None \<Rightarrow> None
         | Some (l, rest') \<Rightarrow>
             if is_low l then Some (65536 + (v - 55296) * 1024 + (l - 56320), rest') else None)
      else None)"
| "low_half v _ = None"

definition simple_escape :: "char \<Rightarrow> char option" where
  "simple_escape c =
     (if c = CHR 0x22 \<or> c = CHR 0x5C \<or> c = CHR ''/'' then Some c
      else if c = CHR ''b'' then Some (CHR 0x08)
      else if c = CHR ''f'' then Some (CHR 0x0C)
      else if c = CHR ''n'' then Some (CHR 0x0A)
      else if c = CHR ''r'' then Some (CHR 0x0D)
      else if c = CHR ''t'' then Some (CHR 0x09)
      else None)"

text \<open>One unit of a string body: what it decodes to, and the rest.\<close>

definition string_unit :: "bytes \<Rightarrow> (bytes \<times> bytes) option" where
  "string_unit bs =
     (case bs of
        [] \<Rightarrow> None
      | c # cs \<Rightarrow>
          if ord c < 32 \<or> c = CHR 0x22 then None
          else if c \<noteq> CHR 0x5C then Some ([c], cs)
          else (case cs of
              [] \<Rightarrow> None
            | e # r \<Rightarrow>
                if e = CHR ''u'' then
                  (case getu4 r of
                     None \<Rightarrow> None
                   | Some (v, r') \<Rightarrow>
                       if is_high v \<or> is_low v then
                         (case low_half v r' of
                            Some (dec, r'') \<Rightarrow> Some (encode_rune dec, r'')
                          | None \<Rightarrow> Some (encode_rune 65533, r'))
                       else Some (encode_rune v, r'))
                else map_option (\<lambda>x. ([x], r)) (simple_escape e)))"

lemma getu4_len: "getu4 bs = Some (v, r) \<Longrightarrow> length r < length bs"
  by (induction bs rule: getu4.induct) (auto split: option.splits)

lemma low_half_len: "low_half v bs = Some (x, r) \<Longrightarrow> length r < length bs"
  by (induction v bs rule: low_half.induct) (auto split: if_splits option.splits dest: getu4_len)

lemma string_unit_len: "string_unit bs = Some (x, r) \<Longrightarrow> length r < length bs"
  unfolding string_unit_def
  by (auto split: list.splits if_splits option.splits dest!: getu4_len low_half_len)

text \<open>The body of a string literal, after its opening quote.\<close>

function scan_string :: "bytes \<Rightarrow> (bytes \<times> bytes) option" where
  "scan_string [] = None"
| "scan_string (c # cs) =
     (if c = CHR 0x22 then Some ([], cs)
      else case string_unit (c # cs) of
        None \<Rightarrow> None
      | Some (x, r) \<Rightarrow> map_option (\<lambda>(s, rest). (x @ s, rest)) (scan_string r))"
  by pat_completeness auto
termination
  by (relation "measure length") (use string_unit_len in fastforce)+

declare scan_string.simps(2) [simp del]

lemma scan_string_quote [simp]: "scan_string (CHR 0x22 # cs) = Some ([], cs)"
  by (simp add: scan_string.simps(2))

lemma scan_string_unit:
  assumes "string_unit bs = Some (x, r)"
  shows "scan_string bs = map_option (\<lambda>(s, rest). (x @ s, rest)) (scan_string r)"
proof (cases bs)
  case Nil
  with assms show ?thesis by (simp add: string_unit_def)
next
  case (Cons c cs)
  with assms have "c \<noteq> CHR 0x22" by (auto simp: string_unit_def)
  with assms Cons show ?thesis by (simp add: scan_string.simps(2))
qed

lemma scan_string_len: "scan_string bs = Some (s, r) \<Longrightarrow> length r < length bs"
proof (induction bs arbitrary: s rule: scan_string.induct)
  case 1
  then show ?case by simp
next
  case (2 c cs)
  show ?case
  proof (cases "c = CHR 0x22")
    case True
    with 2 show ?thesis by simp
  next
    case False
    with 2(2) obtain x r' s' where u: "string_unit (c # cs) = Some (x, r')"
      and s: "scan_string r' = Some (s', r)"
      by (auto simp: scan_string.simps(2) split: option.splits)
    from 2(1) [OF False u refl s] string_unit_len [OF u] show ?thesis by simp
  qed
qed

definition digits_of :: "bytes \<Rightarrow> bytes" where
  "digits_of bs = takeWhile is_digit bs"

definition after_digits :: "bytes \<Rightarrow> bytes" where
  "after_digits bs = dropWhile is_digit bs"

text \<open>
  A number token, longest match: an optional minus, the integer part without a leading
  zero, an optional fraction and an optional exponent.
\<close>

definition scan_int :: "bytes \<Rightarrow> (bytes \<times> bytes) option" where
  "scan_int bs =
     (case bs of
        [] \<Rightarrow> None
      | c # cs \<Rightarrow> if c = CHR ''0'' then Some ([c], cs)
          else if is_digit c then Some (digits_of bs, after_digits bs) else None)"

definition scan_frac :: "bytes \<Rightarrow> (bytes \<times> bytes) option" where
  "scan_frac bs =
     (case bs of
        c # cs \<Rightarrow>
          if c = CHR ''.'' then
            (if digits_of cs = [] then None else Some (c # digits_of cs, after_digits cs))
          else Some ([], bs)
      | [] \<Rightarrow> Some ([], []))"

definition scan_exp :: "bytes \<Rightarrow> (bytes \<times> bytes) option" where
  "scan_exp bs =
     (case bs of
        c # cs \<Rightarrow>
          if c = CHR ''e'' \<or> c = CHR ''E'' then
            (let (sg, ds) = (case cs of
                 x # xs \<Rightarrow> if x = CHR ''+'' \<or> x = CHR ''-'' then ([x], xs) else ([], cs)
               | [] \<Rightarrow> ([], cs))
             in if digits_of ds = [] then None
                else Some (c # sg @ digits_of ds, after_digits ds))
          else Some ([], bs)
      | [] \<Rightarrow> Some ([], []))"

definition scan_number :: "bytes \<Rightarrow> (bytes \<times> bytes) option" where
  "scan_number bs =
     (let (sg, body) = (case bs of
          c # cs \<Rightarrow> if c = CHR ''-'' then ([c], cs) else ([], bs) | [] \<Rightarrow> ([], bs))
      in case scan_int body of
           None \<Rightarrow> None
         | Some (i, r1) \<Rightarrow> (case scan_frac r1 of
             None \<Rightarrow> None
           | Some (f, r2) \<Rightarrow> (case scan_exp r2 of
               None \<Rightarrow> None
             | Some (e, r3) \<Rightarrow> Some (sg @ i @ f @ e, r3))))"

definition scan_word :: "string \<Rightarrow> jvalue \<Rightarrow> bytes \<Rightarrow> (jvalue \<times> bytes) option" where
  "scan_word w v bs = (if HasPrefix bs w then Some (v, drop (length w) bs) else None)"

definition scan_scalar :: "bytes \<Rightarrow> (jvalue \<times> bytes) option" where
  "scan_scalar bs =
     (case bs of
        [] \<Rightarrow> None
      | c # cs \<Rightarrow>
          if c = CHR 0x22 then map_option (\<lambda>(s, r). (JString s, r)) (scan_string cs)
          else if c = CHR ''t'' then scan_word ''true'' (JBool True) bs
          else if c = CHR ''f'' then scan_word ''false'' (JBool False) bs
          else if c = CHR ''n'' then scan_word ''null'' JNull bs
          else if c = CHR ''-'' \<or> is_digit c then
            map_option (\<lambda>(s, r). (JNumber s, r)) (scan_number bs)
          else None)"

lemma after_digits_len: "length (after_digits bs) \<le> length bs"
  by (simp add: after_digits_def length_dropWhile_le)

lemma scan_int_len: "scan_int bs = Some (x, r) \<Longrightarrow> length r < length bs"
proof -
  assume a: "scan_int bs = Some (x, r)"
  then obtain c cs where bs: "bs = c # cs" by (cases bs) (auto simp: scan_int_def)
  show ?thesis
  proof (cases "c = CHR ''0''")
    case True
    with a bs show ?thesis by (simp add: scan_int_def)
  next
    case False
    with a bs have "is_digit c" "r = after_digits (c # cs)" by (auto simp: scan_int_def split: if_splits)
    then have "r = after_digits cs" by (simp add: after_digits_def)
    with bs after_digits_len [of cs] show ?thesis by simp
  qed
qed

lemma scan_frac_len: "scan_frac bs = Some (x, r) \<Longrightarrow> length r \<le> length bs"
proof (cases bs)
  case (Cons c cs)
  assume "scan_frac bs = Some (x, r)"
  with Cons after_digits_len [of cs] show ?thesis by (auto simp: scan_frac_def split: if_splits)
qed (simp add: scan_frac_def)

lemma scan_exp_len: "scan_exp bs = Some (x, r) \<Longrightarrow> length r \<le> length bs"
proof (cases bs)
  case (Cons c cs)
  assume a: "scan_exp bs = Some (x, r)"
  show ?thesis
  proof (cases "c = CHR ''e'' \<or> c = CHR ''E''")
    case True
    with a Cons have "r = after_digits cs \<or> r = after_digits (tl cs)"
      by (cases cs) (auto simp: scan_exp_def Let_def split: if_splits)
    with Cons after_digits_len [of cs] after_digits_len [of "tl cs"] show ?thesis by auto
  next
    case False
    with a Cons show ?thesis by (simp add: scan_exp_def)
  qed
qed (simp add: scan_exp_def)

lemma scan_number_len: "scan_number bs = Some (x, r) \<Longrightarrow> length r < length bs"
proof -
  assume "scan_number bs = Some (x, r)"
  then have "\<exists>body i r1 f r2 e. (body = bs \<or> body = tl bs) \<and> scan_int body = Some (i, r1) \<and>
      scan_frac r1 = Some (f, r2) \<and> scan_exp r2 = Some (e, r)"
    unfolding scan_number_def Let_def
    by (auto split: option.splits prod.splits list.splits if_splits)
  then obtain body i r1 f r2 e where b: "body = bs \<or> body = tl bs" "scan_int body = Some (i, r1)"
    "scan_frac r1 = Some (f, r2)" "scan_exp r2 = Some (e, r)" by blast
  then have "length r < length body" "length body \<le> length bs"
    using scan_int_len [OF b(2)] scan_frac_len [OF b(3)] scan_exp_len [OF b(4)] by auto
  then show ?thesis by simp
qed

lemma scan_scalar_len: "scan_scalar bs = Some (x, r) \<Longrightarrow> length r < length bs"
  by (auto simp: scan_scalar_def scan_word_def split: list.splits if_splits
      dest!: scan_string_len scan_number_len)

subsection \<open>The token stream of json.Decoder\<close>

datatype tokstate =
    TopValue | ArrayStart | ArrayValue | ArrayComma
  | ObjectStart | ObjectKey | ObjectColon | ObjectValue | ObjectComma

datatype jtoken = Delim char | Scalar jvalue

text \<open>A decoder: the bytes not read yet, its state and its stack of outer states.\<close>

type_synonym decoder = "bytes \<times> tokstate \<times> tokstate list"

definition NewDecoder :: "bytes \<Rightarrow> decoder" where
  "NewDecoder bs = (bs, TopValue, [])"

definition tokenValueAllowed :: "tokstate \<Rightarrow> bool" where
  "tokenValueAllowed st \<longleftrightarrow> st = TopValue \<or> st = ArrayStart \<or> st = ArrayValue \<or> st = ObjectValue"

definition tokenValueEnd :: "tokstate \<Rightarrow> tokstate" where
  "tokenValueEnd st =
     (if st = ArrayStart \<or> st = ArrayValue then ArrayComma
      else if st = ObjectValue then ObjectComma else st)"

abbreviation tokenError :: "decoder \<Rightarrow> jtoken res \<times> decoder" where
  "tokenError d \<equiv> (Inl (Errorf ''invalid JSON token''), d)"

lemma skip_ws_len: "length (skip_ws bs) \<le> length bs"
  by (simp add: skip_ws_def length_dropWhile_le)

function Token :: "decoder \<Rightarrow> jtoken res \<times> decoder" where
  "Token (buf, st, stk) =
     (case skip_ws buf of
        [] \<Rightarrow> (Inl EOF, ([], st, stk))
      | c # cs \<Rightarrow>
          if c = CHR ''['' then
            (if tokenValueAllowed st then (Inr (Delim c), (cs, ArrayStart, st # stk))
             else tokenError (buf, st, stk))
          else if c = CHR '']'' then
            (case stk of
               s # ss \<Rightarrow> if st = ArrayStart \<or> st = ArrayComma
                 then (Inr (Delim c), (cs, tokenValueEnd s, ss)) else tokenError (buf, st, stk)
             | [] \<Rightarrow> tokenError (buf, st, stk))
          else if c = CHR ''{'' then
            (if tokenValueAllowed st then (Inr (Delim c), (cs, ObjectStart, st # stk))
             else tokenError (buf, st, stk))
          else if c = CHR ''}'' then
            (case stk of
               s # ss \<Rightarrow> if st = ObjectStart \<or> st = ObjectComma
                 then (Inr (Delim c), (cs, tokenValueEnd s, ss)) else tokenError (buf, st, stk)
             | [] \<Rightarrow> tokenError (buf, st, stk))
          else if c = CHR '':'' then
            (if st = ObjectColon then Token (cs, ObjectValue, stk) else tokenError (buf, st, stk))
          else if c = CHR '','' then
            (if st = ArrayComma then Token (cs, ArrayValue, stk)
             else if st = ObjectComma then Token (cs, ObjectKey, stk)
             else tokenError (buf, st, stk))
          else if c = CHR 0x22 \<and> (st = ObjectStart \<or> st = ObjectKey) then
            (case scan_string cs of
               None \<Rightarrow> tokenError (buf, st, stk)
             | Some (s, r) \<Rightarrow> (Inr (Scalar (JString s)), (r, ObjectColon, stk)))
          else if tokenValueAllowed st then
            (case scan_scalar (c # cs) of
               None \<Rightarrow> tokenError (buf, st, stk)
             | Some (v, r) \<Rightarrow> (Inr (Scalar v), (r, tokenValueEnd st, stk)))
          else tokenError (buf, st, stk))"
  by pat_completeness auto
termination
proof (relation "measure (\<lambda>(buf, st, stk). length buf)", goal_cases)
  case 1
  then show ?case by simp
qed (use skip_ws_len in \<open>(simp, metis length_Cons less_eq_Suc_le)+\<close>)

declare Token.simps [simp del]

definition More :: "decoder \<Rightarrow> bool" where
  "More d =
     (case d of (buf, st, stk) \<Rightarrow>
        (case skip_ws buf of [] \<Rightarrow> False | c # cs \<Rightarrow> c \<noteq> CHR '']'' \<and> c \<noteq> CHR ''}''))"

abbreviation dlen :: "decoder \<Rightarrow> nat" where
  "dlen d \<equiv> length (fst d)"

lemma Token_len: "Token d = (Inr t, d') \<Longrightarrow> dlen d' < dlen d"
proof (induction "dlen d" arbitrary: d rule: less_induct)
  case less
  obtain buf st stk where d: "d = (buf, st, stk)" by (cases d) auto
  show ?case
  proof (cases "skip_ws buf")
    case Nil
    with less d show ?thesis by (simp add: Token.simps)
  next
    case (Cons c cs)
    with skip_ws_len [of buf] have len: "length cs < length buf" by simp
    have sc: "scan_scalar (c # cs) = Some (v, r) \<Longrightarrow> length r < length buf" for v r
      using scan_scalar_len [of "c # cs" v r] Cons skip_ws_len [of buf] by simp
    have ss: "scan_string cs = Some (v, r) \<Longrightarrow> length r < length buf" for v r
      using scan_string_len [of cs v r] len by simp
    have rec: "Token (cs, s, stk) = (Inr t, d') \<Longrightarrow> dlen d' < length buf" for s
      using less.hyps [of "(cs, s, stk)"] len d by fastforce
    from less.prems show ?thesis
      unfolding d Token.simps [of buf st stk] Cons
      using len by (auto split: if_splits list.splits option.splits dest: sc ss rec)
  qed
qed

lemma Token_len_sym: "(Inr t, d') = Token d \<Longrightarrow> dlen d' < dlen d"
  by (rule Token_len, erule sym)

lemma token_bind_Inr [res_simps]:
  "(case r of (Inl e, _) \<Rightarrow> Inl a | (Inr x, s) \<Rightarrow> g x s) = Inr y \<longleftrightarrow>
     (\<exists>x s. r = (Inr x, s) \<and> g x s = Inr y)"
  by (cases r; cases "fst r") auto

lemma key_case_Inr [res_simps]:
  "(case t of Scalar (JString k) \<Rightarrow> g k | _ \<Rightarrow> Inl a) = Inr y \<longleftrightarrow>
     (\<exists>k. t = Scalar (JString k) \<and> g k = Inr y)"
  by (cases t; cases "case t of Scalar v \<Rightarrow> v") (auto split: jvalue.splits)

lemma close_case_Inr:
  "(case r of (Inr (Delim c), d) \<Rightarrow> if c = x then Inr d else Inl a | _ \<Rightarrow> Inl a) = Inr y \<longleftrightarrow>
     r = (Inr (Delim x), y)"
  by (auto split: prod.splits sum.splits jtoken.splits)

subsection \<open>Decoding a value\<close>

text \<open>
  \<open>build d t\<close> completes the value whose first token is \<open>t\<close>: the tree that
  \<open>Decoder.Decode\<close> reads. Each token shortens the input, which is why it stops.
\<close>

function (sequential) build :: "decoder \<Rightarrow> jtoken \<Rightarrow> (jvalue \<times> decoder) option"
  and build_members :: "decoder \<Rightarrow> ((bytes \<times> jvalue) list \<times> decoder) option"
  and build_elems :: "decoder \<Rightarrow> (jvalue list \<times> decoder) option" where
  "build d (Scalar v) = Some (v, d)"
| "build d (Delim c) =
     (if c = CHR ''{'' then map_option (\<lambda>(ms, d'). (JObject ms, d')) (build_members d)
      else if c = CHR ''['' then map_option (\<lambda>(vs, d'). (JArray vs, d')) (build_elems d)
      else None)"
| "build_members d =
     (if More d then
        (case Token d of
           (Inr (Scalar (JString key)), d1) \<Rightarrow>
             (case Token d1 of
                (Inr t, d2) \<Rightarrow>
                  (case build d2 t of
                     Some (v, d3) \<Rightarrow>
                       map_option (\<lambda>(ms, d'). ((key, v) # ms, d')) (build_members d3)
                   | None \<Rightarrow> None)
              | _ \<Rightarrow> None)
         | _ \<Rightarrow> None)
      else (case Token d of (Inr (Delim c), d') \<Rightarrow> if c = CHR ''}'' then Some ([], d') else None
                          | _ \<Rightarrow> None))"
| "build_elems d =
     (if More d then
        (case Token d of
           (Inr t, d1) \<Rightarrow>
             (case build d1 t of
                Some (v, d2) \<Rightarrow> map_option (\<lambda>(vs, d'). (v # vs, d')) (build_elems d2)
              | None \<Rightarrow> None)
         | _ \<Rightarrow> None)
      else (case Token d of (Inr (Delim c), d') \<Rightarrow> if c = CHR '']'' then Some ([], d') else None
                          | _ \<Rightarrow> None))"
  by pat_completeness auto

lemma build_len_dom:
  "build_build_members_build_elems_dom (Inl (d, t)) \<Longrightarrow> build d t = Some (v, d') \<Longrightarrow>
     dlen d' \<le> dlen d"
  "build_build_members_build_elems_dom (Inr (Inl d)) \<Longrightarrow> build_members d = Some (ms, d') \<Longrightarrow>
     dlen d' \<le> dlen d"
  "build_build_members_build_elems_dom (Inr (Inr d)) \<Longrightarrow> build_elems d = Some (vs, d') \<Longrightarrow>
     dlen d' \<le> dlen d"
proof (induction arbitrary: v d' and ms d' and vs d'
    rule: build_build_members_build_elems.pinduct)
  case (1 d v)
  then show ?case by (simp add: build.psimps)
next
  case (2 d c)
  then show ?case by (auto simp: build.psimps split: if_splits)
next
  case (3 d)
  then show ?case
    by (auto simp: build_members.psimps split: if_splits prod.splits sum.splits jtoken.splits
        jvalue.splits option.splits dest!: Token_len) fastforce
next
  case (4 d)
  then show ?case
    by (auto simp: build_elems.psimps split: if_splits prod.splits sum.splits jtoken.splits
        option.splits dest!: Token_len) fastforce
qed

termination build
proof (relation "measure (\<lambda>x. case x of Inl (d, t) \<Rightarrow> 2 * dlen d + 1
      | Inr (Inl d) \<Rightarrow> 2 * dlen d | Inr (Inr d) \<Rightarrow> 2 * dlen d)", goal_cases)
  case 1
  then show ?case by simp
qed (auto dest!: Token_len_sym build_len_dom(1))

declare build.simps(2) [simp del] build_members.simps [simp del] build_elems.simps [simp del]

lemma build_len:
  "build d t = Some (v, d') \<Longrightarrow> dlen d' \<le> dlen d"
  "build_members d = Some (ms, d') \<Longrightarrow> dlen d' \<le> dlen d"
  "build_elems d = Some (vs, d') \<Longrightarrow> dlen d' \<le> dlen d"
proof (induction d t and d and d arbitrary: v d' and ms d' and vs d'
    rule: build_build_members_build_elems.induct)
  case (3 d)
  then show ?case
    by (auto simp: build_members.simps [of d] split: if_splits prod.splits sum.splits
        jtoken.splits jvalue.splits option.splits dest!: Token_len) fastforce
next
  case (4 d)
  then show ?case
    by (auto simp: build_elems.simps [of d] split: if_splits prod.splits sum.splits
        jtoken.splits option.splits dest!: Token_len) fastforce
qed (auto simp: build.simps split: if_splits)

end
