(* ===== verification/JsonCodec.thy ===== *)
theory JsonCodec
  imports Json
begin

text \<open>
  \<open>json.Marshal\<close> as the program uses it (structs of strings, integers, booleans and
  slices, printed in field order) and the proof that the decoder of theory \<open>Json\<close> reads
  back every value it prints.
\<close>

subsection \<open>Printing\<close>

definition hex4 :: "nat \<Rightarrow> string" where
  "hex4 n = [hex_digit (n div 4096 mod 16), hex_digit (n div 256 mod 16),
             hex_digit (n div 16 mod 16), hex_digit (n mod 16)]"

definition u_escape :: "nat \<Rightarrow> bytes" where
  "u_escape n = CHR 0x5C # CHR ''u'' # hex4 n"

text \<open>
  One rune of a string, escaped: the two-character escapes, HTML-sensitive and control
  characters as \<open>\u00XX\<close>, the separators 2028 and 2029, and FFFD for an invalid byte.
\<close>

definition escape_unit :: "nat \<times> bytes \<Rightarrow> bytes" where
  "escape_unit u =
     (case u of (r, raw) \<Rightarrow>
        if r = 34 \<or> r = 92 then CHR 0x5C # raw
        else if r = 8 then [CHR 0x5C, CHR ''b'']
        else if r = 12 then [CHR 0x5C, CHR ''f'']
        else if r = 10 then [CHR 0x5C, CHR ''n'']
        else if r = 13 then [CHR 0x5C, CHR ''r'']
        else if r = 9 then [CHR 0x5C, CHR ''t'']
        else if r < 32 \<or> r = 60 \<or> r = 62 \<or> r = 38 then u_escape r
        else if r = 65533 \<and> length raw = 1 then u_escape 65533
        else if r = 8232 \<or> r = 8233 then u_escape r
        else raw)"

definition escape_body :: "bytes \<Rightarrow> bytes" where
  "escape_body s = concat (map escape_unit (runes s))"

definition json_quote :: "bytes \<Rightarrow> bytes" where
  "json_quote s = CHR 0x22 # escape_body s @ [CHR 0x22]"

primrec json_print :: "jvalue \<Rightarrow> bytes" where
  "json_print JNull = ''null''"
| "json_print (JBool b) = (if b then ''true'' else ''false'')"
| "json_print (JNumber s) = s"
| "json_print (JString s) = json_quote s"
| "json_print (JArray vs) = ''['' @ join (CHR '','') (map json_print vs) @ '']''"
| "json_print (JObject ms) =
     ''{'' @ join (CHR '','') (map (\<lambda>(k, s). json_quote k @ '':'' @ s)
       (map (map_prod id json_print) ms)) @ ''}''"

text \<open>Values with valid UTF-8 strings and integer numbers: what the program marshals.\<close>

fun jwf :: "jvalue \<Rightarrow> bool" where
  "jwf (JString s) = utf8_valid s"
| "jwf (JNumber s) = (\<exists>i. s = Itoa i)"
| "jwf (JArray vs) = (\<forall>v\<in>set vs. jwf v)"
| "jwf (JObject ms) = (\<forall>m\<in>set ms. utf8_valid (fst m) \<and> jwf (snd m))"
| "jwf _ = True"

subsection \<open>Strings read back\<close>

lemma ord_eqD: "ord c = n \<Longrightarrow> ord d = n \<Longrightarrow> c = d"
  by (metis ord_inject)

lemma ord_eq_iff: "ord c = n \<longleftrightarrow> n < 256 \<and> c = char_of n"
  by (metis char_of_char ord_char_of ord_lt_256)

lemma decode_rune_sep:
  assumes "decode_rune bs = Some (r, n)" "r = 8232 \<or> r = 8233"
  shows "take n bs = encode_rune r"
proof -
  from assms(1) obtain b0 b1 b2 t where bs: "bs = b0 # b1 # b2 # t" and n: "n = 3"
    and b: "224 \<le> ord b0" "ord b0 \<le> 239" "cont b1" "cont b2"
    and r: "r = (ord b0 - 224) * 4096 + (ord b1 - 128) * 64 + (ord b2 - 128)"
    by (cases rule: decode_runeE) (use assms(2) in \<open>auto simp: cont_def\<close>)
  obtain x y z where x: "ord b0 = 224 + x" "ord b1 = 128 + y" "ord b2 = 128 + z" "y < 64" "z < 64"
    using b that [of "ord b0 - 224" "ord b1 - 128" "ord b2 - 128"] by (auto simp: cont_def)
  with r have eq: "r = x * 4096 + y * 64 + z" by simp
  with x assms(2) have "x \<le> 2" "2 \<le> x" by linarith+
  then have "x = 2" by simp
  with eq x assms(2) have "y \<le> 0" by linarith
  with eq \<open>x = 2\<close> have "x = 2 \<and> y = 0 \<and> z = r - 8192" by simp
  with x have "ord b0 = 226" "ord b1 = 128" "ord b2 = r - 8064" using assms(2) by auto
  then have "b0 = char_of (226 :: nat)" "b1 = char_of (128 :: nat)" "b2 = char_of (r - 8064)"
    by (auto simp: ord_eq_iff)
  with bs n assms(2) show ?thesis by (auto simp: encode_rune_def)
qed

lemma getu4_hex4: "n < 65536 \<Longrightarrow> getu4 (hex4 n @ t) = Some (n, t)"
proof -
  assume n: "n < 65536"
  have a: "n div 4096 mod 16 = n div 4096" using n by simp
  have d: "m div 16 * 16 + m mod 16 = m" for m :: nat by simp
  have "n div 4096 * 16 + n div 256 mod 16 = n div 256"
    using d [of "n div 256"] by (simp add: div_mult2_eq [of n 256 16, simplified])
  moreover have "n div 256 * 16 + n div 16 mod 16 = n div 16"
    using d [of "n div 16"] by (simp add: div_mult2_eq [of n 16 16, simplified])
  ultimately have "((n div 4096 * 16 + n div 256 mod 16) * 16 + n div 16 mod 16) * 16 + n mod 16 = n"
    using d [of n] by simp
  moreover have "n div 4096 < 16" using n by simp
  ultimately show ?thesis by (simp add: hex4_def)
qed

lemma string_unit_u:
  assumes "n < 65536" "\<not> is_high n" "\<not> is_low n"
  shows "string_unit (u_escape n @ t) = Some (encode_rune n, t)"
  using assms by (simp add: string_unit_def u_escape_def getu4_hex4)

lemma scan_string_raw:
  assumes "\<forall>c\<in>set raw. 32 \<le> ord c \<and> c \<noteq> CHR 0x22 \<and> c \<noteq> CHR 0x5C"
  shows "scan_string (raw @ t) = map_option (\<lambda>(s, r). (raw @ s, r)) (scan_string t)"
  using assms
proof (induction raw)
  case Nil
  then show ?case by (cases "scan_string t") auto
next
  case (Cons c raw)
  then have "string_unit (c # raw @ t) = Some ([c], raw @ t)"
    by (auto simp: string_unit_def)
  from scan_string_unit [OF this] Cons show ?case
    by (cases "scan_string t") auto
qed

lemma char_of_ascii: "ord c = n \<Longrightarrow> c = char_of n"
  by auto

lemma encode_rune_ascii: "r < 128 \<Longrightarrow> encode_rune r = [char_of r]"
  by (simp add: encode_rune_def)

text \<open>Each escaped rune of a valid string scans back to the bytes of that rune.\<close>

lemma scan_escape_unit:
  assumes "decode_rune (b # bs) = Some (r, n)"
  shows "scan_string (escape_unit (r, take n (b # bs)) @ t) =
     map_option (\<lambda>(s, rest). (take n (b # bs) @ s, rest)) (scan_string t)"
proof (cases "r < 128")
  case True
  from decode_rune_small [OF assms True] have r: "r = ord b" and n: "n = 1" by auto
  have u: "string_unit x = Some ([b], t) \<Longrightarrow>
      scan_string x = map_option (\<lambda>(s, rest). (b # s, rest)) (scan_string t)" for x
    using scan_string_unit [of x "[b]" t] by simp
  consider (q) "ord b = 34 \<or> ord b = 92" | (e) "ord b \<in> {8, 12, 10, 13, 9}"
    | (x) "ord b < 32 \<or> ord b = 60 \<or> ord b = 62 \<or> ord b = 38" "ord b \<notin> {8, 12, 10, 13, 9}"
    | (p) "32 \<le> ord b" "ord b \<notin> {34, 92, 60, 62, 38}" by fastforce
  then show ?thesis
  proof cases
    case q
    then have "b = CHR 0x22 \<or> b = CHR 0x5C" by (auto intro: ord_eqD)
    then show ?thesis unfolding r n using u
      by (auto simp: escape_unit_def string_unit_def simple_escape_def)
  next
    case e
    then have "b = CHR 0x08 \<or> b = CHR 0x0C \<or> b = CHR 0x0A \<or> b = CHR 0x0D \<or> b = CHR 0x09"
      by (auto intro: ord_eqD)
    then show ?thesis unfolding r n using u
      by (auto simp: escape_unit_def string_unit_def simple_escape_def)
  next
    case x
    then have "ord b < 128" by auto
    then have "string_unit (u_escape (ord b) @ t) = Some ([b], t)"
      by (subst string_unit_u) (auto simp: is_high_def is_low_def encode_rune_ascii)
    with x show ?thesis unfolding r n using u
      by (auto simp: escape_unit_def)
  next
    case p
    then have "escape_unit (ord b, [b]) = [b]" "b \<noteq> CHR 0x22" "b \<noteq> CHR 0x5C"
      using True r by (auto simp: escape_unit_def)
    with p show ?thesis unfolding r n using scan_string_raw [of "[b]" t] by simp
  qed
next
  case False
  from decode_rune_width [OF assms] have "0 < n" "n \<le> length (b # bs)" by auto
  let ?raw = "take n (b # bs)"
  have big: "\<forall>c\<in>set ?raw. 32 \<le> ord c \<and> c \<noteq> CHR 0x22 \<and> c \<noteq> CHR 0x5C"
    using decode_rune_big [OF assms] False by force
  show ?thesis
  proof (cases "r = 8232 \<or> r = 8233")
    case True
    then have "escape_unit (r, ?raw) = u_escape r" by (auto simp: escape_unit_def)
    moreover from True have "string_unit (u_escape r @ t) = Some (encode_rune r, t)"
      by (intro string_unit_u) (auto simp: is_high_def is_low_def)
    ultimately show ?thesis
      using scan_string_unit decode_rune_sep [OF assms True] by simp
  next
    case sep: False
    have "length ?raw \<noteq> 1"
    proof
      assume "length ?raw = 1"
      with \<open>n \<le> length (b # bs)\<close> have "n = 1" by simp
      with assms False show False
        by (auto simp: decode_rune_def split: list.splits if_splits)
    qed
    with sep False have "escape_unit (r, ?raw) = ?raw" by (auto simp: escape_unit_def)
    with scan_string_raw [OF big] show ?thesis by simp
  qed
qed

lemma scan_string_body:
  "utf8_valid s \<Longrightarrow> scan_string (escape_body s @ CHR 0x22 # rest) = Some (s, rest)"
proof (induction s rule: utf8_valid.induct)
  case 1
  then show ?case by (simp add: escape_body_def)
next
  case (2 b bs)
  then obtain r n where d: "decode_rune (b # bs) = Some (r, n)" and v: "utf8_valid (drop n (b # bs))"
    by (auto simp: utf8_valid.simps(2) split: option.splits)
  have "escape_body (b # bs) = escape_unit (r, take n (b # bs)) @ escape_body (drop n (b # bs))"
    by (simp add: escape_body_def runes.simps(2) d)
  with scan_escape_unit [OF d] 2(1) [OF d refl v] show ?case
    by (simp del: take_Cons drop_Cons)
qed

subsection \<open>Numbers read back\<close>

text \<open>What may follow a value: nothing, a comma, a closing bracket or white space.\<close>

definition closes :: "bytes \<Rightarrow> bool" where
  "closes rest \<longleftrightarrow> rest = [] \<or> hd rest \<in> set '',]}'' \<or> is_ws (hd rest)"

lemma closes_simps [simp]:
  "closes []" "closes (CHR '','' # r)" "closes (CHR '']'' # r)" "closes (CHR ''}'' # r)"
  by (simp_all add: closes_def)

lemma digits_append:
  assumes "list_all is_digit ds" "rest = [] \<or> \<not> is_digit (hd rest)"
  shows "digits_of (ds @ rest) = ds" "after_digits (ds @ rest) = rest"
proof -
  have "\<forall>c\<in>set ds. is_digit c" using assms(1) by (simp add: list_all_iff)
  then show "digits_of (ds @ rest) = ds" "after_digits (ds @ rest) = rest"
    using assms(2)
    by (auto simp: digits_of_def after_digits_def takeWhile_append2 dropWhile_append2
        takeWhile_eq_Nil_iff dropWhile_eq_self_iff)
qed

lemma closes_not_digit: "closes rest \<Longrightarrow> rest = [] \<or> \<not> is_digit (hd rest)"
  by (auto simp: closes_def is_digit_def is_ws_def)

lemma nat_dec_hd_zero: "hd (nat_dec n) = CHR ''0'' \<Longrightarrow> nat_dec n = ''0''"
proof (induction n rule: nat_dec.induct)
  case (1 n)
  show ?case
  proof (cases "n < 10")
    case True
    with 1 show ?thesis by (simp add: nat_dec.simps [of n])
  next
    case False
    with 1 have z: "nat_dec (n div 10) = ''0''" by (simp add: nat_dec.simps [of n])
    have "dec_value (nat_dec (n div 10)) = 0" unfolding z by (simp add: dec_value_def)
    with False show ?thesis by simp
  qed
qed

lemma scan_int_nat_dec:
  assumes "closes rest"
  shows "scan_int (nat_dec n @ rest) = Some (nat_dec n, rest)"
proof -
  obtain c cs where c: "nat_dec n = c # cs" by (cases "nat_dec n") auto
  show ?thesis
  proof (cases "c = CHR ''0''")
    case True
    with c nat_dec_hd_zero [of n] show ?thesis by (simp add: scan_int_def)
  next
    case False
    have "is_digit c" using nat_dec_digits [of n] c by simp
    with False c digits_append [OF nat_dec_digits closes_not_digit [OF assms], of n]
    show ?thesis by (simp add: scan_int_def)
  qed
qed

lemma scan_number_Itoa:
  assumes "closes rest"
  shows "scan_number (Itoa i @ rest) = Some (Itoa i, rest)"
proof -
  have fe: "scan_frac rest = Some ([], rest)" "scan_exp rest = Some ([], rest)"
    using assms by (cases rest; auto simp: scan_frac_def scan_exp_def closes_def is_ws_def)+
  show ?thesis
  proof (cases "i < 0")
    case True
    with fe scan_int_nat_dec [OF assms] show ?thesis by (simp add: scan_number_def Itoa_def)
  next
    case False
    obtain c cs where c: "nat_dec (nat i) = c # cs" by (cases "nat_dec (nat i)") auto
    with digits_hd [OF nat_dec_digits [of "nat i"]] have "c \<noteq> CHR ''-''" by simp
    with False c fe scan_int_nat_dec [OF assms, of "nat i"] show ?thesis
      by (simp add: scan_number_def Itoa_def)
  qed
qed

subsection \<open>Tokens read back\<close>

lemma skip_ws_Cons: "\<not> is_ws c \<Longrightarrow> skip_ws (c # cs) = c # cs"
  by (simp add: skip_ws_def)

lemma not_ws [simp]:
  "\<not> is_ws (CHR ''['')" "\<not> is_ws (CHR '']'')" "\<not> is_ws (CHR ''{'')" "\<not> is_ws (CHR ''}'')"
  "\<not> is_ws (CHR '','')" "\<not> is_ws (CHR '':'')" "\<not> is_ws (CHR 0x22)" "\<not> is_ws (CHR ''-'')"
  "\<not> is_ws (CHR ''t'')" "\<not> is_ws (CHR ''f'')" "\<not> is_ws (CHR ''n'')"
  "is_digit c \<Longrightarrow> \<not> is_ws c"
  by (auto simp: is_ws_def is_digit_def)

lemma Token_open:
  assumes "tokenValueAllowed st"
  shows "Token (CHR ''['' # cs, st, stk) = (Inr (Delim (CHR ''['')), (cs, ArrayStart, st # stk))"
    "Token (CHR ''{'' # cs, st, stk) = (Inr (Delim (CHR ''{'')), (cs, ObjectStart, st # stk))"
  using assms by (simp_all add: Token.simps skip_ws_Cons)

lemma Token_close:
  "st = ArrayStart \<or> st = ArrayComma \<Longrightarrow>
     Token (CHR '']'' # cs, st, s # stk) = (Inr (Delim (CHR '']'')), (cs, tokenValueEnd s, stk))"
  "st = ObjectStart \<or> st = ObjectComma \<Longrightarrow>
     Token (CHR ''}'' # cs, st, s # stk) = (Inr (Delim (CHR ''}'')), (cs, tokenValueEnd s, stk))"
  by (auto simp: Token.simps skip_ws_Cons)

lemma Token_skip:
  "Token (CHR '','' # cs, ArrayComma, stk) = Token (cs, ArrayValue, stk)"
  "Token (CHR '','' # cs, ObjectComma, stk) = Token (cs, ObjectKey, stk)"
  "Token (CHR '':'' # cs, ObjectColon, stk) = Token (cs, ObjectValue, stk)"
  by (simp_all add: Token.simps [of "CHR '','' # cs"] Token.simps [of "CHR '':'' # cs"] skip_ws_Cons)

lemma Token_key:
  assumes "utf8_valid k" "st = ObjectStart \<or> st = ObjectKey"
  shows "Token (json_quote k @ rest, st, stk) = (Inr (Scalar (JString k)), (rest, ObjectColon, stk))"
  using assms by (auto simp: Token.simps json_quote_def skip_ws_Cons scan_string_body)

lemma More_open [simp]:
  "More (CHR '','' # cs, st, stk)" "More (json_quote k @ rest, st, stk)"
  "\<not> More (CHR '']'' # cs, st, stk)" "\<not> More (CHR ''}'' # cs, st, stk)"
  by (simp_all add: More_def skip_ws_Cons json_quote_def)

lemma Itoa_first: obtains c cs where "Itoa i = c # cs" "c = CHR ''-'' \<or> is_digit c"
proof (cases "i < 0")
  case True
  then show thesis using that by (auto simp: Itoa_def)
next
  case False
  obtain c cs where "nat_dec (nat i) = c # cs" by (cases "nat_dec (nat i)") auto
  with False nat_dec_digits [of "nat i"] show thesis using that by (auto simp: Itoa_def)
qed

lemma digit_ne:
  "is_digit c \<Longrightarrow> c \<notin> set ''[]{}:,tfn'' \<and> c \<noteq> CHR 0x22"
  by (auto simp: is_digit_def)

lemma number_first:
  assumes "c = CHR ''-'' \<or> is_digit c"
  shows "c \<notin> set ''[]{}:,''" "c \<noteq> CHR 0x22 \<and> c \<noteq> CHR ''t'' \<and> c \<noteq> CHR ''f'' \<and> c \<noteq> CHR ''n''"
    "\<not> is_ws c"
  using assms digit_ne [of c] by (elim disjE; simp)+

text \<open>The first character of a printed value tells it apart from the closing delimiters.\<close>

lemma json_print_first:
  assumes "jwf v"
  obtains c cs where "json_print v = c # cs" "\<not> is_ws c" "c \<notin> set '']},:''"
proof (cases v)
  case (JNumber s)
  with assms obtain i where "s = Itoa i" by auto
  moreover obtain c cs where "Itoa i = c # cs" "c = CHR ''-'' \<or> is_digit c" by (rule Itoa_first)
  ultimately show thesis using that [of c cs] JNumber digit_ne [of c] by auto
next
  case (JBool b)
  with that show thesis by (cases b) auto
qed (use that in \<open>auto simp: json_quote_def\<close>)

lemma More_value:
  assumes "jwf v"
  shows "More (json_print v @ rest, st, stk)"
proof -
  from assms obtain c cs where "json_print v = c # cs" "\<not> is_ws c" "c \<notin> set '']},:''"
    by (rule json_print_first)
  then show ?thesis by (auto simp: More_def skip_ws_Cons)
qed

text \<open>Reading one value: its first token, then the rest of its tree.\<close>

definition next_value :: "decoder \<Rightarrow> (jvalue \<times> decoder) option" where
  "next_value d = (case Token d of (Inr t, d') \<Rightarrow> build d' t | _ \<Rightarrow> None)"

definition reads_back :: "jvalue \<Rightarrow> bool" where
  "reads_back v \<longleftrightarrow> (\<forall>st stk rest. tokenValueAllowed st \<longrightarrow> closes rest \<longrightarrow>
     next_value (json_print v @ rest, st, stk) = Some (v, (rest, tokenValueEnd st, stk)))"

lemma reads_backD:
  "reads_back v \<Longrightarrow> tokenValueAllowed st \<Longrightarrow> closes rest \<Longrightarrow>
     next_value (json_print v @ rest, st, stk) = Some (v, (rest, tokenValueEnd st, stk))"
  by (simp add: reads_back_def)

lemma next_value_scalar:
  assumes "tokenValueAllowed st" "c \<notin> set ''[]{}:,''" "\<not> is_ws c"
    "scan_scalar (c # cs) = Some (v, rest)"
  shows "next_value (c # cs, st, stk) = Some (v, (rest, tokenValueEnd st, stk))"
  using assms by (auto simp: next_value_def Token.simps skip_ws_Cons tokenValueAllowed_def)

lemma scan_word_ok: "scan_word w v (w @ rest) = Some (v, rest)"
  by (simp add: scan_word_def HasPrefix_def)

lemma reads_back_scalar:
  assumes "jwf v" "\<forall>vs. v \<noteq> JArray vs" "\<forall>ms. v \<noteq> JObject ms"
  shows "reads_back v"
  unfolding reads_back_def
proof (intro allI impI)
  fix st stk rest
  assume st: "tokenValueAllowed st" and rest: "closes rest"
  note nv = next_value_scalar [OF st]
  show "next_value (json_print v @ rest, st, stk) = Some (v, (rest, tokenValueEnd st, stk))"
  proof (cases v)
    case JNull
    with nv [of "CHR ''n''"] scan_word_ok [of "''null''" JNull rest] show ?thesis
      by (simp add: scan_scalar_def is_ws_def)
  next
    case (JBool b)
    with nv [of "CHR ''t''"] nv [of "CHR ''f''"] scan_word_ok [of "''true''" "JBool True" rest]
      scan_word_ok [of "''false''" "JBool False" rest] show ?thesis
      by (cases b) (simp_all add: scan_scalar_def is_ws_def)
  next
    case (JNumber s)
    with assms(1) obtain i where s: "s = Itoa i" by auto
    obtain c cs where c: "Itoa i = c # cs" "c = CHR ''-'' \<or> is_digit c" by (rule Itoa_first)
    note ne = number_first [OF c(2)]
    have n: "scan_number (c # cs @ rest) = Some (s, rest)"
      using scan_number_Itoa [OF rest, of i] s c(1) by simp
    have "scan_scalar (c # cs @ rest) = Some (JNumber s, rest)"
      unfolding scan_scalar_def list.case using ne c(2) by (simp add: n)
    from nv [OF ne(1,3) this] show ?thesis by (simp add: JNumber s c(1))
  next
    case (JString s)
    with assms(1) have "scan_scalar (json_quote s @ rest) = Some (JString s, rest)"
      by (simp add: scan_scalar_def json_quote_def scan_string_body)
    with nv [of "CHR 0x22" "escape_body s @ CHR 0x22 # rest"] JString show ?thesis
      by (simp add: json_quote_def is_ws_def)
  qed (use assms in auto)
qed

text \<open>The elements of a list after the first, each behind its comma.\<close>

fun comma_list :: "bytes list \<Rightarrow> bytes" where
  "comma_list [] = []"
| "comma_list (p # ps) = CHR '','' # p @ comma_list ps"

lemma join_comma: "join (CHR '','') (p # ps) = p @ comma_list ps"
  by (induction ps arbitrary: p) auto

lemma closes_comma_list [simp]:
  "closes (comma_list ps @ CHR '']'' # rest)" "closes (comma_list ps @ CHR ''}'' # rest)"
  by (cases ps; simp)+

lemma next_valueE:
  assumes "next_value d = Some (v, d')"
  obtains t d1 where "Token d = (Inr t, d1)" "build d1 t = Some (v, d')"
  using assms by (auto simp: next_value_def split: prod.splits sum.splits)

lemma allowed_simps [simp]:
  "tokenValueAllowed ArrayValue" "tokenValueAllowed ArrayStart" "tokenValueAllowed ObjectValue"
  "tokenValueAllowed TopValue"
  "tokenValueEnd ArrayValue = ArrayComma" "tokenValueEnd ArrayStart = ArrayComma"
  "tokenValueEnd ObjectValue = ObjectComma" "tokenValueEnd TopValue = TopValue"
  by (simp_all add: tokenValueAllowed_def tokenValueEnd_def)

lemma build_elems_tail:
  assumes "\<forall>v\<in>set vs. jwf v \<and> reads_back v"
  shows "build_elems (comma_list (map json_print vs) @ CHR '']'' # rest, ArrayComma, s # stk) =
     Some (vs, (rest, tokenValueEnd s, stk))"
  using assms
proof (induction vs)
  case Nil
  then show ?case
    by (simp add: build_elems.simps [of "(CHR '']'' # rest, ArrayComma, s # stk)"] Token_close)
next
  case (Cons v vs)
  let ?t = "comma_list (map json_print vs) @ CHR '']'' # rest"
  have "next_value (json_print v @ ?t, ArrayValue, s # stk) = Some (v, (?t, ArrayComma, s # stk))"
    using Cons.prems reads_backD [of v ArrayValue ?t "s # stk"] by simp
  then obtain t d1 where "Token (json_print v @ ?t, ArrayValue, s # stk) = (Inr t, d1)"
    "build d1 t = Some (v, (?t, ArrayComma, s # stk))" by (rule next_valueE)
  then show ?case using Cons by (subst build_elems.simps) (simp add: Token_skip)
qed

abbreviation print_member :: "bytes \<times> jvalue \<Rightarrow> bytes" where
  "print_member m \<equiv> json_quote (fst m) @ CHR '':'' # json_print (snd m)"

lemma build_members_tail:
  assumes "\<forall>m\<in>set ms. utf8_valid (fst m) \<and> jwf (snd m) \<and> reads_back (snd m)"
  shows "build_members (comma_list (map print_member ms) @ CHR ''}'' # rest, ObjectComma, s # stk) =
     Some (ms, (rest, tokenValueEnd s, stk))"
  using assms
proof (induction ms)
  case Nil
  then show ?case
    by (simp add: build_members.simps [of "(CHR ''}'' # rest, ObjectComma, s # stk)"] Token_close)
next
  case (Cons m ms)
  let ?t = "comma_list (map print_member ms) @ CHR ''}'' # rest"
  obtain k v where m: "m = (k, v)" by fastforce
  have "next_value (json_print v @ ?t, ObjectValue, s # stk) = Some (v, (?t, ObjectComma, s # stk))"
    using Cons.prems reads_backD [of v ObjectValue ?t "s # stk"] m by simp
  then obtain t d1 where "Token (json_print v @ ?t, ObjectValue, s # stk) = (Inr t, d1)"
    "build d1 t = Some (v, (?t, ObjectComma, s # stk))" by (rule next_valueE)
  then show ?case using Cons m by (subst build_members.simps) (simp add: Token_skip Token_key)
qed

lemma reads_back_array:
  assumes "\<forall>v\<in>set vs. jwf v \<and> reads_back v"
  shows "reads_back (JArray vs)"
  unfolding reads_back_def
proof (intro allI impI)
  fix st stk rest
  assume st: "tokenValueAllowed st"
  have "build_elems (join (CHR '','') (map json_print vs) @ CHR '']'' # rest, ArrayStart, st # stk) =
      Some (vs, (rest, tokenValueEnd st, stk))"
  proof (cases vs)
    case Nil
    then show ?thesis
      by (simp add: build_elems.simps [of "(CHR '']'' # rest, ArrayStart, st # stk)"] Token_close)
  next
    case (Cons v ws)
    let ?t = "comma_list (map json_print ws) @ CHR '']'' # rest"
    have "next_value (json_print v @ ?t, ArrayStart, st # stk) = Some (v, (?t, ArrayComma, st # stk))"
      using assms Cons reads_backD [of v ArrayStart ?t "st # stk"] by simp
    then obtain t d1 where "Token (json_print v @ ?t, ArrayStart, st # stk) = (Inr t, d1)"
      "build d1 t = Some (v, (?t, ArrayComma, st # stk))" by (rule next_valueE)
    with Cons assms build_elems_tail [of ws rest st stk] show ?thesis
      by (subst build_elems.simps) (simp add: join_comma More_value)
  qed
  then show "next_value (json_print (JArray vs) @ rest, st, stk) =
      Some (JArray vs, (rest, tokenValueEnd st, stk))"
    by (simp add: next_value_def Token_open [OF st] build.simps(2))
qed

lemma reads_back_object:
  assumes "\<forall>m\<in>set ms. utf8_valid (fst m) \<and> jwf (snd m) \<and> reads_back (snd m)"
  shows "reads_back (JObject ms)"
  unfolding reads_back_def
proof (intro allI impI)
  fix st stk rest
  assume st: "tokenValueAllowed st"
  have pm: "map (\<lambda>(k, s). json_quote k @ '':'' @ s) (map (map_prod id json_print) xs) =
      map print_member xs" for xs
    by (induction xs) auto
  have "build_members (join (CHR '','') (map print_member ms) @ CHR ''}'' # rest, ObjectStart, st # stk) =
      Some (ms, (rest, tokenValueEnd st, stk))"
  proof (cases ms)
    case Nil
    then show ?thesis
      by (simp add: build_members.simps [of "(CHR ''}'' # rest, ObjectStart, st # stk)"] Token_close)
  next
    case (Cons m ns)
    let ?t = "comma_list (map print_member ns) @ CHR ''}'' # rest"
    obtain k v where m: "m = (k, v)" by fastforce
    have "next_value (json_print v @ ?t, ObjectValue, st # stk) = Some (v, (?t, ObjectComma, st # stk))"
      using assms Cons m reads_backD [of v ObjectValue ?t "st # stk"] by simp
    then obtain t d1 where "Token (json_print v @ ?t, ObjectValue, st # stk) = (Inr t, d1)"
      "build d1 t = Some (v, (?t, ObjectComma, st # stk))" by (rule next_valueE)
    with Cons m assms build_members_tail [of ns rest st stk] show ?thesis
      by (subst build_members.simps) (simp add: join_comma Token_key Token_skip)
  qed
  then show "next_value (json_print (JObject ms) @ rest, st, stk) =
      Some (JObject ms, (rest, tokenValueEnd st, stk))"
    unfolding json_print.simps pm
    by (simp add: next_value_def Token_open [OF st] build.simps(2))
qed

lemma json_reads_back: "jwf v \<Longrightarrow> reads_back v"
proof (induction v)
  case (JArray vs)
  then show ?case by (intro reads_back_array) auto
next
  case (JObject ms)
  then show ?case by (intro reads_back_object) (fastforce elim: snds.cases)
qed (rule reads_back_scalar; simp)+

end
