(* ===== verification/JsonStruct.thy ===== *)
theory JsonStruct
  imports JsonCodec
begin

text \<open>
  Decoding a JSON object into a Go struct, as \<open>json.Decoder\<close> does with
  \<open>DisallowUnknownFields\<close>: members in order, a field found by its exact name or else by a
  case-insensitive match, \<open>null\<close> leaving the field as it was, any other type mismatch and
  any unknown member an error. A struct type is its table of fields; each entry stores one
  decoded value into the struct.
\<close>

type_synonym 'a setter = "jvalue \<Rightarrow> 'a \<Rightarrow> 'a option"
type_synonym 'a table = "(string \<times> 'a setter) list"

definition find_field :: "'a table \<Rightarrow> string \<Rightarrow> 'a setter option" where
  "find_field tbl name =
     (case map_of tbl name of
        Some f \<Rightarrow> Some f
      | None \<Rightarrow> map_option snd (List.find (\<lambda>(n, f). EqualFold n name) tbl))"

fun decode_members :: "'a table \<Rightarrow> (bytes \<times> jvalue) list \<Rightarrow> 'a \<Rightarrow> 'a option" where
  "decode_members tbl [] x = Some x"
| "decode_members tbl ((k, v) # ms) x =
     (case find_field tbl k of
        None \<Rightarrow> None
      | Some f \<Rightarrow> (case f v x of None \<Rightarrow> None | Some y \<Rightarrow> decode_members tbl ms y))"

definition decode_struct :: "'a table \<Rightarrow> jvalue \<Rightarrow> 'a \<Rightarrow> 'a option" where
  "decode_struct tbl v x =
     (case v of JObject ms \<Rightarrow> decode_members tbl ms x | JNull \<Rightarrow> Some x | _ \<Rightarrow> None)"

definition set_string :: "(string \<Rightarrow> 'a \<Rightarrow> 'a) \<Rightarrow> 'a setter" where
  "set_string upd v x =
     (case v of JString s \<Rightarrow> Some (upd s x) | JNull \<Rightarrow> Some x | _ \<Rightarrow> None)"

text \<open>\<open>int\<close> and \<open>int64\<close> fields: a JSON number without fraction or exponent that fits.\<close>

definition set_int :: "(int \<Rightarrow> 'a \<Rightarrow> 'a) \<Rightarrow> 'a setter" where
  "set_int upd v x =
     (case v of JNumber s \<Rightarrow> map_option (\<lambda>i. upd i x) (ParseInt10 64 s)
      | JNull \<Rightarrow> Some x | _ \<Rightarrow> None)"

definition set_bool :: "(bool \<Rightarrow> 'a \<Rightarrow> 'a) \<Rightarrow> 'a setter" where
  "set_bool upd v x = (case v of JBool b \<Rightarrow> Some (upd b x) | JNull \<Rightarrow> Some x | _ \<Rightarrow> None)"

fun decode_elems :: "(jvalue \<Rightarrow> 'e option) \<Rightarrow> jvalue list \<Rightarrow> 'e list option" where
  "decode_elems f [] = Some []"
| "decode_elems f (v # vs) =
     (case f v of None \<Rightarrow> None | Some e \<Rightarrow> map_option (Cons e) (decode_elems f vs))"

text \<open>A slice field; \<open>None\<close> is the nil slice, which a JSON \<open>null\<close> stores.\<close>

definition set_slice :: "(jvalue \<Rightarrow> 'e option) \<Rightarrow> ('e list option \<Rightarrow> 'a \<Rightarrow> 'a) \<Rightarrow> 'a setter" where
  "set_slice f upd v x =
     (case v of JArray vs \<Rightarrow> map_option (\<lambda>es. upd (Some es) x) (decode_elems f vs)
      | JNull \<Rightarrow> Some (upd None x) | _ \<Rightarrow> None)"

text \<open>\<open>json.Unmarshal\<close> of a whole document: one value and nothing but white space after it.\<close>

definition Unmarshal :: "bytes \<Rightarrow> jvalue option" where
  "Unmarshal raw =
     (case next_value (NewDecoder raw) of
        Some (v, d) \<Rightarrow> if skip_ws (fst d) = [] then Some v else None
      | None \<Rightarrow> None)"

text \<open>\<open>Decoder.Decode\<close> of the first value of a document.\<close>

definition Decode_first :: "bytes \<Rightarrow> jvalue option" where
  "Decode_first raw = map_option fst (next_value (NewDecoder raw))"

lemma Unmarshal_print: "jwf v \<Longrightarrow> Unmarshal (json_print v) = Some v"
  using reads_backD [OF json_reads_back, of v TopValue "[]" "[]"]
  by (simp add: Unmarshal_def NewDecoder_def skip_ws_def)

lemma Decode_first_print: "jwf v \<Longrightarrow> Decode_first (json_print v) = Some v"
  using reads_backD [OF json_reads_back, of v TopValue "[]" "[]"]
  by (simp add: Decode_first_def NewDecoder_def)

lemma Unmarshal_Decode_first: "Unmarshal raw = Some v \<Longrightarrow> Decode_first raw = Some v"
  by (auto simp: Unmarshal_def Decode_first_def split: option.splits if_splits)

lemma decode_elems_map:
  "(\<And>e. e \<in> set es \<Longrightarrow> f (g e) = Some e) \<Longrightarrow> decode_elems f (map g es) = Some es"
  by (induction es) auto

subsection \<open>Trees without repeated keys, and their depth\<close>

primrec jdepth :: "jvalue \<Rightarrow> nat" where
  "jdepth JNull = 0"
| "jdepth (JBool b) = 0"
| "jdepth (JNumber s) = 0"
| "jdepth (JString s) = 0"
| "jdepth (JArray vs) = Suc (fold max (map jdepth vs) 0)"
| "jdepth (JObject ms) = Suc (fold max (map snd (map (map_prod id jdepth) ms)) 0)"

primrec jdistinct :: "jvalue \<Rightarrow> bool" where
  "jdistinct JNull = True"
| "jdistinct (JBool b) = True"
| "jdistinct (JNumber s) = True"
| "jdistinct (JString s) = True"
| "jdistinct (JArray vs) = list_all id (map jdistinct vs)"
| "jdistinct (JObject ms) =
     (distinct (map fst ms) \<and> list_all snd (map (map_prod id jdistinct) ms))"

lemma fold_max_le: "fold max xs a \<le> (n :: nat) \<longleftrightarrow> a \<le> n \<and> (\<forall>x\<in>set xs. x \<le> n)"
  by (induction xs arbitrary: a) auto

lemma jdepth_Array_le: "jdepth (JArray vs) \<le> n \<longleftrightarrow> (\<exists>m. n = Suc m \<and> (\<forall>v\<in>set vs. jdepth v \<le> m))"
  by (cases n) (auto simp: fold_max_le)

lemma jdepth_Object_le:
  "jdepth (JObject ms) \<le> n \<longleftrightarrow> (\<exists>m. n = Suc m \<and> (\<forall>x\<in>set ms. jdepth (snd x) \<le> m))"
  by (cases n) (auto simp: fold_max_le)

lemma jdistinct_Array [simp]: "jdistinct (JArray vs) \<longleftrightarrow> (\<forall>v\<in>set vs. jdistinct v)"
  by (simp add: list_all_iff)

lemma jdistinct_Object [simp]:
  "jdistinct (JObject ms) \<longleftrightarrow> distinct (map fst ms) \<and> (\<forall>x\<in>set ms. jdistinct (snd x))"
  by (auto simp: list_all_iff)

declare jdistinct.simps(5,6) [simp del] jdepth.simps(5,6) [simp del]

end
