(* ===== verification/Uri.thy ===== *)
theory Uri
  imports GoLib
begin

text \<open>
  \<open>src/uri.go\<close>: the \<open>deep://\<close> address syntax. \<open>ParseURI\<close> with its validators, in the
  order of the file, then the grammar they accept, the well-formedness of what they
  return and the round trip through the canonical spelling.
\<close>

record URI =
  u_Authority :: string
  u_Node :: string
  u_Network :: string
  u_Path :: string
  u_Query :: string
  u_Fragment :: string

definition MaxURILength :: nat where
  "MaxURILength = 4096"

definition isLowerAlnum :: "char \<Rightarrow> bool" where
  "isLowerAlnum c \<longleftrightarrow> (97 \<le> ord c \<and> ord c \<le> 122) \<or> (48 \<le> ord c \<and> ord c \<le> 57)"

definition isHex :: "char \<Rightarrow> bool" where
  "isHex c \<longleftrightarrow> (48 \<le> ord c \<and> ord c \<le> 57) \<or> (97 \<le> ord c \<and> ord c \<le> 102) \<or>
     (65 \<le> ord c \<and> ord c \<le> 70)"

definition validLabel :: "string \<Rightarrow> bool" where
  "validLabel label \<longleftrightarrow>
     \<not> (length label < 1 \<or> length label > 63 \<or> \<not> isLowerAlnum (hd label) \<or>
        \<not> isLowerAlnum (last label)) \<and>
     list_all (\<lambda>c. isLowerAlnum c \<or> c = CHR ''-'') label"

definition validNodeLabel :: "string \<Rightarrow> bool" where
  "validNodeLabel label = validLabel (ReplaceAll label (CHR ''_'') (CHR ''-''))"

definition ValidateAuthority :: "string \<Rightarrow> check" where
  "ValidateAuthority authority =
     (let parts = Split authority (CHR ''.'')
      in if length parts \<noteq> 2 \<or> \<not> validNodeLabel (parts ! 0) \<or> \<not> validLabel (parts ! 1)
         then Inl (Errorf ''authority must be canonical lowercase node.network (two ASCII labels)'')
         else Inr ())"

fun validateASCII_from :: "nat \<Rightarrow> string \<Rightarrow> check" where
  "validateASCII_from i [] = Inr ()"
| "validateASCII_from i (c # cs) =
     (if ord c \<le> 32 \<or> ord c \<ge> 127 \<or> c = CHR 0x5C
      then Inl (Errorf (''URI contains a forbidden character at byte '' @ Itoa (int i)))
      else validateASCII_from (Suc i) cs)"

definition validateASCII :: "string \<Rightarrow> check" where
  "validateASCII value = validateASCII_from 0 value"

definition component_char :: "bool \<Rightarrow> char \<Rightarrow> bool" where
  "component_char allowQuestion c \<longleftrightarrow>
     isLowerAlnum c \<or> (65 \<le> ord c \<and> ord c \<le> 90) \<or> c \<in> set ''-._~!$&'()*+,;=:@/'' \<or>
     (allowQuestion \<and> c = CHR ''?'')"

fun validateComponent_from :: "bool \<Rightarrow> nat \<Rightarrow> string \<Rightarrow> check" where
  "validateComponent_from q i [] = Inr ()"
| "validateComponent_from q i (c # cs) =
     (if c = CHR ''%'' then
        (case cs of
           a # b # rest \<Rightarrow>
             if isHex a \<and> isHex b then validateComponent_from q (i + 3) rest
             else Inl (Errorf (''invalid percent escape at byte '' @ Itoa (int i)))
         | _ \<Rightarrow> Inl (Errorf (''invalid percent escape at byte '' @ Itoa (int i))))
      else if component_char q c then validateComponent_from q (Suc i) cs
      else Inl (Errorf (''forbidden character at byte '' @ Itoa (int i))))"

definition validateComponent :: "string \<Rightarrow> bool \<Rightarrow> check" where
  "validateComponent value allowQuestion = validateComponent_from allowQuestion 0 value"

definition ValidateResource :: "string \<Rightarrow> string \<Rightarrow> check" where
  "ValidateResource path query =
     (if path = [] \<or> hd path \<noteq> CHR ''/'' then Inl (Errorf ''resource path must start with /'')
      else if length path + (if query \<noteq> [] then 1 + length query else 0) > MaxURILength
        then Inl (Errorf ''resource exceeds 4096 bytes'')
      else case validateComponent path False of
        Inl e \<Rightarrow> Inl (Wrapf ''invalid resource path: '' e)
      | Inr _ \<Rightarrow> (case validateComponent query True of
          Inl e \<Rightarrow> Inl (Wrapf ''invalid resource query: '' e)
        | Inr _ \<Rightarrow> Inr ()))"

definition scheme_prefix :: string where
  "scheme_prefix = ''deep://''"

definition parse_tail :: "string \<Rightarrow> string \<Rightarrow> URI res" where
  "parse_tail authority rest0 =
     (let parts = Split authority (CHR ''.'');
          (fragment, rest1) = (case IndexByte rest0 (CHR ''#'') of
              Some i \<Rightarrow> (drop (i + 1) rest0, take i rest0) | None \<Rightarrow> ([], rest0))
      in case validateComponent fragment True of
           Inl e \<Rightarrow> Inl (Wrapf ''invalid URI fragment: '' e)
         | Inr _ \<Rightarrow>
             (let (query, rest2) = (case IndexByte rest1 (CHR ''?'') of
                    Some i \<Rightarrow> (drop (i + 1) rest1, take i rest1) | None \<Rightarrow> ([], rest1));
                  path = (if rest2 = [] then ''/'' else rest2)
              in case ValidateResource path query of
                   Inl e \<Rightarrow> Inl e
                 | Inr _ \<Rightarrow> Inr \<lparr>u_Authority = authority, u_Node = parts ! 0,
                     u_Network = parts ! 1, u_Path = path, u_Query = query,
                     u_Fragment = fragment\<rparr>))"

definition ParseURI :: "string \<Rightarrow> URI res" where
  "ParseURI raw =
     (if length raw = 0 \<or> length raw > MaxURILength
        then Inl (Errorf ''DEEP URI must contain 1 to 4096 ASCII bytes'')
      else case validateASCII raw of
        Inl e \<Rightarrow> Inl e
      | Inr _ \<Rightarrow>
          if length raw < length scheme_prefix \<or>
             \<not> EqualFold (take (length scheme_prefix) raw) scheme_prefix
          then Inl (Errorf ''DEEP URI must start with deep://'')
          else
            (let rest = drop (length scheme_prefix) raw;
                 authorityEnd = (case IndexAny rest ''/?#'' of None \<Rightarrow> length rest | Some i \<Rightarrow> i);
                 authority = ToLower (take authorityEnd rest)
             in case ValidateAuthority authority of
                  Inl e \<Rightarrow> Inl e
                | Inr _ \<Rightarrow> parse_tail authority (drop authorityEnd rest)))"

subsection \<open>The accepted languages\<close>

text \<open>Percent escapes and component characters, as a grammar.\<close>

inductive component :: "bool \<Rightarrow> string \<Rightarrow> bool" for q where
  component_nil: "component q []"
| component_esc: "isHex a \<Longrightarrow> isHex b \<Longrightarrow> component q s \<Longrightarrow> component q (CHR ''%'' # a # b # s)"
| component_chr: "component_char q c \<Longrightarrow> component q s \<Longrightarrow> component q (c # s)"

declare component.intros [intro]
inductive_simps component_Cons: "component q (c # s)"
inductive_simps component_Nil [simp]: "component q []"

lemma percent_not_component_char [simp]: "\<not> component_char q (CHR ''%'')"
  by (simp add: component_char_def isLowerAlnum_def)

lemma validateComponent_from_ok:
  "is_ok (validateComponent_from q i s) \<longleftrightarrow> component q s"
proof (induction q i s rule: validateComponent_from.induct)
  case (1 q i)
  then show ?case by simp
next
  case (2 q i c cs)
  show ?case
  proof (cases "c = CHR ''%''")
    case True
    with 2(1) show ?thesis by (auto simp: component_Cons split: list.splits)
  next
    case False
    with 2(2) show ?thesis by (auto simp: component_Cons)
  qed
qed

lemma validateComponent_ok: "is_ok (validateComponent s q) \<longleftrightarrow> component q s"
  by (simp add: validateComponent_def validateComponent_from_ok)

lemma component_chars:
  "component q s \<Longrightarrow> c \<in> set s \<Longrightarrow> component_char q c \<or> c = CHR ''%'' \<or> isHex c"
  by (induction rule: component.induct) auto

text \<open>Every byte of a component is printable ASCII and none of the delimiters.\<close>

lemma component_char_range:
  "component_char q c \<or> c = CHR ''%'' \<or> isHex c \<Longrightarrow>
     32 < ord c \<and> ord c < 127 \<and> c \<noteq> CHR 0x5C \<and> c \<noteq> CHR ''#'' \<and> c \<noteq> CHR 0x22 \<and> (c = CHR ''?'' \<longrightarrow> q)"
  by (auto simp: component_char_def isLowerAlnum_def isHex_def)

lemma component_range:
  assumes "component q s" "c \<in> set s"
  shows "32 < ord c" "ord c < 127" "c \<noteq> CHR 0x5C" "c \<noteq> CHR ''#''" "c \<noteq> CHR 0x22"
    "\<not> q \<Longrightarrow> c \<noteq> CHR ''?''"
  using component_char_range [OF component_chars [OF assms]] by auto

lemma validateASCII_from_ok:
  "is_ok (validateASCII_from i s) \<longleftrightarrow> (\<forall>c\<in>set s. 32 < ord c \<and> ord c < 127 \<and> c \<noteq> CHR 0x5C)"
  by (induction s arbitrary: i) auto

lemma validateASCII_ok:
  "is_ok (validateASCII s) \<longleftrightarrow> (\<forall>c\<in>set s. 32 < ord c \<and> ord c < 127 \<and> c \<noteq> CHR 0x5C)"
  by (simp add: validateASCII_def validateASCII_from_ok)

lemma ValidateResource_ok:
  "is_ok (ValidateResource p q) \<longleftrightarrow>
     (\<exists>p'. p = CHR ''/'' # p') \<and>
     length p + (if q \<noteq> [] then 1 + length q else 0) \<le> MaxURILength \<and>
     component False p \<and> component True q"
proof -
  have "is_ok (ValidateResource p q) \<longleftrightarrow> p \<noteq> [] \<and> hd p = CHR ''/'' \<and>
     length p + (if q \<noteq> [] then 1 + length q else 0) \<le> MaxURILength \<and>
     is_ok (validateComponent p False) \<and> is_ok (validateComponent q True)"
    by (auto simp: ValidateResource_def split: sum.splits)
  then show ?thesis by (cases p) (auto simp: validateComponent_ok)
qed

text \<open>A label of the network part, and a node label, which also allows inner underscores.\<close>

definition label_chars :: "bool \<Rightarrow> string \<Rightarrow> bool" where
  "label_chars node s \<longleftrightarrow> 1 \<le> length s \<and> length s \<le> 63 \<and> isLowerAlnum (hd s) \<and>
     isLowerAlnum (last s) \<and>
     (\<forall>c\<in>set s. isLowerAlnum c \<or> c = CHR ''-'' \<or> (node \<and> c = CHR ''_''))"

lemma validLabel_iff: "validLabel s \<longleftrightarrow> label_chars False s"
  by (cases s) (auto simp: validLabel_def label_chars_def list_all_iff)

lemma alnum_not_special [simp]:
  "\<not> isLowerAlnum (CHR ''_'')" "\<not> isLowerAlnum (CHR ''-'')" "\<not> isLowerAlnum (CHR ''.'')"
  by (simp_all add: isLowerAlnum_def)

lemma validNodeLabel_iff: "validNodeLabel s \<longleftrightarrow> label_chars True s"
proof (cases "s = []")
  case True
  then show ?thesis by (simp add: validNodeLabel_def validLabel_iff label_chars_def ReplaceAll_def)
next
  case False
  let ?f = "\<lambda>c. if c = CHR ''_'' then CHR ''-'' else c"
  have "isLowerAlnum (?f c) = isLowerAlnum c" for c by auto
  moreover have "hd (map ?f s) = ?f (hd s)" "last (map ?f s) = ?f (last s)"
    using False by (simp_all add: hd_map last_map)
  ultimately show ?thesis
    by (auto simp: validNodeLabel_def validLabel_iff label_chars_def ReplaceAll_def)
qed

lemma label_chars_no_dot: "label_chars b s \<Longrightarrow> CHR ''.'' \<notin> set s"
  by (auto simp: label_chars_def)

lemma ValidateAuthority_ok:
  "is_ok (ValidateAuthority a) \<longleftrightarrow>
     (\<exists>node network. a = node @ CHR ''.'' # network \<and> label_chars True node \<and>
        label_chars False network)"
proof -
  have "is_ok (ValidateAuthority a) \<longleftrightarrow>
      (\<exists>x y. Split a (CHR ''.'') = [x, y] \<and> label_chars True x \<and> label_chars False y)"
    by (auto simp: ValidateAuthority_def Let_def validLabel_iff validNodeLabel_iff
        length_Suc_conv numeral_2_eq_2)
  also have "\<dots> \<longleftrightarrow> (\<exists>node network. a = node @ CHR ''.'' # network \<and> label_chars True node \<and>
        label_chars False network)"
    unfolding Split_eq_2_iff using label_chars_no_dot by blast
  finally show ?thesis .
qed

lemma label_char_range:
  "isLowerAlnum c \<or> c = CHR ''-'' \<or> c = CHR ''_'' \<or> c = CHR ''.'' \<Longrightarrow>
     32 < ord c \<and> ord c < 127 \<and> c \<noteq> CHR 0x5C \<and> c \<notin> set ''/?#'' \<and> lower c = c \<and> c \<noteq> CHR 0x22"
  by (auto simp: isLowerAlnum_def lower_def)

lemma authority_chars:
  assumes "is_ok (ValidateAuthority a)" "c \<in> set a"
  shows "32 < ord c" "ord c < 127" "c \<noteq> CHR 0x5C" "c \<notin> set ''/?#''" "lower c = c" "c \<noteq> CHR 0x22"
proof -
  have "isLowerAlnum c \<or> c = CHR ''-'' \<or> c = CHR ''_'' \<or> c = CHR ''.''"
    using assms by (auto simp: ValidateAuthority_ok label_chars_def)
  from label_char_range [OF this]
  show "32 < ord c" "ord c < 127" "c \<noteq> CHR 0x5C" "c \<notin> set ''/?#''" "lower c = c" "c \<noteq> CHR 0x22"
    by auto
qed

lemma authority_lower: "is_ok (ValidateAuthority a) \<Longrightarrow> ToLower a = a"
  by (simp add: ToLower_def authority_chars map_idI)

lemma authority_length:
  assumes "is_ok (ValidateAuthority a)"
  shows "3 \<le> length a" "length a \<le> 127"
  using assms by (auto simp: ValidateAuthority_ok label_chars_def)

subsection \<open>What a parsed address satisfies\<close>

definition uri_wf :: "URI \<Rightarrow> bool" where
  "uri_wf u \<longleftrightarrow>
     is_ok (ValidateAuthority (u_Authority u)) \<and>
     u_Authority u = u_Node u @ CHR ''.'' # u_Network u \<and> CHR ''.'' \<notin> set (u_Node u) \<and>
     CHR ''.'' \<notin> set (u_Network u) \<and>
     is_ok (ValidateResource (u_Path u) (u_Query u)) \<and>
     component True (u_Fragment u)"

lemma uri_wfD:
  assumes "uri_wf u"
  shows "is_ok (ValidateAuthority (u_Authority u))"
    "Split (u_Authority u) (CHR ''.'') = [u_Node u, u_Network u]"
    "is_ok (ValidateResource (u_Path u) (u_Query u))" "component False (u_Path u)"
    "component True (u_Query u)" "component True (u_Fragment u)" "u_Path u \<noteq> []"
  using assms unfolding uri_wf_def Split_eq_2_iff ValidateResource_ok by (blast+, auto)

lemma parse_tail_wf:
  assumes "is_ok (ValidateAuthority a)" "parse_tail a rest = Inr u"
  shows "uri_wf u" "u_Authority u = a"
proof -
  from assms(1) obtain n w where a: "a = n @ CHR ''.'' # w" "label_chars True n"
    "label_chars False w" by (auto simp: ValidateAuthority_ok)
  then have sp: "Split a (CHR ''.'') = [n, w]"
    by (simp add: Split_eq_2_iff label_chars_no_dot)
  from assms(2) have "u_Authority u = a \<and> u_Node u = n \<and> u_Network u = w \<and>
      is_ok (ValidateResource (u_Path u) (u_Query u)) \<and>
      is_ok (validateComponent (u_Fragment u) True)"
    by (auto simp: parse_tail_def Let_def sp split: sum.splits prod.splits option.splits)
  with assms(1) a show "uri_wf u" "u_Authority u = a"
    by (auto simp: uri_wf_def validateComponent_ok label_chars_no_dot)
qed

lemma ParseURI_authority:
  assumes "ParseURI raw = Inr u"
  obtains a rest where "is_ok (ValidateAuthority a)" "parse_tail a rest = Inr u"
proof -
  from assms have "\<exists>a rest. ValidateAuthority a = Inr () \<and> parse_tail a rest = Inr u"
    unfolding ParseURI_def Let_def by (auto split: sum.splits if_splits)
  then obtain a rest where "ValidateAuthority a = Inr ()" "parse_tail a rest = Inr u" by blast
  with that [of a rest] show thesis by simp
qed

lemma ParseURI_wf: "ParseURI raw = Inr u \<Longrightarrow> uri_wf u"
  by (metis ParseURI_authority parse_tail_wf(1))

subsection \<open>The canonical spelling\<close>

definition format_uri :: "URI \<Rightarrow> string" where
  "format_uri u =
     scheme_prefix @ u_Authority u @ u_Path u @
     (if u_Query u = [] then [] else CHR ''?'' # u_Query u) @
     (if u_Fragment u = [] then [] else CHR ''#'' # u_Fragment u)"

lemma IndexByte_none: "c \<notin> set s \<Longrightarrow> IndexByte s c = None"
  by (auto simp: IndexByte_def IndexBy_None)

lemma IndexByte_at: "c \<notin> set a \<Longrightarrow> IndexByte (a @ c # b) c = Some (length a)"
  by (auto simp: IndexByte_def intro: IndexBy_append_hit)

text \<open>Splitting at a delimiter that the first part cannot contain.\<close>

lemma parse_tail_format:
  assumes "uri_wf u"
  shows "parse_tail (u_Authority u)
           (u_Path u @ (if u_Query u = [] then [] else CHR ''?'' # u_Query u) @
            (if u_Fragment u = [] then [] else CHR ''#'' # u_Fragment u)) = Inr u"
proof -
  let ?q = "if u_Query u = [] then [] else CHR ''?'' # u_Query u"
  let ?f = "if u_Fragment u = [] then [] else CHR ''#'' # u_Fragment u"
  note wf = uri_wfD [OF assms]
  note res = wf(3) and frag = wf(6) and comp = wf(4,5) and path = wf(7)
  have "CHR ''#'' \<notin> set (u_Path u)" "CHR ''#'' \<notin> set (u_Query u)" "CHR ''?'' \<notin> set (u_Path u)"
    using comp component_range(4,6) by blast+
  then have nohash: "CHR ''#'' \<notin> set (u_Path u @ ?q)" by auto
  have s1: "(case IndexByte (u_Path u @ ?q @ ?f) (CHR ''#'') of
      Some i \<Rightarrow> (drop (i + 1) (u_Path u @ ?q @ ?f), take i (u_Path u @ ?q @ ?f))
    | None \<Rightarrow> ([], u_Path u @ ?q @ ?f)) = (u_Fragment u, u_Path u @ ?q)"
    using nohash IndexByte_none [of "CHR ''#''" "u_Path u @ ?q"]
      IndexByte_at [of "CHR ''#''" "u_Path u @ ?q" "u_Fragment u"] by auto
  have s2: "(case IndexByte (u_Path u @ ?q) (CHR ''?'') of
      Some i \<Rightarrow> (drop (i + 1) (u_Path u @ ?q), take i (u_Path u @ ?q))
    | None \<Rightarrow> ([], u_Path u @ ?q)) = (u_Query u, u_Path u)"
    using \<open>CHR ''?'' \<notin> set (u_Path u)\<close> IndexByte_none [of "CHR ''?''" "u_Path u"]
      IndexByte_at [of "CHR ''?''" "u_Path u" "u_Query u"] by auto
  note sp = wf(2)
  obtain vf where "validateComponent (u_Fragment u) True = Inr vf"
    using frag by (auto simp: validateComponent_ok [symmetric] is_ok_iff)
  moreover obtain vr where "ValidateResource (u_Path u) (u_Query u) = Inr vr"
    using res by (auto simp: is_ok_iff)
  ultimately show ?thesis
    unfolding parse_tail_def s1 using path s2 by (simp add: sp Let_def)
qed

lemma format_uri_ascii:
  assumes "uri_wf u"
  shows "is_ok (validateASCII (format_uri u))"
proof -
  note wf = uri_wfD [OF assms]
  have "32 < ord c \<and> ord c < 127 \<and> c \<noteq> CHR 0x5C" if "c \<in> set (format_uri u)" for c
  proof -
    from that have "c \<in> set scheme_prefix \<or> c \<in> set (u_Authority u) \<or> c \<in> set (u_Path u) \<or>
        c \<in> set (u_Query u) \<or> c \<in> set (u_Fragment u) \<or> c = CHR ''?'' \<or> c = CHR ''#''"
      by (auto simp: format_uri_def split: if_splits)
    then show ?thesis
      using authority_chars(1-3) [OF wf(1)] component_range(1-3) [OF wf(4)]
        component_range(1-3) [OF wf(5)] component_range(1-3) [OF wf(6)]
      by (elim disjE) (simp_all add: scheme_prefix_def, auto)
  qed
  then show ?thesis by (simp add: validateASCII_ok)
qed

lemma IndexAny_path:
  assumes "\<forall>c\<in>set a. c \<notin> set ''/?#''" "p = CHR ''/'' # p'"
  shows "IndexAny (a @ p @ t) ''/?#'' = Some (length a)"
  using assms IndexBy_append_hit [of a "\<lambda>x. x \<in> set ''/?#''" "CHR ''/''" "p' @ t"]
  by (simp add: IndexAny_def)

lemma EqualFold_refl [simp]: "EqualFold s s"
  by (simp add: EqualFold_def)

lemma ParseURI_formatted:
  assumes "uri_wf u" and "length (format_uri u) \<le> MaxURILength"
  shows "ParseURI (format_uri u) = Inr u"
proof -
  let ?t = "u_Path u @ (if u_Query u = [] then [] else CHR ''?'' # u_Query u) @
            (if u_Fragment u = [] then [] else CHR ''#'' # u_Fragment u)"
  have raw: "format_uri u = scheme_prefix @ u_Authority u @ ?t" by (simp add: format_uri_def)
  note auth = uri_wfD(1) [OF assms(1)]
  from uri_wfD(3) [OF assms(1)] obtain p' where p': "u_Path u = CHR ''/'' # p'" by (auto simp: ValidateResource_ok)
  have ix: "IndexAny (u_Authority u @ ?t) ''/?#'' = Some (length (u_Authority u))"
    using authority_chars(4) [OF auth] by (intro IndexAny_path [OF _ p']) blast
  obtain va where va: "validateASCII (format_uri u) = Inr va"
    using format_uri_ascii [OF assms(1)] by (auto simp: is_ok_iff)
  obtain vb where vb: "ValidateAuthority (u_Authority u) = Inr vb"
    using auth by (auto simp: is_ok_iff)
  have "length (format_uri u) \<noteq> 0" "\<not> length (format_uri u) < length scheme_prefix"
    "take (length scheme_prefix) (format_uri u) = scheme_prefix"
    "drop (length scheme_prefix) (format_uri u) = u_Authority u @ ?t"
    by (simp_all add: raw scheme_prefix_def del: append_assoc)
  then have "ParseURI (format_uri u) = parse_tail (u_Authority u) ?t"
    unfolding ParseURI_def va using assms(2)
    by (simp add: ix authority_lower [OF auth] vb Let_def)
  also have "\<dots> = Inr u" by (rule parse_tail_format [OF assms(1)])
  finally show ?thesis .
qed

text \<open>
  Property C19: Parsing the canonical spelling of any well-formed address of at most 4096 bytes gives
  back exactly that address, with every component kept byte for byte.
\<close>

theorem ParseURI_format:
  assumes "uri_wf u" and "length (format_uri u) \<le> MaxURILength"
  shows "ParseURI (format_uri u) = Inr u"
  using assms by (rule ParseURI_formatted)

theorem ParseURI_format_witness:
  "ParseURI ''deep://n_1.alpha/a%20b?q=1#s'' = Inr \<lparr>u_Authority = ''n_1.alpha'',
     u_Node = ''n_1'', u_Network = ''alpha'', u_Path = ''/a%20b'', u_Query = ''q=1'',
     u_Fragment = ''s''\<rparr>"
proof -
  let ?u = "\<lparr>u_Authority = ''n_1.alpha'', u_Node = ''n_1'', u_Network = ''alpha'',
     u_Path = ''/a%20b'', u_Query = ''q=1'', u_Fragment = ''s''\<rparr>"
  have "uri_wf ?u"
    by (simp add: uri_wf_def ValidateAuthority_def validNodeLabel_def validLabel_def
        ReplaceAll_def isLowerAlnum_def ValidateResource_def MaxURILength_def
        validateComponent_def isHex_def component_char_def component_Cons)
  moreover have "length (format_uri ?u) \<le> MaxURILength"
    by (simp add: format_uri_def scheme_prefix_def MaxURILength_def)
  ultimately have "ParseURI (format_uri ?u) = Inr ?u" by (rule ParseURI_format)
  then show ?thesis by (simp add: format_uri_def scheme_prefix_def)
qed

text \<open>
  Property C20: Whatever \<open>ParseURI\<close> accepts is canonical: the authority is two valid lowercase
  labels joined by one dot, the path and query pass the wire validator, and the fragment
  is kept apart from both.
\<close>

theorem ParseURI_sound:
  assumes "ParseURI raw = Inr u"
  shows "is_ok (ValidateAuthority (u_Authority u)) \<and>
     u_Authority u = u_Node u @ CHR ''.'' # u_Network u \<and>
     label_chars True (u_Node u) \<and> label_chars False (u_Network u) \<and>
     is_ok (ValidateResource (u_Path u) (u_Query u)) \<and>
     CHR ''#'' \<notin> set (u_Path u @ u_Query u @ u_Fragment u)"
proof -
  from assms obtain a rest where a: "is_ok (ValidateAuthority a)" "parse_tail a rest = Inr u"
    by (rule ParseURI_authority)
  note wf = uri_wfD [OF parse_tail_wf(1) [OF a]]
  from wf(1) obtain n w where nw: "u_Authority u = n @ CHR ''.'' # w" "label_chars True n"
    "label_chars False w" by (auto simp: ValidateAuthority_ok)
  then have "Split (u_Authority u) (CHR ''.'') = [n, w]"
    by (simp add: Split_eq_2_iff label_chars_no_dot)
  with wf(2) have "label_chars True (u_Node u)" "label_chars False (u_Network u)"
    using nw by auto
  moreover have "CHR ''#'' \<notin> set (u_Path u @ u_Query u @ u_Fragment u)"
    using component_range(4) [OF wf(4)] component_range(4) [OF wf(5)]
      component_range(4) [OF wf(6)] by auto
  moreover from wf(2) have "u_Authority u = u_Node u @ CHR ''.'' # u_Network u"
    by (simp only: Split_eq_2_iff)
  ultimately show ?thesis using wf(1,3) by blast
qed

theorem ParseURI_sound_witness:
  "\<exists>u. ParseURI ''DEEP://N.Alpha?x#f'' = Inr u \<and> u_Authority u = ''n.alpha'' \<and>
     is_ok (ValidateResource (u_Path u) (u_Query u))"
proof -
  let ?u = "\<lparr>u_Authority = ''n.alpha'', u_Node = ''n'', u_Network = ''alpha'',
     u_Path = ''/'', u_Query = ''x'', u_Fragment = ''f''\<rparr>"
  have p: "ParseURI ''DEEP://N.Alpha?x#f'' = Inr ?u"
    by code_simp
  from ParseURI_sound [OF p] p show ?thesis by auto
qed

end
