(* ===== verification/Protocol.thy ===== *)
theory Protocol
  imports JsonStruct Uri
begin

text \<open>
  \<open>src/protocol.go\<close>: the frame format, the metadata validator and decoder, remote errors.
\<close>

definition ProtocolVersion :: nat where
  "ProtocolVersion = 2"

definition HeaderSize :: nat where
  "HeaderSize = 20"

definition MaxMetadataSize :: nat where
  "MaxMetadataSize = 8192"

definition MaxChunkSize :: nat where
  "MaxChunkSize = 65536"

definition MaxResourceSize :: int where
  "MaxResourceSize = 2 ^ 40"

type_synonym MessageType = "8 word"

abbreviation (input) Hello :: MessageType where "Hello \<equiv> 1"
abbreviation (input) Welcome :: MessageType where "Welcome \<equiv> 2"
abbreviation (input) Request :: MessageType where "Request \<equiv> 3"
abbreviation (input) Response :: MessageType where "Response \<equiv> 4"
abbreviation (input) Data :: MessageType where "Data \<equiv> 5"
abbreviation (input) End :: MessageType where "End \<equiv> 6"
abbreviation (input) Error :: MessageType where "Error \<equiv> 7"
abbreviation (input) Close :: MessageType where "Close \<equiv> 8"
abbreviation (input) Continue :: MessageType where "Continue \<equiv> 9"

record Frame =
  f_Type :: MessageType
  f_RequestID :: "32 word"
  f_Metadata :: bytes
  f_Body :: bytes

definition protocolError :: "string \<Rightarrow> err" where
  "protocolError m = Wrapf m ErrProtocol"

definition validateHeader :: "MessageType \<Rightarrow> 32 word \<Rightarrow> 32 word \<Rightarrow> 32 word \<Rightarrow> check" where
  "validateHeader kind rid metaSize bodySize =
     (if kind < Hello \<or> kind > Continue then Inl (protocolError ''unknown message type'')
      else if metaSize < 2 \<or> metaSize > word_of_nat MaxMetadataSize \<or>
              bodySize > word_of_nat MaxChunkSize
        then Inl (protocolError ''frame size limit exceeded'')
      else if kind \<noteq> Data \<and> bodySize \<noteq> 0 then Inl (protocolError ''only DATA has a body'')
      else if kind = Data \<and> bodySize = 0 then Inl (protocolError ''empty DATA frame'')
      else if (kind = Hello \<or> kind = Welcome \<or> kind = Close) \<and> rid \<noteq> 0
        then Inl (protocolError ''control message with request ID'')
      else if ((kind \<ge> Request \<and> kind \<le> End) \<or> kind = Continue) \<and> rid = 0
        then Inl (protocolError ''resource message without request ID'')
      else Inr ())"

subsection \<open>Metadata validation\<close>

text \<open>
  \<open>validateSurrogates\<close>: the index loop as recursion on the bytes from index \<open>i\<close> on, with
  the flag for being inside a string.
\<close>

function surrogates_from :: "bool \<Rightarrow> bytes \<Rightarrow> check" where
  "surrogates_from quoted [] = Inr ()"
| "surrogates_from quoted (c # cs) =
     (if c = CHR 0x22 then surrogates_from (\<not> quoted) cs
      else if \<not> quoted \<or> c \<noteq> CHR 0x5C then surrogates_from quoted cs
      else case cs of
        [] \<Rightarrow> Inl (protocolError ''unfinished JSON escape'')
      | e # r \<Rightarrow>
          if e \<noteq> CHR ''u'' then surrogates_from quoted r
          else if length r < 4 then Inl (protocolError ''short Unicode escape'')
          else case ParseHex16 (take 4 r) of
            None \<Rightarrow> Inl (protocolError ''invalid Unicode escape'')
          | Some value \<Rightarrow>
              if 0xDC00 \<le> value \<and> value \<le> 0xDFFF
                then Inl (protocolError ''unpaired Unicode surrogate'')
              else if 0xD800 \<le> value \<and> value \<le> 0xDBFF then
                (if length (drop 4 r) < 6 \<or> drop 4 r ! 0 \<noteq> CHR 0x5C \<or> drop 4 r ! 1 \<noteq> CHR ''u''
                 then Inl (protocolError ''unpaired Unicode surrogate'')
                 else case ParseHex16 (take 4 (drop 6 r)) of
                   None \<Rightarrow> Inl (protocolError ''unpaired Unicode surrogate'')
                 | Some low \<Rightarrow>
                     if low < 0xDC00 \<or> low > 0xDFFF
                     then Inl (protocolError ''unpaired Unicode surrogate'')
                     else surrogates_from quoted (drop 10 r))
              else surrogates_from quoted (drop 4 r))"
  by pat_completeness auto
termination
  by (relation "measure (\<lambda>(q, bs). length bs)") auto

declare surrogates_from.simps(2) [simp del]

definition validateSurrogates :: "bytes \<Rightarrow> check" where
  "validateSurrogates raw = surrogates_from False raw"

function (sequential) walkJSON :: "decoder \<Rightarrow> jtoken \<Rightarrow> nat \<Rightarrow> decoder res"
  and walk_object :: "decoder \<Rightarrow> bytes list \<Rightarrow> nat \<Rightarrow> decoder res"
  and walk_array :: "decoder \<Rightarrow> nat \<Rightarrow> decoder res" where
  "walkJSON d (Scalar v) depth = Inr d"
| "walkJSON d (Delim delim) depth =
     (if depth > 16 then Inl (protocolError ''metadata nesting exceeds 16'')
      else if delim = CHR ''{'' then walk_object d [] depth
      else if delim = CHR ''['' then walk_array d depth
      else Inl (protocolError ''unexpected JSON delimiter''))"
| "walk_object d keys depth =
     (if More d then
        (case Token d of
           (Inl e, _) \<Rightarrow> Inl (protocolError ''invalid JSON'')
         | (Inr keyToken, d1) \<Rightarrow>
             (case keyToken of
                Scalar (JString key) \<Rightarrow>
                  if key \<in> set keys then Inl (protocolError ''duplicate or invalid metadata key'')
                  else (case Token d1 of
                      (Inl e, _) \<Rightarrow> Inl (protocolError ''invalid JSON'')
                    | (Inr value, d2) \<Rightarrow>
                        (case walkJSON d2 value (depth + 1) of
                           Inl e \<Rightarrow> Inl e
                         | Inr d3 \<Rightarrow> walk_object d3 (key # keys) depth))
              | _ \<Rightarrow> Inl (protocolError ''duplicate or invalid metadata key'')))
      else (case Token d of
              (Inr (Delim c), d') \<Rightarrow>
                if c = CHR ''}'' then Inr d' else Inl (protocolError ''invalid JSON object'')
            | _ \<Rightarrow> Inl (protocolError ''invalid JSON object'')))"
| "walk_array d depth =
     (if More d then
        (case Token d of
           (Inl e, _) \<Rightarrow> Inl (protocolError ''invalid JSON'')
         | (Inr value, d1) \<Rightarrow>
             (case walkJSON d1 value (depth + 1) of
                Inl e \<Rightarrow> Inl e
              | Inr d2 \<Rightarrow> walk_array d2 depth))
      else (case Token d of
              (Inr (Delim c), d') \<Rightarrow>
                if c = CHR '']'' then Inr d' else Inl (protocolError ''invalid JSON array'')
            | _ \<Rightarrow> Inl (protocolError ''invalid JSON array'')))"
  by pat_completeness auto

lemma walk_len_dom:
  "walkJSON_walk_object_walk_array_dom (Inl (d, t, k)) \<Longrightarrow> walkJSON d t k = Inr d' \<Longrightarrow>
     dlen d' \<le> dlen d"
  "walkJSON_walk_object_walk_array_dom (Inr (Inl (d, keys, k))) \<Longrightarrow>
     walk_object d keys k = Inr d' \<Longrightarrow> dlen d' \<le> dlen d"
  "walkJSON_walk_object_walk_array_dom (Inr (Inr (d, k))) \<Longrightarrow> walk_array d k = Inr d' \<Longrightarrow>
     dlen d' \<le> dlen d"
proof (induction arbitrary: d' and d' and d' rule: walkJSON_walk_object_walk_array.pinduct)
  case (1 d v k)
  then show ?case by (simp add: walkJSON.psimps)
next
  case (2 d c k)
  then show ?case by (auto simp: walkJSON.psimps split: if_splits)
next
  case (3 d keys k)
  show ?case
  proof (cases "More d")
    case True
    with 3(1,4) obtain key d1 vt d2 d3 where
      s: "Token d = (Inr (Scalar (JString key)), d1)" "key \<notin> set keys" "Token d1 = (Inr vt, d2)"
        "walkJSON d2 vt (k + 1) = Inr d3" "walk_object d3 (key # keys) k = Inr d'"
      by (auto simp: walk_object.psimps res_simps)
    note ih = 3(2,3) [OF True s(1) [symmetric] refl refl refl s(2) s(3) [symmetric] refl]
    from ih(1) [OF s(4)] ih(2) [OF s(4,5)] Token_len [OF s(1)] Token_len [OF s(3)]
    show ?thesis by simp
  next
    case False
    with 3(1,4) have "Token d = (Inr (Delim (CHR ''}'')), d')"
      by (simp add: walk_object.psimps close_case_Inr)
    then show ?thesis using Token_len by fastforce
  qed
next
  case (4 d k)
  show ?case
  proof (cases "More d")
    case True
    with 4(1,4) obtain vt d1 d2 where s: "Token d = (Inr vt, d1)"
        "walkJSON d1 vt (k + 1) = Inr d2" "walk_array d2 k = Inr d'"
      by (auto simp: walk_array.psimps res_simps)
    note ih = 4(2,3) [OF True s(1) [symmetric] refl]
    from ih(1) [OF s(2)] ih(2) [OF s(2,3)] Token_len [OF s(1)] show ?thesis by simp
  next
    case False
    with 4(1,4) have "Token d = (Inr (Delim (CHR '']'')), d')"
      by (simp add: walk_array.psimps close_case_Inr)
    then show ?thesis using Token_len by fastforce
  qed
qed

termination walkJSON
proof (relation "measure (\<lambda>x. case x of Inl (d, t, k) \<Rightarrow> 2 * dlen d + 1
      | Inr (Inl (d, keys, k)) \<Rightarrow> 2 * dlen d | Inr (Inr (d, k)) \<Rightarrow> 2 * dlen d)", goal_cases)
  case 1
  then show ?case by simp
qed (auto dest!: Token_len_sym walk_len_dom(1))

declare walkJSON.simps(2) [simp del] walk_object.simps [simp del] walk_array.simps [simp del]

definition validateJSON :: "bytes \<Rightarrow> check" where
  "validateJSON raw =
     (if length raw < 2 \<or> length raw > MaxMetadataSize \<or> \<not> utf8_valid raw
        then Inl (protocolError ''invalid metadata encoding or size'')
      else case validateSurrogates raw of
        Inl e \<Rightarrow> Inl e
      | Inr _ \<Rightarrow>
          (case Token (NewDecoder raw) of
             (Inr (Delim c), d) \<Rightarrow>
               if c \<noteq> CHR ''{'' then Inl (protocolError ''metadata must be a JSON object'')
               else (case walkJSON d (Delim c) 1 of
                   Inl e \<Rightarrow> Inl e
                 | Inr d' \<Rightarrow>
                     (case Token d' of
                        (Inl e, _) \<Rightarrow> if errors_is e EOF then Inr ()
                          else Inl (protocolError ''trailing JSON data'')
                      | (Inr _, _) \<Rightarrow> Inl (protocolError ''trailing JSON data'')))
           | _ \<Rightarrow> Inl (protocolError ''metadata must be a JSON object'')))"

subsection \<open>Reading and writing frames\<close>

definition ReadFrame :: "reader \<Rightarrow> Frame res \<times> reader" where
  "ReadFrame r =
     (case ReadFull HeaderSize r of
        (Inl e, r1) \<Rightarrow> (Inl e, r1)
      | (Inr header, r1) \<Rightarrow>
          if take 4 header \<noteq> ''DEEP'' \<or> ord (header ! 4) \<noteq> ProtocolVersion \<or>
             Uint16 (take 2 (drop 6 header)) \<noteq> 0
          then (Inl (protocolError ''unknown magic, framing version, or flags''), r1)
          else
            (let kind = word_of_nat (ord (header ! 5));
                 rid = Uint32 (take 4 (drop 8 header));
                 metaSize = Uint32 (take 4 (drop 12 header));
                 bodySize = Uint32 (take 4 (drop 16 header))
             in case validateHeader kind rid metaSize bodySize of
                  Inl e \<Rightarrow> (Inl e, r1)
                | Inr _ \<Rightarrow>
                    (case ReadFull (unat metaSize) r1 of
                       (Inl e, r2) \<Rightarrow> (Inl e, r2)
                     | (Inr meta, r2) \<Rightarrow>
                         (case validateJSON meta of
                            Inl e \<Rightarrow> (Inl e, r2)
                          | Inr _ \<Rightarrow>
                              (case ReadFull (unat bodySize) r2 of
                                 (Inl e, r3) \<Rightarrow> (Inl e, r3)
                               | (Inr body, r3) \<Rightarrow>
                                   (Inr \<lparr>f_Type = kind, f_RequestID = rid, f_Metadata = meta,
                                         f_Body = body\<rparr>, r3))))))"

function writeAll :: "bytes \<Rightarrow> writer \<Rightarrow> check \<times> writer" where
  "writeAll data w =
     (if data = [] then (Inr (), w)
      else case Write data w of
        (n, e, w') \<Rightarrow>
          if n < 0 \<or> n > int (length data) then (Inl ShortWrite, w')
          else case e of
            Some er \<Rightarrow> (Inl er, w')
          | None \<Rightarrow> if n = 0 then (Inl ShortWrite, w') else writeAll (drop (nat n) data) w')"
  by pat_completeness auto
termination
  by (relation "measure (\<lambda>(data, w). length data)") (auto simp: Write_def split: list.splits)

declare writeAll.simps [simp del]

definition frame_header :: "Frame \<Rightarrow> bytes" where
  "frame_header frame =
     ''DEEP'' @ [char_of ProtocolVersion, char_of (unat (f_Type frame)), char_of (0 :: nat),
                 char_of (0 :: nat)] @
     PutUint32 (f_RequestID frame) @ PutUint32 (word_of_nat (length (f_Metadata frame))) @
     PutUint32 (word_of_nat (length (f_Body frame)))"

fun write_parts :: "bytes list \<Rightarrow> writer \<Rightarrow> check \<times> writer" where
  "write_parts [] w = (Inr (), w)"
| "write_parts (p # ps) w =
     (case writeAll p w of (Inl e, w') \<Rightarrow> (Inl e, w') | (Inr _, w') \<Rightarrow> write_parts ps w')"

definition WriteFrame :: "Frame \<Rightarrow> writer \<Rightarrow> check \<times> writer" where
  "WriteFrame frame w =
     (if length (f_Metadata frame) > MaxMetadataSize \<or> length (f_Body frame) > MaxChunkSize
        then (Inl (protocolError ''frame size limit exceeded''), w)
      else case validateHeader (f_Type frame) (f_RequestID frame)
                  (word_of_nat (length (f_Metadata frame))) (word_of_nat (length (f_Body frame))) of
        Inl e \<Rightarrow> (Inl e, w)
      | Inr _ \<Rightarrow>
          (case validateJSON (f_Metadata frame) of
             Inl e \<Rightarrow> (Inl e, w)
           | Inr _ \<Rightarrow> write_parts [frame_header frame, f_Metadata frame, f_Body frame] w))"

text \<open>\<open>send\<close>: the metadata argument is the struct's JSON tree, which always marshals.\<close>

definition send :: "MessageType \<Rightarrow> 32 word \<Rightarrow> jvalue \<Rightarrow> bytes \<Rightarrow> writer \<Rightarrow> check \<times> writer" where
  "send kind rid metadata body w =
     WriteFrame \<lparr>f_Type = kind, f_RequestID = rid, f_Metadata = json_print metadata,
                 f_Body = body\<rparr> w"

subsection \<open>Decoding metadata\<close>

fun check_fields :: "(bytes \<rightharpoonup> jvalue) \<Rightarrow> string list \<Rightarrow> check" where
  "check_fields object [] = Inr ()"
| "check_fields object (name # names) =
     (case object name of
        None \<Rightarrow> Inl (protocolError (''missing or null metadata field: '' @ name))
      | Some v \<Rightarrow> if v = JNull then Inl (protocolError (''missing or null metadata field: '' @ name))
                  else check_fields object names)"

definition DecodeMetadata :: "Frame \<Rightarrow> 'a table \<Rightarrow> 'a \<Rightarrow> string list \<Rightarrow> 'a res" where
  "DecodeMetadata frame destination zero names =
     (case validateJSON (f_Metadata frame) of
        Inl e \<Rightarrow> Inl e
      | Inr _ \<Rightarrow>
          (case Unmarshal (f_Metadata frame) of
             Some (JObject ms) \<Rightarrow>
               if length (remdups (map fst ms)) \<noteq> length names
                 then Inl (protocolError ''missing or unknown metadata fields'')
               else (case check_fields (map_of (rev ms)) names of
                   Inl e \<Rightarrow> Inl e
                 | Inr _ \<Rightarrow>
                     (case Decode_first (f_Metadata frame) of
                        Some v \<Rightarrow>
                          (case decode_struct destination v zero of
                             Some x \<Rightarrow> Inr x
                           | None \<Rightarrow> Inl (protocolError ''invalid metadata types: ''))
                      | None \<Rightarrow> Inl (protocolError ''invalid metadata types: '')))
           | _ \<Rightarrow> Inl (Errorf ''json: cannot unmarshal'')))"

subsection \<open>Writers\<close>

text \<open>Whatever the writer does, what reaches it is a prefix of the data, and all of it on success.\<close>

lemma writeAll_prefix:
  "writeAll data w = (x, w') \<Longrightarrow>
     \<exists>p s. data = p @ s \<and> w_out w' = w_out w @ p \<and> (is_ok x \<longrightarrow> s = [])"
proof (induction data w rule: writeAll.induct)
  case (1 data w)
  obtain n e w1 where W: "Write data w = (n, e, w1)" by (cases "Write data w") auto
  have out: "w_out w1 = w_out w @ take (nat n) data"
    using W by (auto simp: Write_def split: list.splits)
  show ?case
  proof (cases "data \<noteq> [] \<and> 0 < n \<and> n \<le> int (length data) \<and> e = None")
    case True
    then have "writeAll data w = writeAll (drop (nat n) data) w1"
      by (subst writeAll.simps) (simp add: W)
    with "1.prems" have "writeAll (drop (nat n) data) w1 = (x, w')" by simp
    from "1.IH" [OF _ W [symmetric] _ _ _ _ this] True obtain p s where
      "drop (nat n) data = p @ s" "w_out w' = w_out w1 @ p" "is_ok x \<longrightarrow> s = []" by auto
    then show ?thesis
      using out append_take_drop_id [of "nat n" data]
      by (intro exI [of _ "take (nat n) data @ p"] exI [of _ s]) (simp del: append_take_drop_id)
  next
    case False
    then have "data = [] \<and> x = Inr () \<and> w' = w \<or> data \<noteq> [] \<and> \<not> is_ok x \<and> w' = w1"
      using "1.prems"
      by (subst (asm) writeAll.simps) (auto simp: W split: if_splits option.splits)
    then show ?thesis
      using out append_take_drop_id [of "nat n" data] by (elim disjE) (simp, metis)
  qed
qed

lemma writeAll_ok: "writeAll data w = (Inr u, w') \<Longrightarrow> w_out w' = w_out w @ data"
  by (drule writeAll_prefix) auto

text \<open>A writer with nothing scripted accepts everything.\<close>

lemma writeAll_clean:
  "w_script w = [] \<Longrightarrow> writeAll data w = (Inr (), w\<lparr>w_out := w_out w @ data\<rparr>)"
  by (cases "data = []") (simp_all add: writeAll.simps [of data w] Write_def writeAll.simps [of "[]"])

lemma write_parts_ok: "write_parts ps w = (Inr u, w') \<Longrightarrow> w_out w' = w_out w @ concat ps"
  by (induction ps arbitrary: w) (auto split: prod.splits sum.splits dest!: writeAll_ok)

lemma write_parts_clean:
  "w_script w = [] \<Longrightarrow> write_parts ps w = (Inr (), w\<lparr>w_out := w_out w @ concat ps\<rparr>)"
  by (induction ps arbitrary: w) (simp_all add: writeAll_clean)

lemma write_parts_prefix:
  "write_parts ps w = (x, w') \<Longrightarrow> \<exists>p s. concat ps = p @ s \<and> w_out w' = w_out w @ p"
proof (induction ps arbitrary: w)
  case Nil
  then show ?case by simp
next
  case (Cons q ps)
  obtain y w1 where q: "writeAll q w = (y, w1)" by fastforce
  from writeAll_prefix [OF q] obtain p s where p: "q = p @ s" "w_out w1 = w_out w @ p"
    "is_ok y \<longrightarrow> s = []" by blast
  show ?case
  proof (cases y)
    case (Inl e)
    with Cons.prems q p show ?thesis by (intro exI [of _ p] exI [of _ "s @ concat ps"]) simp
  next
    case (Inr u)
    with Cons.prems q have "write_parts ps w1 = (x, w')" by simp
    from Cons.IH [OF this] obtain p' s' where "concat ps = p' @ s'" "w_out w' = w_out w1 @ p'" by blast
    with p Inr show ?thesis by (intro exI [of _ "p @ p'"] exI [of _ s']) simp
  qed
qed

subsection \<open>Frames on the wire\<close>

definition frame_ok :: "Frame \<Rightarrow> bool" where
  "frame_ok f \<longleftrightarrow> length (f_Metadata f) \<le> MaxMetadataSize \<and> length (f_Body f) \<le> MaxChunkSize \<and>
     is_ok (validateHeader (f_Type f) (f_RequestID f) (word_of_nat (length (f_Metadata f)))
       (word_of_nat (length (f_Body f)))) \<and> is_ok (validateJSON (f_Metadata f))"

definition encode_frame :: "Frame \<Rightarrow> bytes" where
  "encode_frame f = frame_header f @ f_Metadata f @ f_Body f"

lemma WriteFrame_ok:
  assumes "WriteFrame f w = (Inr u, w')"
  shows "frame_ok f" "w_out w' = w_out w @ encode_frame f"
proof -
  from assms have f: "frame_ok f" and
      w: "write_parts [frame_header f, f_Metadata f, f_Body f] w = (Inr u, w')"
    by (auto simp: WriteFrame_def frame_ok_def res_simps simp del: write_parts.simps)
  show "frame_ok f" "w_out w' = w_out w @ encode_frame f"
    using f write_parts_ok [OF w] by (simp_all add: encode_frame_def)
qed

lemma WriteFrame_clean:
  assumes "frame_ok f" "w_script w = []"
  shows "WriteFrame f w = (Inr (), w\<lparr>w_out := w_out w @ encode_frame f\<rparr>)"
  using assms write_parts_clean [OF assms(2), of "[frame_header f, f_Metadata f, f_Body f]"]
  by (auto simp: WriteFrame_def frame_ok_def encode_frame_def is_ok_iff)

lemma unat_word32: "n < 4294967296 \<Longrightarrow> unat (word_of_nat n :: 32 word) = n"
  by (simp add: unat_of_nat take_bit_nat_eq_self)

lemma unat_word8: "n < 256 \<Longrightarrow> unat (word_of_nat n :: 8 word) = n"
  by (simp add: unat_of_nat take_bit_nat_eq_self)

lemma unat8_lt: "unat (w :: 8 word) < 256"
  using unsigned_less [of w] by simp

lemma length_frame_header [simp]: "length (frame_header f) = 20"
  by (simp add: frame_header_def)

lemma encode_frame_ne: "encode_frame f \<noteq> []"
  by (metis append_is_Nil_conv encode_frame_def length_frame_header list.size(3) zero_neq_numeral)

lemma frame_header_fields:
  assumes "length (f_Metadata f) < 4294967296" "length (f_Body f) < 4294967296"
  shows "take 4 (frame_header f) = ''DEEP''" "ord (frame_header f ! 4) = ProtocolVersion"
    "Uint16 (take 2 (drop 6 (frame_header f))) = 0"
    "(word_of_nat (ord (frame_header f ! 5)) :: 8 word) = f_Type f"
    "Uint32 (take 4 (drop 8 (frame_header f))) = f_RequestID f"
    "Uint32 (take 4 (drop 12 (frame_header f))) = word_of_nat (length (f_Metadata f))"
    "Uint32 (take 4 (drop 16 (frame_header f))) = word_of_nat (length (f_Body f))"
  using unat8_lt [of "f_Type f"]
  by (simp_all add: frame_header_def Uint16_def ProtocolVersion_def)

lemma ReadFrame_encode:
  assumes "frame_ok f" "stream r = encode_frame f @ rest"
  obtains r' where "ReadFrame r = (Inr f, r')" "stream r' = rest" "r_end r' = r_end r"
proof -
  have m: "length (f_Metadata f) < 4294967296" "length (f_Body f) < 4294967296"
    using assms(1) by (auto simp: frame_ok_def MaxMetadataSize_def MaxChunkSize_def)
  note hdr = frame_header_fields [OF m]
  have st: "stream r = frame_header f @ f_Metadata f @ f_Body f @ rest"
    using assms(2) by (simp add: encode_frame_def)
  have "HeaderSize \<le> length (stream r)" by (simp add: st HeaderSize_def)
  then obtain r1 where r1: "ReadFull HeaderSize r = (Inr (frame_header f), r1)"
    "stream r1 = f_Metadata f @ f_Body f @ rest" "r_end r1 = r_end r"
    by (rule ReadFull_ok) (simp add: st HeaderSize_def)
  have "length (f_Metadata f) \<le> length (stream r1)" by (simp add: r1)
  then obtain r2 where r2: "ReadFull (length (f_Metadata f)) r1 = (Inr (f_Metadata f), r2)"
    "stream r2 = f_Body f @ rest" "r_end r2 = r_end r"
    by (rule ReadFull_ok) (simp add: r1)
  have "length (f_Body f) \<le> length (stream r2)" by (simp add: r2)
  then obtain r3 where r3: "ReadFull (length (f_Body f)) r2 = (Inr (f_Body f), r3)"
    "stream r3 = rest" "r_end r3 = r_end r"
    by (rule ReadFull_ok) (simp add: r2)
  obtain u v where "validateHeader (f_Type f) (f_RequestID f) (word_of_nat (length (f_Metadata f)))
       (word_of_nat (length (f_Body f))) = Inr u" "validateJSON (f_Metadata f) = Inr v"
    using assms(1) by (auto simp: frame_ok_def is_ok_iff)
  then have "ReadFrame r = (Inr f, r3)"
    unfolding ReadFrame_def r1 using hdr m
    by (simp add: Let_def unat_word32 r2 r3)
  with r3 that show thesis by blast
qed

lemma list20_split:
  assumes "length h = 20"
  shows "h = take 4 h @ [h ! 4, h ! 5] @ take 2 (drop 6 h) @ take 4 (drop 8 h) @
     take 4 (drop 12 h) @ take 4 (drop 16 h)"
proof -
  have j: "take a (drop b h) @ drop (b + a) h = drop b h" for a b
    using append_take_drop_id [of a "drop b h"] by (simp add: add.commute)
  have "take 4 h @ take 2 (drop 4 h) @ take 2 (drop 6 h) @ take 4 (drop 8 h) @
     take 4 (drop 12 h) @ drop 16 h = h"
    using j [of 4 12] j [of 4 8] j [of 2 6] j [of 2 4] by simp
  moreover have "take 2 (drop 4 h) = [h ! 4, h ! 5]"
    using assms by (simp add: numeral_2_eq_2 take_Suc_conv_app_nth)
  moreover have "drop 16 h = take 4 (drop 16 h)" using assms by simp
  ultimately show ?thesis by simp
qed

lemma Uint16_zero:
  assumes "length bs = 2" "Uint16 bs = 0"
  shows "bs = [char_of (0 :: nat), char_of (0 :: nat)]"
proof -
  from assms(1) obtain a b where bs: "bs = [a, b]" by (auto simp: length_Suc_conv numeral_2_eq_2)
  have lt: "be_nat 0 bs < 2 ^ 16" using be_nat_bound [of 0 bs] assms(1) by simp
  then have "be_nat 0 bs = 0"
    using assms(2) by (simp add: Uint16_def word_of_nat_eq_0_iff take_bit_nat_eq_self
        dvd_imp_le) (metis dvd_imp_le not_less neq0_conv)
  then have "ord a = 0" "ord b = 0" by (simp_all add: bs)
  then show ?thesis by (metis bs char_of_char)
qed

lemma ReadFrame_sound:
  assumes "ReadFrame r = (Inr f, r')"
  shows "frame_ok f" "stream r = encode_frame f @ stream r'" "r_end r' = r_end r"
proof -
  from assms obtain h r1 meta r2 body where
    h: "ReadFull HeaderSize r = (Inr h, r1)" and
    magic: "take 4 h = ''DEEP''" "ord (h ! 4) = ProtocolVersion" "Uint16 (take 2 (drop 6 h)) = 0" and
    vh: "validateHeader (word_of_nat (ord (h ! 5))) (Uint32 (take 4 (drop 8 h)))
           (Uint32 (take 4 (drop 12 h))) (Uint32 (take 4 (drop 16 h))) = Inr ()" and
    m: "ReadFull (unat (Uint32 (take 4 (drop 12 h)))) r1 = (Inr meta, r2)" and
    vj: "validateJSON meta = Inr ()" and
    b: "ReadFull (unat (Uint32 (take 4 (drop 16 h)))) r2 = (Inr body, r')" and
    f: "f = \<lparr>f_Type = word_of_nat (ord (h ! 5)), f_RequestID = Uint32 (take 4 (drop 8 h)),
             f_Metadata = meta, f_Body = body\<rparr>"
    unfolding ReadFrame_def Let_def by (auto simp: res_simps)
  note H = ReadFull_InrD [OF h] and M = ReadFull_InrD [OF m] and B = ReadFull_InrD [OF b]
  have lh: "length h = 20" using H(1,2) by (simp add: HeaderSize_def)
  have lm: "length meta = unat (Uint32 (take 4 (drop 12 h)))" using M(1,2) by simp
  have lb: "length body = unat (Uint32 (take 4 (drop 16 h)))" using B(1,2) by simp
  have bounds: "unat (Uint32 (take 4 (drop 12 h))) \<le> MaxMetadataSize"
    "unat (Uint32 (take 4 (drop 16 h))) \<le> MaxChunkSize"
    using vh by (auto simp: validateHeader_def res_simps word_less_nat_alt not_less
        MaxMetadataSize_def MaxChunkSize_def)
  have "take 2 (drop 6 h) = [char_of (0 :: nat), char_of (0 :: nat)]"
    using magic(3) lh by (intro Uint16_zero) simp_all
  moreover have "h ! 4 = char_of ProtocolVersion" using magic(2) by (metis char_of_char)
  moreover have "unat (word_of_nat (ord (h ! 5)) :: 8 word) = ord (h ! 5)"
    by (simp add: unat_word8)
  ultimately have "frame_header f = h"
    using list20_split [OF lh] magic(1) lm lb lh
    by (simp add: f frame_header_def PutUint32_Uint32)
  then show "stream r = encode_frame f @ stream r'" "r_end r' = r_end r"
    using H M B append_take_drop_id [of HeaderSize "stream r"]
      append_take_drop_id [of "unat (Uint32 (take 4 (drop 12 h)))" "stream r1"]
      append_take_drop_id [of "unat (Uint32 (take 4 (drop 16 h)))" "stream r2"]
    by (simp_all add: encode_frame_def f del: append_take_drop_id) 
  show "frame_ok f" using vh vj bounds lm lb by (simp add: frame_ok_def f)
qed

lemma ReadFrame_len [len_dec]:
  "ReadFrame r = (Inr f, r') \<Longrightarrow> length (stream r') < length (stream r)"
  using ReadFrame_sound(2) [of r f r'] encode_frame_ne [of f] by simp

lemma ReadFrame_len_le [len_dec]:
  "ReadFrame r = (x, r') \<Longrightarrow> length (stream r') \<le> length (stream r)"
  unfolding ReadFrame_def Let_def
  by (auto split: prod.splits sum.splits if_splits dest!: ReadFull_len)

lemma ReadFrame_same_stream:
  assumes "same_stream r s"
  shows "fst (ReadFrame r) = fst (ReadFrame s) \<and> same_stream (snd (ReadFrame r)) (snd (ReadFrame s))"
proof -
  have step: "\<exists>x r' s'. ReadFull n a = (x, r') \<and> ReadFull n b = (x, s') \<and> same_stream r' s'"
    if "same_stream a b" for n a b
    using ReadFull_same_stream [OF that, of n] by (metis prod.collapse)
  from step [OF assms, of HeaderSize] obtain h r1 s1 where
    1: "ReadFull HeaderSize r = (h, r1)" "ReadFull HeaderSize s = (h, s1)" "same_stream r1 s1" by blast
  show ?thesis
  proof (cases h)
    case (Inl e)
    with 1 show ?thesis by (simp add: ReadFrame_def)
  next
    case (Inr hd)
    let ?m = "unat (Uint32 (take 4 (drop 12 hd)))" and ?b = "unat (Uint32 (take 4 (drop 16 hd)))"
    from step [OF 1(3), of ?m] obtain m r2 s2 where
      2: "ReadFull ?m r1 = (m, r2)" "ReadFull ?m s1 = (m, s2)" "same_stream r2 s2" by blast
    from step [OF 2(3), of ?b] obtain b r3 s3 where
      3: "ReadFull ?b r2 = (b, r3)" "ReadFull ?b s2 = (b, s3)" "same_stream r3 s3" by blast
    show ?thesis
      unfolding ReadFrame_def Let_def 1 Inr prod.case sum.case 2
      by (cases m; cases b) (use 1 2 3 in \<open>auto split: sum.splits\<close>)
  qed
qed

subsection \<open>Message codecs\<close>

text \<open>
  The contract of a self-delimiting message format over byte streams: the decoder reads
  back exactly what the encoder wrote, whatever follows and however the stream is cut into
  chunks, and accepts nothing else. Frames satisfy it here, proxy messages in their own
  theory; the lemmas say what a receiver may rely on.
\<close>

locale message_codec =
  fixes enc :: "'a \<Rightarrow> bytes"
    and dec :: "reader \<Rightarrow> 'a res \<times> reader"
    and good :: "'a \<Rightarrow> bool"
  assumes dec_enc: "good x \<Longrightarrow> stream r = enc x @ rest \<Longrightarrow>
      \<exists>r'. dec r = (Inr x, r') \<and> stream r' = rest \<and> r_end r' = r_end r"
    and dec_sound: "dec r = (Inr x, r') \<Longrightarrow>
      good x \<and> stream r = enc x @ stream r' \<and> r_end r' = r_end r"
begin

fun dec_list :: "nat \<Rightarrow> reader \<Rightarrow> 'a list res \<times> reader" where
  "dec_list 0 r = (Inr [], r)"
| "dec_list (Suc n) r =
     (case dec r of
        (Inl e, r') \<Rightarrow> (Inl e, r')
      | (Inr x, r') \<Rightarrow> (case dec_list n r' of
          (Inl e, r'') \<Rightarrow> (Inl e, r'') | (Inr xs, r'') \<Rightarrow> (Inr (x # xs), r'')))"

lemma prefix_free:
  assumes "good x" "good y" "enc x @ s = enc y @ t"
  shows "x = y" "s = t"
proof -
  let ?r = "whole (enc x @ s)"
  obtain r1 where 1: "dec ?r = (Inr x, r1)" "stream r1 = s"
    using dec_enc [OF assms(1), of ?r s] by auto
  obtain r2 where 2: "dec ?r = (Inr y, r2)" "stream r2 = t"
    using dec_enc [OF assms(2), of ?r t] assms(3) by auto
  from 1 2 show "x = y" "s = t" by auto
qed

lemma dec_list_enc:
  assumes "\<forall>x\<in>set xs. good x" "stream r = concat (map enc xs) @ rest"
  shows "\<exists>r'. dec_list (length xs) r = (Inr xs, r') \<and> stream r' = rest \<and> r_end r' = r_end r"
  using assms
proof (induction xs arbitrary: r)
  case Nil
  then show ?case by simp
next
  case (Cons x xs)
  then obtain r1 where 1: "dec r = (Inr x, r1)" "stream r1 = concat (map enc xs) @ rest"
    "r_end r1 = r_end r" using dec_enc [of x r "concat (map enc xs) @ rest"] by auto
  from Cons.IH [OF _ 1(2)] Cons.prems obtain r2 where
    "dec_list (length xs) r1 = (Inr xs, r2)" "stream r2 = rest" "r_end r2 = r_end r1" by auto
  with 1 show ?case by simp
qed

text \<open>Two message sequences with the same bytes are the same sequence.\<close>

lemma enc_list_inject:
  assumes "\<forall>x\<in>set xs. good x" "\<forall>y\<in>set ys. good y" "\<And>x. good x \<Longrightarrow> enc x \<noteq> []"
    "concat (map enc xs) = concat (map enc ys)"
  shows "xs = ys"
  using assms(1,2,4)
proof (induction xs arbitrary: ys)
  case Nil
  with assms(3) show ?case by (cases ys) auto
next
  case (Cons x xs)
  with assms(3) [of x] obtain y zs where ys: "ys = y # zs" by (cases ys) auto
  have g: "good x" "good y" and rest: "\<forall>x\<in>set xs. good x" "\<forall>y\<in>set zs. good y"
    and e: "enc x @ concat (map enc xs) = enc y @ concat (map enc zs)"
    using Cons.prems ys by simp_all
  show ?case using Cons.IH [OF rest] prefix_free [OF g e] ys by simp
qed

end

interpretation wire: message_codec encode_frame ReadFrame frame_ok
proof
  fix x r rest
  assume "frame_ok x" "stream r = encode_frame x @ rest"
  then show "\<exists>r'. ReadFrame r = (Inr x, r') \<and> stream r' = rest \<and> r_end r' = r_end r"
    by (rule ReadFrame_encode) blast
next
  fix r x r'
  assume "ReadFrame r = (Inr x, r')"
  then show "frame_ok x \<and> stream r = encode_frame x @ stream r' \<and> r_end r' = r_end r"
    using ReadFrame_sound by blast
qed

end
