(* ===== verification/Metadata.thy ===== *)
theory Metadata
  imports Protocol
begin

text \<open>
  What the metadata validator of \<open>src/protocol.go\<close> accepts: the token walk agrees with
  the tree decoder, no object repeats a key, and nesting stays within 16 levels; and every
  tree the program marshals passes it.
\<close>

subsection \<open>The walk and the tree\<close>

lemma members_step:
  assumes "build_members d = Some (r, d')"
  shows "(\<exists>key d1 t d2 v d3 ms. More d \<and> Token d = (Inr (Scalar (JString key)), d1) \<and>
      Token d1 = (Inr t, d2) \<and> build d2 t = Some (v, d3) \<and> build_members d3 = Some (ms, d') \<and>
      r = (key, v) # ms) \<or>
    (\<not> More d \<and> Token d = (Inr (Delim (CHR ''}'')), d') \<and> r = [])"
  using assms
  by (subst (asm) build_members.simps)
    (auto split: if_splits prod.splits sum.splits jtoken.splits jvalue.splits option.splits)

lemma elems_step:
  assumes "build_elems d = Some (r, d')"
  shows "(\<exists>t d1 v d2 vs. More d \<and> Token d = (Inr t, d1) \<and> build d1 t = Some (v, d2) \<and>
      build_elems d2 = Some (vs, d') \<and> r = v # vs) \<or>
    (\<not> More d \<and> Token d = (Inr (Delim (CHR '']'')), d') \<and> r = [])"
  using assms
  by (subst (asm) build_elems.simps)
    (auto split: if_splits prod.splits sum.splits jtoken.splits option.splits)

lemma walk_object_step:
  "walk_object d keys k = Inr d' \<longleftrightarrow>
     (if More d then \<exists>key d1 t d2 d3. Token d = (Inr (Scalar (JString key)), d1) \<and>
        key \<notin> set keys \<and> Token d1 = (Inr t, d2) \<and> walkJSON d2 t (k + 1) = Inr d3 \<and>
        walk_object d3 (key # keys) k = Inr d'
      else Token d = (Inr (Delim (CHR ''}'')), d'))"
proof (cases "More d")
  case True
  then show ?thesis
    by (subst walk_object.simps) (simp add: res_simps, blast)
next
  case False
  then show ?thesis by (subst walk_object.simps) (simp add: close_case_Inr)
qed

lemma walk_array_step:
  "walk_array d k = Inr d' \<longleftrightarrow>
     (if More d then \<exists>t d1 d2. Token d = (Inr t, d1) \<and> walkJSON d1 t (k + 1) = Inr d2 \<and>
        walk_array d2 k = Inr d'
      else Token d = (Inr (Delim (CHR '']'')), d'))"
proof (cases "More d")
  case True
  then show ?thesis by (subst walk_array.simps) (simp add: res_simps)
next
  case False
  then show ?thesis by (subst walk_array.simps) (simp add: close_case_Inr)
qed

text \<open>A tree that the walk accepts at nesting depth \<open>k\<close>.\<close>

definition walk_ok :: "nat \<Rightarrow> jvalue \<Rightarrow> bool" where
  "walk_ok k v \<longleftrightarrow> jdistinct v \<and> (jdepth v = 0 \<or> jdepth v + k \<le> 17)"

lemma walk_ok_scalar: "jdepth v = 0 \<Longrightarrow> jdistinct v \<Longrightarrow> walk_ok k v"
  by (simp add: walk_ok_def)

lemma walk_ok_Array: "k \<le> 16 \<Longrightarrow> walk_ok k (JArray vs) \<longleftrightarrow> (\<forall>v\<in>set vs. walk_ok (Suc k) v)"
proof -
  assume k: "k \<le> 16"
  have "jdepth (JArray vs) \<noteq> 0" by (simp add: jdepth.simps)
  moreover have "jdepth (JArray vs) + k \<le> 17 \<longleftrightarrow> jdepth (JArray vs) \<le> Suc (16 - k)" using k by auto
  ultimately show ?thesis
    using k by (auto simp: walk_ok_def jdepth_Array_le)
qed

lemma walk_ok_Object:
  "k \<le> 16 \<Longrightarrow> walk_ok k (JObject ms) \<longleftrightarrow>
     distinct (map fst ms) \<and> (\<forall>m\<in>set ms. walk_ok (Suc k) (snd m))"
proof -
  assume k: "k \<le> 16"
  have "jdepth (JObject ms) \<noteq> 0" by (simp add: jdepth.simps)
  moreover have "jdepth (JObject ms) + k \<le> 17 \<longleftrightarrow> jdepth (JObject ms) \<le> Suc (16 - k)" using k by auto
  ultimately show ?thesis
    using k by (auto simp: walk_ok_def jdepth_Object_le)
qed

lemma walk_ok_deep: "\<not> k \<le> 16 \<Longrightarrow> walk_ok k v \<Longrightarrow> jdepth v = 0"
  by (auto simp: walk_ok_def)

lemma scalar_token_depth:
  assumes "Token d = (Inr (Scalar v), d')"
  shows "jdepth v = 0 \<and> jdistinct v"
proof -
  have sc: "scan_scalar bs = Some (w, r) \<Longrightarrow> jdepth w = 0 \<and> jdistinct w" for bs w r
    by (auto simp: scan_scalar_def scan_word_def split: list.splits if_splits)
  from assms show ?thesis
  proof (induction "dlen d" arbitrary: d rule: less_induct)
    case less
    obtain buf st stk where d: "d = (buf, st, stk)" by (cases d) auto
    show ?case
    proof (cases "skip_ws buf")
      case Nil
      with less d show ?thesis by (simp add: Token.simps)
    next
      case (Cons c cs)
      with skip_ws_len [of buf] have len: "length cs < length buf" by simp
      have rec: "Token (cs, s, stk) = (Inr (Scalar v), d') \<Longrightarrow> jdepth v = 0 \<and> jdistinct v" for s
        using less.hyps [of "(cs, s, stk)"] len d by auto
      from less.prems show ?thesis
        unfolding d Token.simps [of buf st stk] Cons
        by (auto split: if_splits list.splits option.splits dest: sc rec)
    qed
  qed
qed

lemma walk_sound:
  "walkJSON d t k = Inr d' \<Longrightarrow> (\<And>v. t = Scalar v \<Longrightarrow> jdepth v = 0 \<and> jdistinct v) \<Longrightarrow>
     \<exists>v. build d t = Some (v, d') \<and> walk_ok k v"
  "k \<le> 16 \<Longrightarrow> walk_object d keys k = Inr d' \<Longrightarrow>
     \<exists>ms. build_members d = Some (ms, d') \<and> distinct (map fst ms) \<and>
        set keys \<inter> fst ` set ms = {} \<and> (\<forall>m\<in>set ms. walk_ok (Suc k) (snd m))"
  "k \<le> 16 \<Longrightarrow> walk_array d k = Inr d' \<Longrightarrow>
     \<exists>vs. build_elems d = Some (vs, d') \<and> (\<forall>v\<in>set vs. walk_ok (Suc k) v)"
proof (induction d t k and d keys k and d k arbitrary: d' and d' and d'
    rule: walkJSON_walk_object_walk_array.induct)
  case (1 d v k)
  then show ?case by (auto intro: walk_ok_scalar)
next
  case (2 d c k)
  then have "k \<le> 16" by (simp add: walkJSON.simps(2) res_simps split: if_splits)
  with 2 show ?case
    by (cases d') (auto simp: walkJSON.simps(2) res_simps build.simps(2) not_less walk_ok_Object
        walk_ok_Array split: if_splits)
next
  case (3 d keys k)
  show ?case
  proof (cases "More d")
    case True
    with 3(4) obtain key d1 t d2 d3 where
      s: "Token d = (Inr (Scalar (JString key)), d1)" "key \<notin> set keys" "Token d1 = (Inr t, d2)"
        "walkJSON d2 t (k + 1) = Inr d3" "walk_object d3 (key # keys) k = Inr d'"
      by (subst (asm) walk_object_step) auto
    note ih = 3(1,2) [OF True s(1) [symmetric] refl refl refl s(2) s(3) [symmetric] refl]
    from ih(1) [OF s(4)] scalar_token_depth s(3) obtain v where
      v: "build d2 t = Some (v, d3)" "walk_ok (Suc k) v" by fastforce
    from ih(2) [OF s(4) 3(3) s(5)] obtain ms where
      "build_members d3 = Some (ms, d')" "distinct (map fst ms)"
      "set (key # keys) \<inter> fst ` set ms = {}" "\<forall>m\<in>set ms. walk_ok (Suc k) (snd m)" by blast
    with v s True show ?thesis
      by (intro exI [of _ "(key, v) # ms"]) (subst build_members.simps, auto)
  next
    case False
    with 3(4) have "Token d = (Inr (Delim (CHR ''}'')), d')"
      by (subst (asm) walk_object_step) simp
    with False show ?thesis by (subst build_members.simps) auto
  qed
next
  case (4 d k)
  show ?case
  proof (cases "More d")
    case True
    with 4(4) obtain t d1 d2 where s: "Token d = (Inr t, d1)" "walkJSON d1 t (k + 1) = Inr d2"
        "walk_array d2 k = Inr d'"
      by (subst (asm) walk_array_step) auto
    note ih = 4(1,2) [OF True s(1) [symmetric] refl]
    from ih(1) [OF s(2)] scalar_token_depth s(1) obtain v where
      v: "build d1 t = Some (v, d2)" "walk_ok (Suc k) v" by fastforce
    from ih(2) [OF s(2) 4(3) s(3)] obtain vs where
      "build_elems d2 = Some (vs, d')" "\<forall>v\<in>set vs. walk_ok (Suc k) v" by blast
    with v s True show ?thesis
      by (intro exI [of _ "v # vs"]) (subst build_elems.simps, auto)
  next
    case False
    with 4(4) have "Token d = (Inr (Delim (CHR '']'')), d')"
      by (subst (asm) walk_array_step) simp
    with False show ?thesis by (subst build_elems.simps) auto
  qed
qed

lemma walk_complete:
  "build d t = Some (v, d') \<Longrightarrow> walk_ok k v \<Longrightarrow> walkJSON d t k = Inr d'"
  "build_members d = Some (ms, d') \<Longrightarrow> distinct (map fst ms) \<Longrightarrow>
     set keys \<inter> fst ` set ms = {} \<Longrightarrow> \<forall>m\<in>set ms. walk_ok (Suc k) (snd m) \<Longrightarrow>
     walk_object d keys k = Inr d'"
  "build_elems d = Some (vs, d') \<Longrightarrow> \<forall>v\<in>set vs. walk_ok (Suc k) v \<Longrightarrow> walk_array d k = Inr d'"
proof (induction d t and d and d arbitrary: v d' k and ms d' k keys and vs d' k
    rule: build_build_members_build_elems.induct)
  case (1 d v)
  then show ?case by simp
next
  case (2 d c)
  show ?case
  proof (cases "k \<le> 16")
    case True
    with 2 show ?thesis
      by (auto simp: build.simps(2) walkJSON.simps(2) walk_ok_Object walk_ok_Array split: if_splits)
  next
    case False
    with 2(3,4) walk_ok_deep [OF False] show ?thesis
      by (auto simp: build.simps(2) jdepth.simps split: if_splits dest!: walk_ok_deep)
  qed
next
  case (3 d)
  from members_step [OF 3(3)] show ?case
  proof (elim disjE exE conjE)
    fix key d1 t d2 v d3 ms'
    assume s: "More d" "Token d = (Inr (Scalar (JString key)), d1)" "Token d1 = (Inr t, d2)"
      "build d2 t = Some (v, d3)" "build_members d3 = Some (ms', d')" "ms = (key, v) # ms'"
    note ih = 3(1,2) [OF s(1) s(2) [symmetric] refl refl refl s(3) [symmetric] refl]
    have "walkJSON d2 t (k + 1) = Inr d3" using ih(1) [OF s(4)] 3(6) s(6) by simp
    moreover have "walk_object d3 (key # keys) k = Inr d'"
      by (rule ih(2) [OF s(4) refl s(5)]) (use 3(4,5,6) s(6) in auto)
    ultimately show ?thesis
      using s 3(5) by (subst walk_object_step) (auto simp del: split_paired_Ex)
  qed (subst walk_object_step, simp)
next
  case (4 d)
  from elems_step [OF 4(3)] show ?case
  proof (elim disjE exE conjE)
    fix t d1 v d2 vs'
    assume s: "More d" "Token d = (Inr t, d1)" "build d1 t = Some (v, d2)"
      "build_elems d2 = Some (vs', d')" "vs = v # vs'"
    note ih = 4(1,2) [OF s(1) s(2) [symmetric] refl]
    have "walkJSON d1 t (k + 1) = Inr d2" using ih(1) [OF s(3)] 4(4) s(5) by simp
    moreover have "walk_array d2 k = Inr d'"
      by (rule ih(2) [OF s(3) refl s(4)]) (use 4(4) s(5) in auto)
    ultimately show ?thesis using s by (subst walk_array_step) (auto simp del: split_paired_Ex)
  qed (subst walk_array_step, simp)
qed

subsection \<open>Where the decoder stands after a value\<close>

fun after_sep :: "tokstate \<Rightarrow> tokstate" where
  "after_sep ArrayComma = ArrayValue"
| "after_sep ObjectComma = ObjectKey"
| "after_sep ObjectColon = ObjectValue"
| "after_sep st = st"

definition token_post :: "tokstate \<Rightarrow> tokstate list \<Rightarrow> jtoken \<Rightarrow> tokstate \<times> tokstate list \<Rightarrow> bool" where
  "token_post st stk t post =
     (case t of
        Scalar v \<Rightarrow> post = (if after_sep st = ObjectStart \<or> after_sep st = ObjectKey
          then ObjectColon else tokenValueEnd (after_sep st), stk)
      | Delim c \<Rightarrow>
          if c = CHR ''['' then post = (ArrayStart, after_sep st # stk) \<and> tokenValueAllowed (after_sep st)
          else if c = CHR ''{'' then post = (ObjectStart, after_sep st # stk) \<and> tokenValueAllowed (after_sep st)
          else (case stk of s # ss \<Rightarrow> post = (tokenValueEnd s, ss) | [] \<Rightarrow> False))"

lemma Token_post:
  assumes "Token (buf, st, stk) = (Inr t, d')"
  shows "token_post st stk t (snd d')"
  using assms
proof (induction "length buf" arbitrary: buf st rule: less_induct)
  case less
  show ?case
  proof (cases "skip_ws buf")
    case Nil
    with less show ?thesis by (simp add: Token.simps)
  next
    case (Cons c cs)
    with skip_ws_len [of buf] have len: "length cs < length buf" by simp
    have rec: "Token (cs, after_sep st, stk) = (Inr t, d') \<Longrightarrow> token_post st stk t (snd d')"
      using less.hyps [OF len, of "after_sep st"]
      by (cases st; cases t) (auto simp: token_post_def split: if_splits)
    from less.prems show ?thesis
      unfolding Token.simps [of buf st stk] Cons
      using rec by (cases st) (auto simp: token_post_def tokenValueAllowed_def tokenValueEnd_def
          split: if_splits list.splits option.splits jtoken.splits)
  qed
qed

lemma build_post:
  "build d t = Some (v, d') \<Longrightarrow> case t of Scalar w \<Rightarrow> d' = d
     | Delim c \<Rightarrow> (\<forall>s ss. snd d = (if c = CHR ''{'' then ObjectStart else ArrayStart, s # ss) \<longrightarrow>
         snd d' = (tokenValueEnd s, ss))"
  "build_members d = Some (ms, d') \<Longrightarrow>
     \<forall>st s ss. snd d = (st, s # ss) \<and> (st = ObjectStart \<or> st = ObjectComma) \<longrightarrow>
       snd d' = (tokenValueEnd s, ss)"
  "build_elems d = Some (vs, d') \<Longrightarrow>
     \<forall>st s ss. snd d = (st, s # ss) \<and> (st = ArrayStart \<or> st = ArrayComma) \<longrightarrow>
       snd d' = (tokenValueEnd s, ss)"
proof (induction d t and d and d arbitrary: v d' and ms d' and vs d'
    rule: build_build_members_build_elems.induct)
  case (1 d v)
  then show ?case by simp
next
  case (2 d c)
  then show ?case by (fastforce simp: build.simps(2) split: if_splits)
next
  case (3 d)
  show ?case
  proof (intro allI impI, elim conjE)
    fix st s ss
    assume d: "snd d = (st, s # ss)" and st: "st = ObjectStart \<or> st = ObjectComma"
    obtain buf where db: "d = (buf, st, s # ss)" using d by (cases d) auto
    from members_step [OF 3(3)] show "snd d' = (tokenValueEnd s, ss)"
    proof (elim disjE exE conjE)
      fix key d1 t d2 v d3 ms'
      assume s: "More d" "Token d = (Inr (Scalar (JString key)), d1)" "Token d1 = (Inr t, d2)"
        "build d2 t = Some (v, d3)" "build_members d3 = Some (ms', d')"
      note ih = 3(1,2) [OF s(1) s(2) [symmetric] refl refl refl s(3) [symmetric] refl]
      have d1: "snd d1 = (ObjectColon, s # ss)"
        using Token_post [OF s(2) [unfolded db]] st by (auto simp: token_post_def)
      then obtain b1 where b1: "d1 = (b1, ObjectColon, s # ss)" by (cases d1) auto
      have "snd d3 = (ObjectComma, s # ss)"
        using Token_post [OF s(3) [unfolded b1]] ih(1) [OF s(4)] s(4)
        by (auto simp: token_post_def tokenValueEnd_def build.simps(2)
            split: jtoken.splits if_splits)
      with ih(2) [OF s(4) refl s(5)] show ?thesis by blast
    next
      assume "Token d = (Inr (Delim (CHR ''}'')), d')"
      from Token_post [OF this [unfolded db]] show ?thesis by (simp add: token_post_def)
    qed
  qed
next
  case (4 d)
  show ?case
  proof (intro allI impI, elim conjE)
    fix st s ss
    assume d: "snd d = (st, s # ss)" and st: "st = ArrayStart \<or> st = ArrayComma"
    obtain buf where db: "d = (buf, st, s # ss)" using d by (cases d) auto
    from elems_step [OF 4(3)] show "snd d' = (tokenValueEnd s, ss)"
    proof (elim disjE exE conjE)
      fix t d1 v d2 vs'
      assume s: "More d" "Token d = (Inr t, d1)" "build d1 t = Some (v, d2)"
        "build_elems d2 = Some (vs', d')"
      note ih = 4(1,2) [OF s(1) s(2) [symmetric] refl]
      have "snd d2 = (ArrayComma, s # ss)"
        using Token_post [OF s(2) [unfolded db]] ih(1) [OF s(3)] st s(3)
        by (auto simp: token_post_def tokenValueEnd_def build.simps(2)
            split: jtoken.splits if_splits)
      with ih(2) [OF s(3) refl s(4)] show ?thesis by blast
    next
      assume "Token d = (Inr (Delim (CHR '']'')), d')"
      from Token_post [OF this [unfolded db]] show ?thesis by (simp add: token_post_def)
    qed
  qed
qed

subsection \<open>What the validator accepts\<close>

lemma Token_top_end:
  "(\<exists>e d'. Token (buf, TopValue, []) = (Inl e, d') \<and> errors_is e EOF) \<longleftrightarrow> skip_ws buf = []"
  by (cases "skip_ws buf")
    (auto simp: Token.simps tokenValueAllowed_def split: if_splits option.splits)

lemma open_token:
  assumes "Token (NewDecoder raw) = (Inr (Delim c), d)"
  shows "(c = CHR ''{'' \<and> snd d = (ObjectStart, [TopValue])) \<or>
    (c = CHR ''['' \<and> snd d = (ArrayStart, [TopValue]))"
  using Token_post [OF assms [unfolded NewDecoder_def]]
  by (auto simp: token_post_def split: if_splits)

lemma Unmarshal_object:
  "Unmarshal raw = Some (JObject ms) \<longleftrightarrow>
     (\<exists>d d'. Token (NewDecoder raw) = (Inr (Delim (CHR ''{'')), d) \<and>
        build d (Delim (CHR ''{'')) = Some (JObject ms, d') \<and> skip_ws (fst d') = [])"
  (is "?l = ?r")
proof
  assume ?l
  then obtain t d d' where u: "Token (NewDecoder raw) = (Inr t, d)"
    "build d t = Some (JObject ms, d')" "skip_ws (fst d') = []"
    by (auto simp: Unmarshal_def next_value_def split: option.splits if_splits prod.splits sum.splits)
  show ?r
  proof (cases t)
    case (Delim c)
    with u open_token [of raw c d] show ?thesis by (auto simp: build.simps(2))
  next
    case (Scalar v)
    with u scalar_token_depth [of "NewDecoder raw" v d] show ?thesis by (auto simp: jdepth.simps)
  qed
next
  assume ?r
  then show ?l by (auto simp: Unmarshal_def next_value_def)
qed

lemma walked_object:
  "(\<exists>ms. Unmarshal raw = Some (JObject ms) \<and> jdistinct (JObject ms) \<and> jdepth (JObject ms) \<le> 16) \<longleftrightarrow>
   (\<exists>d d'. Token (NewDecoder raw) = (Inr (Delim (CHR ''{'')), d) \<and>
      walkJSON d (Delim (CHR ''{'')) 1 = Inr d' \<and> skip_ws (fst d') = [])" (is "?l = ?r")
proof
  assume ?l
  then obtain ms d d' where t: "Token (NewDecoder raw) = (Inr (Delim (CHR ''{'')), d)"
    and b: "build d (Delim (CHR ''{'')) = Some (JObject ms, d')" and e: "skip_ws (fst d') = []"
    and ok: "walk_ok 1 (JObject ms)"
    unfolding Unmarshal_object by (auto simp: walk_ok_def)
  from walk_complete(1) [OF b ok] t e show ?r by blast
next
  assume ?r
  then obtain d d' where t: "Token (NewDecoder raw) = (Inr (Delim (CHR ''{'')), d)"
    and w: "walkJSON d (Delim (CHR ''{'')) 1 = Inr d'" and e: "skip_ws (fst d') = []" by blast
  from walk_sound(1) [OF w] obtain v where b: "build d (Delim (CHR ''{'')) = Some (v, d')"
    and ok: "walk_ok 1 v" by auto
  from b obtain ms where v: "v = JObject ms" by (auto simp: build.simps(2))
  with ok have "jdistinct (JObject ms)" "jdepth (JObject ms) \<le> 16"
    by (auto simp: walk_ok_def jdepth.simps)
  moreover from t b v e have "Unmarshal raw = Some (JObject ms)" unfolding Unmarshal_object by blast
  ultimately show ?l by blast
qed

lemma walked_end:
  assumes "Token (NewDecoder raw) = (Inr (Delim (CHR ''{'')), d)"
    "walkJSON d (Delim (CHR ''{'')) 1 = Inr d'"
  shows "(\<exists>e d''. Token d' = (Inl e, d'') \<and> errors_is e EOF) \<longleftrightarrow> skip_ws (fst d') = []"
proof -
  from walk_sound(1) [OF assms(2)] obtain v where "build d (Delim (CHR ''{'')) = Some (v, d')" by auto
  from build_post(1) [OF this] open_token [OF assms(1)] have "snd d' = (TopValue, [])"
    by (simp add: tokenValueEnd_def)
  then show ?thesis using Token_top_end [of "fst d'"] by (cases d') simp
qed

lemma validateJSON_iff:
  "validateJSON raw = Inr () \<longleftrightarrow>
     2 \<le> length raw \<and> length raw \<le> MaxMetadataSize \<and> utf8_valid raw \<and>
     validateSurrogates raw = Inr () \<and>
     (\<exists>ms. Unmarshal raw = Some (JObject ms) \<and> jdistinct (JObject ms) \<and> jdepth (JObject ms) \<le> 16)"
proof -
  have "validateJSON raw = Inr () \<longleftrightarrow> 2 \<le> length raw \<and> length raw \<le> MaxMetadataSize \<and>
      utf8_valid raw \<and> validateSurrogates raw = Inr () \<and>
      (\<exists>d d'. Token (NewDecoder raw) = (Inr (Delim (CHR ''{'')), d) \<and>
        walkJSON d (Delim (CHR ''{'')) 1 = Inr d' \<and>
        (\<exists>e d''. Token d' = (Inl e, d'') \<and> errors_is e EOF))"
    unfolding validateJSON_def
    by (auto split: if_splits sum.splits prod.splits jtoken.splits)
  also have "\<dots> \<longleftrightarrow> 2 \<le> length raw \<and> length raw \<le> MaxMetadataSize \<and>
      utf8_valid raw \<and> validateSurrogates raw = Inr () \<and>
      (\<exists>d d'. Token (NewDecoder raw) = (Inr (Delim (CHR ''{'')), d) \<and>
        walkJSON d (Delim (CHR ''{'')) 1 = Inr d' \<and> skip_ws (fst d') = [])"
    by (metis (no_types, lifting) walked_end)
  finally show ?thesis unfolding walked_object .
qed

subsection \<open>Printed trees pass\<close>

text \<open>The three forms of an escaped rune: its own bytes, a short escape, a hexadecimal escape.\<close>

lemma escape_unit_shape:
  assumes "decode_rune (b # bs) = Some (r, n)"
  obtains (raw) "escape_unit (r, take n (b # bs)) = take n (b # bs)"
      "\<forall>c\<in>set (take n (b # bs)). c \<noteq> CHR 0x22 \<and> c \<noteq> CHR 0x5C"
    | (short) e where "escape_unit (r, take n (b # bs)) = [CHR 0x5C, e]" "e \<noteq> CHR ''u''" "ord e < 128"
    | (hex) m where "escape_unit (r, take n (b # bs)) = u_escape m" "m < 65536" "\<not> is_high m" "\<not> is_low m"
proof (cases "r < 128")
  case True
  from decode_rune_small [OF assms True] have r: "r = ord b" and n: "n = 1" by auto
  consider (q) "b = CHR 0x22 \<or> b = CHR 0x5C" | (e) "ord b \<in> {8, 12, 10, 13, 9}"
    | (x) "ord b < 32 \<or> ord b = 60 \<or> ord b = 62 \<or> ord b = 38" "ord b \<notin> {8, 12, 10, 13, 9}"
        "ord b \<noteq> 34" "ord b \<noteq> 92"
    | (p) "32 \<le> ord b" "ord b \<notin> {34, 92, 60, 62, 38}" by (fastforce intro: ord_eqD)
  then show ?thesis
  proof cases
    case q
    then show ?thesis using short [of b] True unfolding r n by (auto simp: escape_unit_def)
  next
    case e
    then show ?thesis
      using short [of "CHR ''b''"] short [of "CHR ''f''"] short [of "CHR ''n''"]
        short [of "CHR ''r''"] short [of "CHR ''t''"] unfolding r n by (auto simp: escape_unit_def)
  next
    case x
    then show ?thesis using hex [of "ord b"] True unfolding r n
      by (auto simp: escape_unit_def is_high_def is_low_def)
  next
    case p
    then have "b \<noteq> CHR 0x22" "b \<noteq> CHR 0x5C" by auto
    with p show ?thesis using raw True unfolding r n by (auto simp: escape_unit_def)
  qed
next
  case False
  have big: "\<forall>c\<in>set (take n (b # bs)). c \<noteq> CHR 0x22 \<and> c \<noteq> CHR 0x5C"
    using decode_rune_big [OF assms] False by force
  show ?thesis
  proof (cases "r = 8232 \<or> r = 8233 \<or> (r = 65533 \<and> length (take n (b # bs)) = 1)")
    case True
    then show ?thesis using hex [of r] by (auto simp: escape_unit_def is_high_def is_low_def)
  next
    case sep: False
    then have "escape_unit (r, take n (b # bs)) = take n (b # bs)"
      using False by (auto simp: escape_unit_def)
    then show ?thesis using raw big by blast
  qed
qed

lemma hex_digit_ascii [simp]: "d < 16 \<Longrightarrow> ord (hex_digit d) < 128"
  by (simp add: hex_digit_def)

lemma hex4_ascii: "\<forall>c\<in>set (u_escape m). ord c < 128"
  by (simp add: u_escape_def hex4_def)

lemma utf8_valid_appendI: "utf8_valid a \<Longrightarrow> utf8_valid b \<Longrightarrow> utf8_valid (a @ b)"
  by (simp add: utf8_valid_append)

lemma utf8_valid_rune:
  assumes "decode_rune (b # bs) = Some (r, n)"
  shows "utf8_valid (take n (b # bs))"
proof -
  from decode_rune_width [OF assms] have "0 < n" by simp
  with decode_rune_take [OF assms] show ?thesis by (cases n) (simp_all add: utf8_valid.simps(2))
qed

lemma escape_body_step:
  assumes "decode_rune (b # bs) = Some (r, n)"
  shows "escape_body (b # bs) = escape_unit (r, take n (b # bs)) @ escape_body (drop n (b # bs))"
  by (simp add: escape_body_def runes.simps(2) assms)

lemma utf8_escape_body: "utf8_valid s \<Longrightarrow> utf8_valid (escape_body s)"
proof (induction s rule: utf8_valid.induct)
  case 1
  then show ?case by (simp add: escape_body_def)
next
  case (2 b bs)
  then obtain r n where d: "decode_rune (b # bs) = Some (r, n)" and v: "utf8_valid (drop n (b # bs))"
    by (auto simp: utf8_valid.simps(2) split: option.splits)
  from d have "utf8_valid (escape_unit (r, take n (b # bs)))"
    by (cases rule: escape_unit_shape)
      (simp_all add: utf8_valid_rune [OF d] utf8_valid_ascii hex4_ascii del: take_Cons)
  with 2(1) [OF d refl v] show ?case
    unfolding escape_body_step [OF d] by (simp add: utf8_valid_append del: take_Cons drop_Cons)
qed

lemma utf8_quote: "utf8_valid s \<Longrightarrow> utf8_valid (json_quote s)"
  by (simp add: json_quote_def utf8_valid_append utf8_escape_body)

lemma utf8_join:
  "ord d < 128 \<Longrightarrow> \<forall>p\<in>set ps. utf8_valid p \<Longrightarrow> utf8_valid (join d ps)"
  by (induction d ps rule: join.induct) (simp_all add: utf8_valid_append)

lemma utf8_Itoa: "utf8_valid (Itoa i)"
  by (rule utf8_valid_ascii) (use Itoa_ascii in \<open>fastforce simp: is_digit_def\<close>)

lemma utf8_print: "jwf v \<Longrightarrow> utf8_valid (json_print v)"
proof (induction v)
  case (JArray vs)
  then show ?case by (auto intro!: utf8_valid_appendI utf8_join simp: utf8_valid_append)
next
  case (JObject ms)
  have "utf8_valid (json_quote k @ '':'' @ json_print v)" if "(k, v) \<in> set ms" for k v
    using JObject(1) [OF that] JObject(2) that by (auto simp: utf8_valid_append utf8_quote)
  then show ?case
    by (auto intro!: utf8_valid_appendI utf8_join simp: utf8_valid_append)
qed (auto simp: utf8_quote utf8_Itoa)

lemma surrogates_outside:
  "CHR 0x22 \<notin> set p \<Longrightarrow> surrogates_from False (p @ t) = surrogates_from False t"
  by (induction p) (auto simp: surrogates_from.simps(2))

lemma surrogates_raw:
  "\<forall>c\<in>set p. c \<noteq> CHR 0x22 \<and> c \<noteq> CHR 0x5C \<Longrightarrow>
     surrogates_from q (p @ t) = surrogates_from q t"
  by (induction p) (auto simp: surrogates_from.simps(2))

lemma surrogates_short:
  "e \<noteq> CHR ''u'' \<Longrightarrow> surrogates_from True (CHR 0x5C # e # t) = surrogates_from True t"
  by (simp add: surrogates_from.simps(2))

lemma ParseHex16_getu4: "getu4 (a # b # c # d # t) = Some (n, t) \<Longrightarrow> n < 65536 \<Longrightarrow> ParseHex16 [a, b, c, d] = Some n"
  by (auto simp: ParseHex16_def split: option.splits)

lemma surrogates_hex:
  assumes "m < 65536" "\<not> is_high m" "\<not> is_low m"
  shows "surrogates_from True (u_escape m @ t) = surrogates_from True t"
proof -
  from getu4_hex4 [OF assms(1), of t] have "ParseHex16 (hex4 m) = Some m"
    unfolding hex4_def using ParseHex16_getu4 assms(1) by simp
  moreover have "\<not> (0xDC00 \<le> m \<and> m \<le> 0xDFFF)" "\<not> (0xD800 \<le> m \<and> m \<le> 0xDBFF)"
    using assms by (simp_all add: is_high_def is_low_def)
  ultimately show ?thesis
    by (auto simp: u_escape_def surrogates_from.simps(2) hex4_def)
qed

lemma surrogates_body:
  "utf8_valid s \<Longrightarrow> surrogates_from True (escape_body s @ t) = surrogates_from True t"
proof (induction s rule: utf8_valid.induct)
  case 1
  then show ?case by (simp add: escape_body_def)
next
  case (2 b bs)
  then obtain r n where d: "decode_rune (b # bs) = Some (r, n)" and v: "utf8_valid (drop n (b # bs))"
    by (auto simp: utf8_valid.simps(2) split: option.splits)
  from d have "surrogates_from True (escape_unit (r, take n (b # bs)) @ u) = surrogates_from True u" for u
    by (cases rule: escape_unit_shape)
      (simp_all add: surrogates_raw surrogates_short surrogates_hex del: take_Cons)
  with 2(1) [OF d refl v] show ?case
    unfolding escape_body_step [OF d] by simp
qed

lemma surrogates_quote:
  "utf8_valid s \<Longrightarrow> surrogates_from False (json_quote s @ t) = surrogates_from False t"
  using surrogates_body [of s "CHR 0x22 # t"]
  by (simp add: json_quote_def surrogates_from.simps(2))

lemma surrogates_skip:
  "c \<noteq> CHR 0x22 \<Longrightarrow> surrogates_from False (c # t) = surrogates_from False t"
  by (simp add: surrogates_from.simps(2))

lemma surrogates_join:
  "d \<noteq> CHR 0x22 \<Longrightarrow> \<forall>p\<in>set ps. \<forall>t. surrogates_from False (p @ t) = surrogates_from False t \<Longrightarrow>
     surrogates_from False (join d ps @ t) = surrogates_from False t"
  by (induction d ps rule: join.induct) (simp_all add: surrogates_skip)

lemma surrogates_print: "jwf v \<Longrightarrow> surrogates_from False (json_print v @ t) = surrogates_from False t"
proof (induction v arbitrary: t)
  case (JNumber s)
  then show ?case
    using Itoa_ascii by (intro surrogates_outside) (fastforce simp: is_digit_def)
next
  case (JArray vs)
  have "surrogates_from False (join (CHR '','') (map json_print vs) @ u) = surrogates_from False u" for u
    by (rule surrogates_join) (use JArray in auto)
  then show ?case by (simp add: surrogates_skip)
next
  case (JObject ms)
  have "surrogates_from False (json_quote k @ '':'' @ json_print v @ u) = surrogates_from False u"
    if "(k, v) \<in> set ms" for k v u
    using JObject(1) [OF that] JObject(2) that by (auto simp: surrogates_quote surrogates_skip)
  then have "surrogates_from False (join (CHR '','') (map (\<lambda>(k, s). json_quote k @ '':'' @ s)
      (map (map_prod id json_print) ms)) @ u) = surrogates_from False u" for u
    by (intro surrogates_join) auto
  then show ?case by (simp add: surrogates_skip)
qed (auto simp: surrogates_quote surrogates_skip)

lemma validateJSON_print:
  assumes "jwf (JObject ms)" "jdistinct (JObject ms)" "jdepth (JObject ms) \<le> 16"
    "length (json_print (JObject ms)) \<le> MaxMetadataSize"
  shows "validateJSON (json_print (JObject ms)) = Inr ()"
  unfolding validateJSON_iff
  using assms utf8_print [OF assms(1)] surrogates_print [OF assms(1), of "[]"]
    Unmarshal_print [OF assms(1)]
  by (simp add: validateSurrogates_def)

end
