(* ===== verification/Messages.thy ===== *)
theory Messages
  imports Metadata
begin

text \<open>
  The metadata of each message (\<open>src/protocol.go\<close> and the application profile of
  \<open>src/application.go\<close>) as records with their JSON forms, the checks on remote errors and
  media types, and what the two sides of a connection rely on: a message that one side
  sends is decoded by the other to the same record.
\<close>

subsection \<open>What DecodeMetadata accepts\<close>

lemma map_of_rev_distinct:
  "distinct (map fst ms) \<Longrightarrow> map_of (rev ms) = map_of ms"
  by (rule map_of_inject_set [THEN iffD2]) (simp_all add: rev_map [symmetric])

lemma check_fields_ok:
  "check_fields object names = Inr () \<longleftrightarrow> (\<forall>n\<in>set names. \<exists>v. object n = Some v \<and> v \<noteq> JNull)"
  by (induction names) (auto split: option.splits)

lemma names_exact:
  assumes "distinct names" "length ms = length names" "distinct (map fst ms)"
    "\<forall>n\<in>set names. \<exists>v. map_of ms n = Some v \<and> v \<noteq> JNull"
  shows "fst ` set ms = set names" "JNull \<notin> snd ` set ms"
proof -
  have "set names \<subseteq> fst ` set ms"
  proof
    fix n
    assume "n \<in> set names"
    with assms(4) obtain v where "map_of ms n = Some v" by blast
    from map_of_SomeD [OF this] show "n \<in> fst ` set ms" by force
  qed
  moreover have "card (fst ` set ms) = card (set names)"
    using assms(1-3) by (metis distinct_card length_map set_map)
  ultimately show e: "fst ` set ms = set names"
    using card_subset_eq [of "fst ` set ms" "set names"] by simp
  show "JNull \<notin> snd ` set ms"
  proof
    assume "JNull \<in> snd ` set ms"
    then obtain n where n: "(n, JNull) \<in> set ms" by force
    then have "n \<in> set names" using e by force
    with assms(4) map_of_is_SomeI [OF assms(3) n] show False by auto
  qed
qed

lemma DecodeMetadata_iff:
  assumes "distinct names"
  shows "DecodeMetadata frame tbl zero names = Inr x \<longleftrightarrow>
    validateJSON (f_Metadata frame) = Inr () \<and>
    (\<exists>ms. Unmarshal (f_Metadata frame) = Some (JObject ms) \<and> distinct (map fst ms) \<and>
       fst ` set ms = set names \<and> JNull \<notin> snd ` set ms \<and> decode_members tbl ms zero = Some x)"
  (is "?l = ?r")
proof (cases "validateJSON (f_Metadata frame)")
  case (Inl e)
  then show ?thesis by (simp add: DecodeMetadata_def)
next
  case v: (Inr u)
  then have v: "validateJSON (f_Metadata frame) = Inr ()" by simp
  then obtain ms where u: "Unmarshal (f_Metadata frame) = Some (JObject ms)"
    and d: "distinct (map fst ms)" by (auto simp: validateJSON_iff)
  have len: "length (remdups (map fst ms)) = length ms" using d by (simp add: distinct_remdups_id)
  have iff: "length ms = length names \<and> check_fields (map_of (rev ms)) names = Inr () \<longleftrightarrow>
      fst ` set ms = set names \<and> JNull \<notin> snd ` set ms"
  proof
    assume "length ms = length names \<and> check_fields (map_of (rev ms)) names = Inr ()"
    then show "fst ` set ms = set names \<and> JNull \<notin> snd ` set ms"
      using names_exact [OF assms _ d] by (simp add: check_fields_ok map_of_rev_distinct [OF d])
  next
    assume r: "fst ` set ms = set names \<and> JNull \<notin> snd ` set ms"
    then have "length ms = length names"
      using assms d by (metis distinct_card length_map set_map)
    moreover have "\<exists>v. map_of ms n = Some v \<and> v \<noteq> JNull" if "n \<in> set names" for n
    proof -
      from that r obtain v where "(n, v) \<in> set ms" by force
      with r map_of_is_SomeI [OF d] show ?thesis by force
    qed
    ultimately show "length ms = length names \<and> check_fields (map_of (rev ms)) names = Inr ()"
      by (simp add: check_fields_ok map_of_rev_distinct [OF d])
  qed
  have "?l \<longleftrightarrow> (length ms = length names \<and> check_fields (map_of (rev ms)) names = Inr ()) \<and>
      decode_members tbl ms zero = Some x"
    using v u Unmarshal_Decode_first [OF u] len
    by (auto simp: DecodeMetadata_def decode_struct_def split: sum.splits option.splits)
  also have "\<dots> \<longleftrightarrow> ?r" unfolding iff using v u d by auto
  finally show ?thesis .
qed

subsection \<open>Message structs\<close>

text \<open>
  A struct type with JSON tags: its members in field order, the table that decodes it, its
  zero value and the member names its decoder demands.
\<close>

locale metadata_struct =
  fixes members :: "'a \<Rightarrow> (bytes \<times> jvalue) list"
    and tbl :: "'a table"
    and zero :: 'a
    and names :: "string list"
    and good :: "'a \<Rightarrow> bool"
  assumes member_names: "map fst (members x) = names"
    and names_distinct: "distinct names"
    and members_jwf: "good x \<Longrightarrow> jwf (JObject (members x))"
    and members_shape: "good x \<Longrightarrow> jdistinct (JObject (members x)) \<and> jdepth (JObject (members x)) \<le> 16"
    and members_null: "good x \<Longrightarrow> JNull \<notin> snd ` set (members x)"
    and decode_members: "good x \<Longrightarrow> decode_members tbl (members x) zero = Some x"
begin

text \<open>Size is the only reason for which a well-formed message may be refused.\<close>

lemma print_valid:
  "good x \<Longrightarrow> length (json_print (JObject (members x))) \<le> MaxMetadataSize \<Longrightarrow>
     validateJSON (json_print (JObject (members x))) = Inr ()"
  using members_jwf members_shape by (blast intro: validateJSON_print)

lemma decode_print:
  assumes "good x" "validateJSON (json_print (JObject (members x))) = Inr ()"
    "f_Metadata frame = json_print (JObject (members x))"
  shows "DecodeMetadata frame tbl zero names = Inr x"
proof -
  have n: "fst ` set (members x) = set names" "distinct (map fst (members x))"
    using member_names [of x] names_distinct by (metis list.set_map, simp)
  show ?thesis
    unfolding DecodeMetadata_iff [OF names_distinct] assms(3)
    using Unmarshal_print [OF members_jwf [OF assms(1)]] assms(1,2) n members_null [OF assms(1)]
      decode_members [OF assms(1)] by auto
qed

text \<open>Sending a struct puts one frame on the wire, which decodes to the struct.\<close>

lemma send_ok:
  assumes "send kind rid (JObject (members x)) body w = (Inr u, w')" "good x"
  obtains f where "frame_ok f" "w_out w' = w_out w @ encode_frame f" "f_Type f = kind"
    "f_RequestID f = rid" "f_Body f = body" "DecodeMetadata f tbl zero names = Inr x"
proof -
  let ?f = "\<lparr>f_Type = kind, f_RequestID = rid, f_Metadata = json_print (JObject (members x)),
    f_Body = body\<rparr>"
  from assms(1) have w: "WriteFrame ?f w = (Inr u, w')" by (simp add: send_def)
  note ok = WriteFrame_ok [OF w]
  from ok(1) have "validateJSON (f_Metadata ?f) = Inr ()" by (simp add: frame_ok_def is_ok_unit)
  then have "DecodeMetadata ?f tbl zero names = Inr x"
    using decode_print [OF assms(2), of ?f] by simp
  from that [OF ok _ _ _ this] show ?thesis by simp
qed

end

lemma find_field_exact: "map_of tbl k = Some f \<Longrightarrow> find_field tbl k = Some f"
  by (simp add: find_field_def)

definition int64_ok :: "int \<Rightarrow> bool" where
  "int64_ok i \<longleftrightarrow> - (2 ^ 63) \<le> i \<and> i < 2 ^ 63"

lemma set_int_Itoa [simp]: "int64_ok i \<Longrightarrow> set_int upd (JNumber (Itoa i)) x = Some (upd i x)"
  by (simp add: set_int_def int64_ok_def ParseInt10_Itoa)

lemma set_string_JString [simp]: "set_string upd (JString s) x = Some (upd s x)"
  by (simp add: set_string_def)

record helloMetadata =
  hm_Versions :: "int list option"

definition hello_members :: "helloMetadata \<Rightarrow> (bytes \<times> jvalue) list" where
  "hello_members h =
     [(''versions'', case hm_Versions h of None \<Rightarrow> JNull
        | Some vs \<Rightarrow> JArray (map (\<lambda>v. JNumber (Itoa v)) vs))]"

definition decode_int :: "jvalue \<Rightarrow> int option" where
  "decode_int v = set_int (\<lambda>i _. i) v 0"

definition hello_table :: "helloMetadata table" where
  "hello_table = [(''versions'', set_slice decode_int (\<lambda>vs h. h\<lparr>hm_Versions := vs\<rparr>))]"

definition hello_zero :: helloMetadata where
  "hello_zero = \<lparr>hm_Versions = None\<rparr>"

record welcomeMetadata =
  wm_Version :: int
  wm_MaxChunk :: int

definition welcome_members :: "welcomeMetadata \<Rightarrow> (bytes \<times> jvalue) list" where
  "welcome_members w =
     [(''version'', JNumber (Itoa (wm_Version w))), (''max_chunk'', JNumber (Itoa (wm_MaxChunk w)))]"

definition welcome_table :: "welcomeMetadata table" where
  "welcome_table = [(''version'', set_int (\<lambda>i w. w\<lparr>wm_Version := i\<rparr>)),
     (''max_chunk'', set_int (\<lambda>i w. w\<lparr>wm_MaxChunk := i\<rparr>))]"

definition welcome_zero :: welcomeMetadata where
  "welcome_zero = \<lparr>wm_Version = 0, wm_MaxChunk = 0\<rparr>"

record requestMetadata =
  rm_Authority :: string
  rm_Path :: string
  rm_Query :: string
  rm_Operation :: string

definition request_members :: "requestMetadata \<Rightarrow> (bytes \<times> jvalue) list" where
  "request_members r =
     [(''authority'', JString (rm_Authority r)), (''path'', JString (rm_Path r)),
      (''query'', JString (rm_Query r)), (''operation'', JString (rm_Operation r))]"

definition request_table :: "requestMetadata table" where
  "request_table = [(''authority'', set_string (\<lambda>s r. r\<lparr>rm_Authority := s\<rparr>)),
     (''path'', set_string (\<lambda>s r. r\<lparr>rm_Path := s\<rparr>)),
     (''query'', set_string (\<lambda>s r. r\<lparr>rm_Query := s\<rparr>)),
     (''operation'', set_string (\<lambda>s r. r\<lparr>rm_Operation := s\<rparr>))]"

definition request_zero :: requestMetadata where
  "request_zero = \<lparr>rm_Authority = [], rm_Path = [], rm_Query = [], rm_Operation = []\<rparr>"

record responseMetadata =
  sm_MediaType :: string
  sm_Size :: int

definition response_members :: "responseMetadata \<Rightarrow> (bytes \<times> jvalue) list" where
  "response_members r =
     [(''media_type'', JString (sm_MediaType r)), (''size'', JNumber (Itoa (sm_Size r)))]"

definition response_table :: "responseMetadata table" where
  "response_table = [(''media_type'', set_string (\<lambda>s r. r\<lparr>sm_MediaType := s\<rparr>)),
     (''size'', set_int (\<lambda>i r. r\<lparr>sm_Size := i\<rparr>))]"

definition response_zero :: responseMetadata where
  "response_zero = \<lparr>sm_MediaType = [], sm_Size = 0\<rparr>"

record endMetadata =
  em_Size :: int
  em_SHA256 :: string

definition end_members :: "endMetadata \<Rightarrow> (bytes \<times> jvalue) list" where
  "end_members e = [(''size'', JNumber (Itoa (em_Size e))), (''sha256'', JString (em_SHA256 e))]"

definition end_table :: "endMetadata table" where
  "end_table = [(''size'', set_int (\<lambda>i e. e\<lparr>em_Size := i\<rparr>)),
     (''sha256'', set_string (\<lambda>s e. e\<lparr>em_SHA256 := s\<rparr>))]"

definition end_zero :: endMetadata where
  "end_zero = \<lparr>em_Size = 0, em_SHA256 = []\<rparr>"

record RemoteError =
  re_Code :: string
  re_Message :: string

definition error_members :: "RemoteError \<Rightarrow> (bytes \<times> jvalue) list" where
  "error_members e = [(''code'', JString (re_Code e)), (''message'', JString (re_Message e))]"

definition error_table :: "RemoteError table" where
  "error_table = [(''code'', set_string (\<lambda>s e. e\<lparr>re_Code := s\<rparr>)),
     (''message'', set_string (\<lambda>s e. e\<lparr>re_Message := s\<rparr>))]"

definition error_zero :: RemoteError where
  "error_zero = \<lparr>re_Code = [], re_Message = []\<rparr>"

text \<open>The structs of the application profile (\<open>src/application.go\<close>).\<close>

record Header =
  h_Name :: string
  h_Value :: string

definition header_members :: "Header \<Rightarrow> (bytes \<times> jvalue) list" where
  "header_members h = [(''name'', JString (h_Name h)), (''value'', JString (h_Value h))]"

definition header_table :: "Header table" where
  "header_table = [(''name'', set_string (\<lambda>s h. h\<lparr>h_Name := s\<rparr>)),
     (''value'', set_string (\<lambda>s h. h\<lparr>h_Value := s\<rparr>))]"

definition header_zero :: Header where
  "header_zero = \<lparr>h_Name = [], h_Value = []\<rparr>"

definition decode_header :: "jvalue \<Rightarrow> Header option" where
  "decode_header v = decode_struct header_table v header_zero"

definition headers_json :: "Header list option \<Rightarrow> jvalue" where
  "headers_json hs = (case hs of None \<Rightarrow> JNull
     | Some l \<Rightarrow> JArray (map (\<lambda>h. JObject (header_members h)) l))"

record applicationContinue =
  ac_Profile :: string
  ac_MaxBody :: int

definition continue_members :: "applicationContinue \<Rightarrow> (bytes \<times> jvalue) list" where
  "continue_members c =
     [(''profile'', JString (ac_Profile c)), (''max_body'', JNumber (Itoa (ac_MaxBody c)))]"

definition continue_table :: "applicationContinue table" where
  "continue_table = [(''profile'', set_string (\<lambda>s c. c\<lparr>ac_Profile := s\<rparr>)),
     (''max_body'', set_int (\<lambda>i c. c\<lparr>ac_MaxBody := i\<rparr>))]"

definition continue_zero :: applicationContinue where
  "continue_zero = \<lparr>ac_Profile = [], ac_MaxBody = 0\<rparr>"

record applicationRequestMetadata =
  aq_Method :: string
  aq_Headers :: "Header list option"
  aq_Size :: int

definition app_request_members :: "applicationRequestMetadata \<Rightarrow> (bytes \<times> jvalue) list" where
  "app_request_members r =
     [(''method'', JString (aq_Method r)), (''headers'', headers_json (aq_Headers r)),
      (''size'', JNumber (Itoa (aq_Size r)))]"

definition app_request_table :: "applicationRequestMetadata table" where
  "app_request_table = [(''method'', set_string (\<lambda>s r. r\<lparr>aq_Method := s\<rparr>)),
     (''headers'', set_slice decode_header (\<lambda>hs r. r\<lparr>aq_Headers := hs\<rparr>)),
     (''size'', set_int (\<lambda>i r. r\<lparr>aq_Size := i\<rparr>))]"

definition app_request_zero :: applicationRequestMetadata where
  "app_request_zero = \<lparr>aq_Method = [], aq_Headers = None, aq_Size = 0\<rparr>"

record applicationResponseMetadata =
  as_Status :: int
  as_Headers :: "Header list option"
  as_MediaType :: string
  as_Size :: int

definition app_response_members :: "applicationResponseMetadata \<Rightarrow> (bytes \<times> jvalue) list" where
  "app_response_members r =
     [(''status'', JNumber (Itoa (as_Status r))), (''headers'', headers_json (as_Headers r)),
      (''media_type'', JString (as_MediaType r)), (''size'', JNumber (Itoa (as_Size r)))]"

definition app_response_table :: "applicationResponseMetadata table" where
  "app_response_table = [(''status'', set_int (\<lambda>i r. r\<lparr>as_Status := i\<rparr>)),
     (''headers'', set_slice decode_header (\<lambda>hs r. r\<lparr>as_Headers := hs\<rparr>)),
     (''media_type'', set_string (\<lambda>s r. r\<lparr>as_MediaType := s\<rparr>)),
     (''size'', set_int (\<lambda>i r. r\<lparr>as_Size := i\<rparr>))]"

definition app_response_zero :: applicationResponseMetadata where
  "app_response_zero = \<lparr>as_Status = 0, as_Headers = None, as_MediaType = [], as_Size = 0\<rparr>"

subsection \<open>Every message struct reads back\<close>

definition hello_good :: "helloMetadata \<Rightarrow> bool" where
  "hello_good h \<longleftrightarrow> (\<exists>vs. hm_Versions h = Some vs \<and> (\<forall>v\<in>set vs. int64_ok v))"

definition welcome_good :: "welcomeMetadata \<Rightarrow> bool" where
  "welcome_good w \<longleftrightarrow> int64_ok (wm_Version w) \<and> int64_ok (wm_MaxChunk w)"

definition request_good :: "requestMetadata \<Rightarrow> bool" where
  "request_good r \<longleftrightarrow> utf8_valid (rm_Authority r) \<and> utf8_valid (rm_Path r) \<and>
     utf8_valid (rm_Query r) \<and> utf8_valid (rm_Operation r)"

definition response_good :: "responseMetadata \<Rightarrow> bool" where
  "response_good r \<longleftrightarrow> utf8_valid (sm_MediaType r) \<and> int64_ok (sm_Size r)"

definition end_good :: "endMetadata \<Rightarrow> bool" where
  "end_good e \<longleftrightarrow> utf8_valid (em_SHA256 e) \<and> int64_ok (em_Size e)"

definition error_good :: "RemoteError \<Rightarrow> bool" where
  "error_good e \<longleftrightarrow> utf8_valid (re_Code e) \<and> utf8_valid (re_Message e)"

definition header_good :: "Header \<Rightarrow> bool" where
  "header_good h \<longleftrightarrow> utf8_valid (h_Name h) \<and> utf8_valid (h_Value h)"

definition headers_good :: "Header list option \<Rightarrow> bool" where
  "headers_good hs \<longleftrightarrow> (\<exists>l. hs = Some l \<and> (\<forall>h\<in>set l. header_good h))"

definition continue_good :: "applicationContinue \<Rightarrow> bool" where
  "continue_good c \<longleftrightarrow> utf8_valid (ac_Profile c) \<and> int64_ok (ac_MaxBody c)"

definition app_request_good :: "applicationRequestMetadata \<Rightarrow> bool" where
  "app_request_good r \<longleftrightarrow> utf8_valid (aq_Method r) \<and> headers_good (aq_Headers r) \<and>
     int64_ok (aq_Size r)"

definition app_response_good :: "applicationResponseMetadata \<Rightarrow> bool" where
  "app_response_good r \<longleftrightarrow> int64_ok (as_Status r) \<and> headers_good (as_Headers r) \<and>
     utf8_valid (as_MediaType r) \<and> int64_ok (as_Size r)"

lemmas struct_defs = hello_members_def welcome_members_def request_members_def
  response_members_def end_members_def error_members_def header_members_def continue_members_def
  app_request_members_def app_response_members_def
lemmas table_defs = hello_table_def welcome_table_def request_table_def response_table_def
  end_table_def error_table_def header_table_def continue_table_def app_request_table_def
  app_response_table_def find_field_def
lemmas zero_defs = hello_zero_def welcome_zero_def request_zero_def response_zero_def end_zero_def
  error_zero_def header_zero_def continue_zero_def app_request_zero_def app_response_zero_def
lemmas good_defs = hello_good_def welcome_good_def request_good_def response_good_def end_good_def
  error_good_def continue_good_def app_request_good_def app_response_good_def

lemma utf8_literal [simp]: "list_all (\<lambda>c. ord c < 128) s \<Longrightarrow> utf8_valid s"
  by (rule utf8_valid_ascii) (simp add: list_all_iff)

lemma jdepth_members: "\<forall>m\<in>set ms. jdepth (snd m) \<le> 2 \<Longrightarrow> jdepth (JObject ms) \<le> 16"
  by (auto simp: jdepth_Object_le)

lemma decode_header_members: "decode_header (JObject (header_members h)) = Some h"
  by (simp add: decode_header_def decode_struct_def struct_defs table_defs zero_defs)

lemma headers_json_good:
  assumes "headers_good hs"
  shows "jwf (headers_json hs)" "jdistinct (headers_json hs)" "jdepth (headers_json hs) \<le> 2"
    "headers_json hs \<noteq> JNull" "set_slice decode_header upd (headers_json hs) x = Some (upd hs x)"
proof -
  from assms obtain l where l: "hs = Some l" "\<forall>h\<in>set l. header_good h"
    by (auto simp: headers_good_def)
  then show "jwf (headers_json hs)" "jdistinct (headers_json hs)" "headers_json hs \<noteq> JNull"
    by (auto simp: headers_json_def header_members_def header_good_def)
  show "jdepth (headers_json hs) \<le> 2"
    by (simp add: headers_json_def l header_members_def jdepth_Array_le jdepth_Object_le)
  show "set_slice decode_header upd (headers_json hs) x = Some (upd hs x)"
    using decode_elems_map [of l decode_header "\<lambda>h. JObject (header_members h)"]
    by (simp add: headers_json_def l set_slice_def decode_header_members)
qed

lemma decode_int_Itoa: "int64_ok i \<Longrightarrow> decode_int (JNumber (Itoa i)) = Some i"
  by (simp add: decode_int_def)

lemma hello_decode:
  assumes "hello_good h"
  shows "decode_members hello_table (hello_members h) hello_zero = Some h"
proof -
  from assms obtain vs where "hm_Versions h = Some vs" "\<forall>v\<in>set vs. int64_ok v"
    by (auto simp: hello_good_def)
  then show ?thesis
    using decode_elems_map [of vs decode_int "\<lambda>v. JNumber (Itoa v)"]
    by (simp add: struct_defs table_defs zero_defs set_slice_def decode_int_Itoa)
qed

interpretation hello_msg: metadata_struct hello_members hello_table hello_zero "[''versions'']" hello_good
proof unfold_locales
  fix x
  assume "hello_good x"
  then show "decode_members hello_table (hello_members x) hello_zero = Some x" by (rule hello_decode)
qed (auto simp: struct_defs good_defs jdepth_Array_le intro!: jdepth_members)

interpretation welcome_msg: metadata_struct welcome_members welcome_table welcome_zero
    "[''version'', ''max_chunk'']" welcome_good
  by unfold_locales (auto simp: struct_defs good_defs table_defs zero_defs intro!: jdepth_members)

interpretation request_msg: metadata_struct request_members request_table request_zero
    "[''authority'', ''path'', ''query'', ''operation'']" request_good
  by unfold_locales (auto simp: struct_defs good_defs table_defs zero_defs intro!: jdepth_members)

interpretation response_msg: metadata_struct response_members response_table response_zero
    "[''media_type'', ''size'']" response_good
  by unfold_locales (auto simp: struct_defs good_defs table_defs zero_defs intro!: jdepth_members)

interpretation end_msg: metadata_struct end_members end_table end_zero "[''size'', ''sha256'']" end_good
  by unfold_locales (auto simp: struct_defs good_defs table_defs zero_defs intro!: jdepth_members)

interpretation error_msg: metadata_struct error_members error_table error_zero
    "[''code'', ''message'']" error_good
  by unfold_locales (auto simp: struct_defs good_defs table_defs zero_defs intro!: jdepth_members)

interpretation continue_msg: metadata_struct continue_members continue_table continue_zero
    "[''profile'', ''max_body'']" continue_good
  by unfold_locales (auto simp: struct_defs good_defs table_defs zero_defs intro!: jdepth_members)

interpretation app_request_msg: metadata_struct app_request_members app_request_table app_request_zero
    "[''method'', ''headers'', ''size'']" app_request_good
  by unfold_locales (auto simp: struct_defs good_defs table_defs zero_defs headers_json_good
      headers_json_good(4) [symmetric]
      intro!: jdepth_members)

interpretation app_response_msg: metadata_struct app_response_members app_response_table
    app_response_zero "[''status'', ''headers'', ''media_type'', ''size'']" app_response_good
  by unfold_locales (auto simp: struct_defs good_defs table_defs zero_defs headers_json_good
      headers_json_good(4) [symmetric]
      intro!: jdepth_members)

text \<open>The empty struct, which DATA and CLOSE carry.\<close>

interpretation empty_msg: metadata_struct "\<lambda>u :: unit. []" "[]" "()" "[]" "\<lambda>u. True"
  by unfold_locales (auto intro!: jdepth_members)

subsection \<open>Remote errors and media types\<close>

text \<open>A nil pointer is \<open>None\<close>.\<close>

definition ValidateRemoteError :: "RemoteError option \<Rightarrow> check" where
  "ValidateRemoteError e =
     (case e of
        None \<Rightarrow> Inl (protocolError ''invalid remote error code'')
      | Some r \<Rightarrow>
          if length (re_Code r) < 1 \<or> length (re_Code r) > 64 \<or>
             ord (re_Code r ! 0) < 65 \<or> ord (re_Code r ! 0) > 90
            then Inl (protocolError ''invalid remote error code'')
          else if \<not> list_all (\<lambda>(c, _). (65 \<le> c \<and> c \<le> 90) \<or> (48 \<le> c \<and> c \<le> 57) \<or> c = 95)
               (runes (re_Code r))
            then Inl (protocolError ''invalid remote error code'')
          else if \<not> utf8_valid (re_Message r) \<or> length (re_Message r) > 1024
            then Inl (protocolError ''invalid remote error message'')
          else if list_ex (\<lambda>(c, _). IsControl c \<or> In_Cf_Zl_Zp c) (runes (re_Message r))
            then Inl (protocolError ''invalid remote error message'')
          else Inr ())"

definition RemoteError_Error :: "RemoteError option \<Rightarrow> string" where
  "RemoteError_Error e =
     (if ValidateRemoteError e \<noteq> Inr () then ''invalid remote error''
      else case e of Some r \<Rightarrow> re_Code r @ '': '' @ re_Message r | None \<Rightarrow> [])"

definition validateMediaType :: "string \<Rightarrow> bool" where
  "validateMediaType s =
     (if length s = 0 \<or> length s > 255 then False
      else \<not> list_ex (\<lambda>b. ord b < 32 \<or> ord b > 126) s)"

lemma validateMediaType_utf8: "validateMediaType s \<Longrightarrow> utf8_valid s"
  by (rule utf8_valid_ascii) (auto simp: validateMediaType_def list_ex_iff not_less split: if_splits)

lemma runes_small:
  assumes "list_all (\<lambda>(r, raw). r < 128) (runes s)"
  shows "\<forall>c\<in>set s. ord c < 128"
  using assms
proof (induction s rule: runes.induct)
  case (2 b bs)
  from 2(3) obtain r n where d: "decode_rune (b # bs) = Some (r, n)" and r: "r < 128"
    by (auto simp: runes.simps(2) split: option.splits)
  from decode_rune_small [OF d r] have n: "n = 1" "ord b < 128" by auto
  with 2(2) [OF d refl] 2(3) show ?case by (simp add: runes.simps(2) d)
qed simp

lemma ValidateRemoteError_code:
  assumes "ValidateRemoteError (Some e) = Inr ()"
  shows "\<forall>c\<in>set (re_Code e). ord c < 128 \<and> 48 \<le> ord c"
proof -
  let ?p = "\<lambda>c. (65 \<le> c \<and> c \<le> 90) \<or> (48 \<le> c \<and> c \<le> 57) \<or> c = 95"
  from assms have l: "list_all (\<lambda>(c, _). ?p c) (runes (re_Code e))"
    by (simp add: ValidateRemoteError_def split: if_splits)
  then have small: "\<forall>c\<in>set (re_Code e). ord c < 128"
    by (intro runes_small) (auto simp: list_all_iff)
  have "\<forall>c\<in>set (re_Code e). ?p (ord c)"
    using l unfolding runes_ascii [OF small] by (simp add: list_all_iff)
  with small show ?thesis by fastforce
qed

lemma ValidateRemoteError_good: "ValidateRemoteError (Some e) = Inr () \<Longrightarrow> error_good e"
proof -
  assume a: "ValidateRemoteError (Some e) = Inr ()"
  then have "utf8_valid (re_Message e)" by (simp add: ValidateRemoteError_def split: if_splits)
  moreover have "utf8_valid (re_Code e)"
    by (rule utf8_valid_ascii) (use ValidateRemoteError_code [OF a] in blast)
  ultimately show ?thesis by (simp add: error_good_def)
qed

end
