(* ===== verification/Security.thy ===== *)
theory Security
  imports Uri
begin

text \<open>
  \<open>src/security.go\<close>: identities, pins and the TLS profile. Certificates are the records
  that \<open>x509.ParseCertificate\<close> yields. What the program takes from Go's cryptography is the
  argument \<open>k\<close>: the SHA-256 digest, the certificate parser, the check of a certificate's
  signature, and the names of cipher suites; no property depends on how they compute.
\<close>

subsection \<open>Certificates and connection states\<close>

datatype public_key = MLDSA nat bytes | MLDSA_nil | OtherKey bytes

datatype sig_alg = SigMLDSA65 | SigOther nat

datatype ext_usage = ServerAuth | ClientAuth | OtherUsage nat

record Certificate =
  x_PublicKey :: public_key
  x_SignatureAlgorithm :: sig_alg
  x_RawIssuer :: bytes
  x_RawSubject :: bytes
  x_RawTBSCertificate :: bytes
  x_Signature :: bytes
  x_RawSubjectPublicKeyInfo :: bytes
  x_BasicConstraintsValid :: bool
  x_IsCA :: bool
  x_KeyUsage :: nat
  x_ExtKeyUsage :: "ext_usage list"
  x_UnknownExtKeyUsage :: "bytes list"
  x_UnhandledCriticalExtensions :: "bytes list"
  x_DNSNames :: "string list"
  x_IPAddresses :: "bytes list"
  x_EmailAddresses :: "string list"
  x_URIs :: "string list"
  x_NotBefore :: int
  x_NotAfter :: int

text \<open>
  \<open>tls.Certificate\<close>: the DER chain, the public half of the private key if it signs, the
  signature schemes allowed with it, and the parsed leaf.
\<close>

record TLSCertificate =
  tc_Certificate :: "bytes list"
  tc_Signer :: "public_key option"
  tc_SupportedSignatureAlgorithms :: "sig_alg list"
  tc_Leaf :: "Certificate option"

record crypto =
  k_Sum256 :: "bytes \<Rightarrow> bytes"
  k_ParseCertificate :: "bytes \<Rightarrow> Certificate res"
  k_CheckSignature :: "Certificate \<Rightarrow> err option"
  k_CipherSuiteName :: "nat \<Rightarrow> string"

record ConnectionState =
  t_Version :: nat
  t_HandshakeComplete :: bool
  t_DidResume :: bool
  t_CipherSuite :: nat
  t_CurveID :: nat
  t_NegotiatedProtocol :: string
  t_ServerName :: string
  t_PeerCertificates :: "Certificate list"

definition ALPN :: string where
  "ALPN = ''deep/2''"

definition MaxClientPins :: nat where
  "MaxClientPins = 256"

definition VersionTLS13 :: nat where
  "VersionTLS13 = 0x0304"

definition X25519MLKEM768 :: nat where
  "X25519MLKEM768 = 4588"

definition KeyUsageDigitalSignature :: nat where
  "KeyUsageDigitalSignature = 1"

record SecurityInfo =
  si_TLSVersion :: string
  si_KeyExchange :: string
  si_CipherSuite :: string
  si_Authentication :: string
  si_PostQuantumKeyExchange :: bool
  si_PostQuantumAuthentication :: bool

subsection \<open>Identities\<close>

definition identityLeaf :: "crypto \<Rightarrow> TLSCertificate \<Rightarrow> Certificate res" where
  "identityLeaf k cert =
     (if length (tc_Certificate cert) \<noteq> 1
        then Inl (Errorf ''DEEP V2 requires exactly one self-signed identity certificate'')
      else case k_ParseCertificate k (tc_Certificate cert ! 0) of
        Inl e \<Rightarrow> Inl (Wrapf ''parse DEEP identity'' e)
      | Inr leaf \<Rightarrow> Inr leaf)"

definition validateIdentityKey :: "Certificate \<Rightarrow> check" where
  "validateIdentityKey leaf =
     (case x_PublicKey leaf of
        MLDSA params _ \<Rightarrow> if params = 65 then Inr ()
          else Inl (Errorf ''DEEP V2 requires an ML-DSA-65 identity; classical authentication is forbidden'')
      | _ \<Rightarrow> Inl (Errorf ''DEEP V2 requires an ML-DSA-65 identity; classical authentication is forbidden''))"

definition IdentityPin :: "crypto \<Rightarrow> TLSCertificate \<Rightarrow> string res" where
  "IdentityPin k cert =
     (case identityLeaf k cert of
        Inl e \<Rightarrow> Inl e
      | Inr leaf \<Rightarrow> (case validateIdentityKey leaf of
          Inl e \<Rightarrow> Inl e
        | Inr _ \<Rightarrow> Inr (EncodeToString (k_Sum256 k (x_RawSubjectPublicKeyInfo leaf)))))"

text \<open>The \<open>now\<close> argument is what \<open>time.Now()\<close> returns at the end of the check.\<close>

definition validateIdentity ::
    "crypto \<Rightarrow> int \<Rightarrow> Certificate \<Rightarrow> string \<Rightarrow> ext_usage \<Rightarrow> check" where
  "validateIdentity k now leaf authority usage =
     (case validateIdentityKey leaf of
        Inl e \<Rightarrow> Inl e
      | Inr _ \<Rightarrow>
          if x_SignatureAlgorithm leaf \<noteq> SigMLDSA65 \<or> x_RawIssuer leaf \<noteq> x_RawSubject leaf
            then Inl (Errorf ''DEEP identity must be self-signed with ML-DSA-65'')
          else case k_CheckSignature k leaf of
            Some e \<Rightarrow> Inl (Wrapf ''DEEP identity self-signature'' e)
          | None \<Rightarrow>
              if \<not> x_BasicConstraintsValid leaf \<or> x_IsCA leaf \<or>
                 x_KeyUsage leaf \<noteq> KeyUsageDigitalSignature \<or> length (x_ExtKeyUsage leaf) \<noteq> 1 \<or>
                 x_ExtKeyUsage leaf ! 0 \<noteq> usage \<or> length (x_UnknownExtKeyUsage leaf) \<noteq> 0
                then Inl (Errorf ''DEEP identity has an invalid certificate role or key usage'')
              else if length (x_UnhandledCriticalExtensions leaf) \<noteq> 0
                then Inl (Errorf ''DEEP identity contains an unsupported critical extension'')
              else if length (x_DNSNames leaf) \<noteq> 1 \<or> \<not> is_ok (ValidateAuthority (x_DNSNames leaf ! 0)) \<or>
                 length (x_IPAddresses leaf) \<noteq> 0 \<or> length (x_EmailAddresses leaf) \<noteq> 0 \<or>
                 length (x_URIs leaf) \<noteq> 0
                then Inl (Errorf ''DEEP identity requires one canonical node.network DNS name'')
              else if authority \<noteq> [] \<and> x_DNSNames leaf ! 0 \<noteq> authority
                then Inl (Errorf ''DEEP identity authority mismatch'')
              else if now < x_NotBefore leaf \<or> \<not> now < x_NotAfter leaf
                then Inl (Errorf ''DEEP identity is outside its validity period'')
              else Inr ())"

definition validateLocalIdentity ::
    "crypto \<Rightarrow> int \<Rightarrow> TLSCertificate \<Rightarrow> string \<Rightarrow> ext_usage \<Rightarrow> check" where
  "validateLocalIdentity k now cert authority usage =
     (case identityLeaf k cert of
        Inl e \<Rightarrow> Inl e
      | Inr leaf \<Rightarrow> (case validateIdentity k now leaf authority usage of
          Inl e \<Rightarrow> Inl e
        | Inr _ \<Rightarrow> (case tc_Signer cert of
            None \<Rightarrow> Inl (Errorf ''DEEP identity requires a signing private key'')
          | Some key \<Rightarrow> (case key of
              MLDSA params _ \<Rightarrow> if params = 65 \<and> key = x_PublicKey leaf then Inr ()
                else Inl (Errorf ''DEEP identity private key does not match its ML-DSA-65 certificate'')
            | _ \<Rightarrow> Inl (Errorf ''DEEP identity private key does not match its ML-DSA-65 certificate'')))))"

definition ValidateServerIdentity :: "crypto \<Rightarrow> int \<Rightarrow> TLSCertificate \<Rightarrow> string \<Rightarrow> check" where
  "ValidateServerIdentity k now cert authority =
     (case ValidateAuthority authority of
        Inl e \<Rightarrow> Inl e
      | Inr _ \<Rightarrow> validateLocalIdentity k now cert authority ServerAuth)"

definition ValidateClientIdentity :: "crypto \<Rightarrow> int \<Rightarrow> TLSCertificate \<Rightarrow> check" where
  "ValidateClientIdentity k now cert = validateLocalIdentity k now cert [] ClientAuth"

definition decodeIdentityPin :: "string \<Rightarrow> bytes res" where
  "decodeIdentityPin pin =
     (case DecodeString pin of
        Some expected \<Rightarrow> if length expected \<noteq> 32
          then Inl (Errorf ''identity pin must contain exactly 64 hexadecimal characters'')
          else Inr expected
      | None \<Rightarrow> Inl (Errorf ''identity pin must contain exactly 64 hexadecimal characters''))"

subsection \<open>TLS configurations\<close>

text \<open>
  The parts of \<open>tls.Config\<close> that the factories set. The connection callback takes the time
  at which it runs.
\<close>

record tlsConfig =
  g_MinVersion :: nat
  g_MaxVersion :: nat
  g_CurvePreferences :: "nat list"
  g_NextProtos :: "string list"
  g_SessionTicketsDisabled :: bool
  g_Certificates :: "TLSCertificate list"
  g_ServerName :: string
  g_InsecureSkipVerify :: bool
  g_RequireAnyClientCert :: bool
  g_VerifyConnection :: "int \<Rightarrow> ConnectionState \<Rightarrow> check"

definition securityTLSConfig :: tlsConfig where
  "securityTLSConfig =
     \<lparr>g_MinVersion = VersionTLS13, g_MaxVersion = VersionTLS13,
      g_CurvePreferences = [X25519MLKEM768], g_NextProtos = [ALPN],
      g_SessionTicketsDisabled = True, g_Certificates = [], g_ServerName = [],
      g_InsecureSkipVerify = False, g_RequireAnyClientCert = False,
      g_VerifyConnection = (\<lambda>now state. Inr ())\<rparr>"

definition verifySecurityProfile :: "ConnectionState \<Rightarrow> check" where
  "verifySecurityProfile state =
     (if t_Version state \<noteq> VersionTLS13 then Inl (Errorf ''DEEP V2 requires TLS 1.3'')
      else if t_CurveID state \<noteq> X25519MLKEM768
        then Inl (Errorf ''DEEP V2 requires X25519MLKEM768; classical fallback is forbidden'')
      else if t_NegotiatedProtocol state \<noteq> ALPN then Inl (Errorf ''DEEP V2 ALPN was not negotiated'')
      else if t_DidResume state then Inl (Errorf ''DEEP V2 requires a fresh authenticated handshake'')
      else Inr ())"

definition server_verify :: "crypto \<Rightarrow> TLSCertificate \<Rightarrow> int \<Rightarrow> ConnectionState \<Rightarrow> check" where
  "server_verify k cert now state =
     (case verifySecurityProfile state of
        Inl e \<Rightarrow> Inl e
      | Inr _ \<Rightarrow> if t_ServerName state = [] then Inl (Errorf ''DEEP requires an authority in TLS SNI'')
          else ValidateServerIdentity k now cert (t_ServerName state))"

definition ServerTLSConfig :: "crypto \<Rightarrow> TLSCertificate \<Rightarrow> tlsConfig" where
  "ServerTLSConfig k cert0 =
     (let cert1 = cert0\<lparr>tc_SupportedSignatureAlgorithms := [SigMLDSA65]\<rparr>;
          cert = (case identityLeaf k cert1 of
              Inr leaf \<Rightarrow> cert1\<lparr>tc_Leaf := Some leaf\<rparr> | Inl e \<Rightarrow> cert1)
      in securityTLSConfig\<lparr>g_Certificates := [cert], g_VerifyConnection := server_verify k cert\<rparr>)"

fun decode_pins :: "string list \<Rightarrow> bytes list \<Rightarrow> bytes list res" where
  "decode_pins [] trusted = Inr trusted"
| "decode_pins (pin # pins) trusted =
     (case decodeIdentityPin pin of
        Inl e \<Rightarrow> Inl e
      | Inr digest \<Rightarrow>
          if digest \<in> set trusted then Inl (Errorf ''duplicate trusted client pin'')
          else decode_pins pins (trusted @ [digest]))"

definition client_pin_verify ::
    "crypto \<Rightarrow> (int \<Rightarrow> ConnectionState \<Rightarrow> check) \<Rightarrow> bytes list \<Rightarrow> int \<Rightarrow> ConnectionState \<Rightarrow> check" where
  "client_pin_verify k verifyServer trusted now state =
     (case verifyServer now state of
        Inl e \<Rightarrow> Inl e
      | Inr _ \<Rightarrow>
          if length (t_PeerCertificates state) \<noteq> 1
            then Inl (Errorf ''DEEP requires one pinned client identity'')
          else let leaf = t_PeerCertificates state ! 0;
                   digest = k_Sum256 k (x_RawSubjectPublicKeyInfo leaf)
               in if \<not> list_ex (\<lambda>expected. expected = digest) trusted
                  then Inl (Errorf ''DEEP client identity is not authorized'')
                  else validateIdentity k now leaf [] ClientAuth)"

definition ServerTLSConfigWithClientPins ::
    "crypto \<Rightarrow> int \<Rightarrow> TLSCertificate \<Rightarrow> string list \<Rightarrow> tlsConfig res" where
  "ServerTLSConfigWithClientPins k now cert pins =
     (case validateLocalIdentity k now cert [] ServerAuth of
        Inl e \<Rightarrow> Inl e
      | Inr _ \<Rightarrow>
          if length pins = 0 \<or> length pins > MaxClientPins
            then Inl (Errorf ''private servers require 1 to 256 trusted client pins'')
          else case decode_pins pins [] of
            Inl e \<Rightarrow> Inl e
          | Inr trusted \<Rightarrow>
              (let config = ServerTLSConfig k cert
               in Inr (config\<lparr>g_RequireAnyClientCert := True,
                    g_VerifyConnection := client_pin_verify k (g_VerifyConnection config) trusted\<rparr>)))"

definition client_verify ::
    "crypto \<Rightarrow> string \<Rightarrow> bytes \<Rightarrow> int \<Rightarrow> ConnectionState \<Rightarrow> check" where
  "client_verify k authority expected now state =
     (case verifySecurityProfile state of
        Inl e \<Rightarrow> Inl e
      | Inr _ \<Rightarrow>
          if length (t_PeerCertificates state) \<noteq> 1
            then Inl (Errorf ''DEEP server must present exactly one identity certificate'')
          else let leaf = t_PeerCertificates state ! 0
               in if expected \<noteq> k_Sum256 k (x_RawSubjectPublicKeyInfo leaf)
                  then Inl (Errorf ''DEEP server identity pin mismatch'')
                  else validateIdentity k now leaf authority ServerAuth)"

definition ClientTLSConfig :: "crypto \<Rightarrow> string \<Rightarrow> string \<Rightarrow> tlsConfig res" where
  "ClientTLSConfig k authority pin =
     (case ValidateAuthority authority of
        Inl e \<Rightarrow> Inl e
      | Inr _ \<Rightarrow> (case decodeIdentityPin pin of
          Inl e \<Rightarrow> Inl e
        | Inr expected \<Rightarrow>
            Inr (securityTLSConfig\<lparr>g_ServerName := authority, g_InsecureSkipVerify := True,
                   g_VerifyConnection := client_verify k authority expected\<rparr>)))"

fun inspect_keys :: "Certificate list \<Rightarrow> check" where
  "inspect_keys [] = Inr ()"
| "inspect_keys (leaf # leaves) =
     (case validateIdentityKey leaf of Inl e \<Rightarrow> Inl e | Inr _ \<Rightarrow> inspect_keys leaves)"

definition InspectSecurity :: "crypto \<Rightarrow> ConnectionState \<Rightarrow> SecurityInfo res" where
  "InspectSecurity k state =
     (if \<not> t_HandshakeComplete state then Inl (Errorf ''DEEP TLS handshake is incomplete'')
      else case verifySecurityProfile state of
        Inl e \<Rightarrow> Inl e
      | Inr _ \<Rightarrow> (case inspect_keys (t_PeerCertificates state) of
          Inl e \<Rightarrow> Inl e
        | Inr _ \<Rightarrow> Inr \<lparr>si_TLSVersion = ''TLS 1.3'', si_KeyExchange = ''X25519MLKEM768'',
            si_CipherSuite = k_CipherSuiteName k (t_CipherSuite state),
            si_Authentication = ''ML-DSA-65'', si_PostQuantumKeyExchange = True,
            si_PostQuantumAuthentication = True\<rparr>))"

subsection \<open>What an accepted identity is\<close>

text \<open>An ML-DSA-65 certificate for one role and name, self-signed and valid at a time.\<close>

definition identity_for :: "crypto \<Rightarrow> int \<Rightarrow> Certificate \<Rightarrow> string \<Rightarrow> ext_usage \<Rightarrow> bool" where
  "identity_for k now leaf name usage \<longleftrightarrow>
     (\<exists>key. x_PublicKey leaf = MLDSA 65 key) \<and> x_SignatureAlgorithm leaf = SigMLDSA65 \<and>
     x_RawIssuer leaf = x_RawSubject leaf \<and> k_CheckSignature k leaf = None \<and>
     x_BasicConstraintsValid leaf \<and> \<not> x_IsCA leaf \<and> x_KeyUsage leaf = 1 \<and>
     x_ExtKeyUsage leaf = [usage] \<and> x_UnknownExtKeyUsage leaf = [] \<and>
     x_UnhandledCriticalExtensions leaf = [] \<and> x_DNSNames leaf = [name] \<and>
     is_ok (ValidateAuthority name) \<and> x_IPAddresses leaf = [] \<and> x_EmailAddresses leaf = [] \<and>
     x_URIs leaf = [] \<and> x_NotBefore leaf \<le> now \<and> now < x_NotAfter leaf"

lemma validateIdentityKey_iff:
  "validateIdentityKey leaf = Inr () \<longleftrightarrow> (\<exists>key. x_PublicKey leaf = MLDSA 65 key)"
  by (simp add: validateIdentityKey_def split: public_key.splits)

lemma length_1: "length xs = Suc 0 \<longleftrightarrow> xs = [xs ! 0]"
  by (cases xs) auto

lemma validateIdentity_iff:
  "validateIdentity k now leaf authority usage = Inr () \<longleftrightarrow>
     (\<exists>name. identity_for k now leaf name usage \<and> (authority = [] \<or> authority = name))"
  by (cases "x_DNSNames leaf"; cases "x_ExtKeyUsage leaf")
    (auto simp: validateIdentity_def identity_for_def res_simps validateIdentityKey_iff
      KeyUsageDigitalSignature_def not_less split: option.splits)

definition strong_channel :: "ConnectionState \<Rightarrow> bool" where
  "strong_channel state \<longleftrightarrow> t_Version state = 0x0304 \<and> t_CurveID state = 4588 \<and>
     t_NegotiatedProtocol state = ''deep/2'' \<and> \<not> t_DidResume state"

lemma verifySecurityProfile_iff: "verifySecurityProfile state = Inr () \<longleftrightarrow> strong_channel state"
  by (auto simp: verifySecurityProfile_def strong_channel_def res_simps VersionTLS13_def
      X25519MLKEM768_def ALPN_def)

lemma decodeIdentityPin_iff:
  "decodeIdentityPin pin = Inr d \<longleftrightarrow> DecodeString pin = Some d \<and> length d = 32"
  by (auto simp: decodeIdentityPin_def split: option.splits)

lemma decode_pins_iff:
  "distinct acc \<Longrightarrow> decode_pins pins acc = Inr ds \<longleftrightarrow>
     (\<exists>es. map decodeIdentityPin pins = map Inr es \<and> ds = acc @ es \<and> distinct ds)"
proof (induction pins arbitrary: acc)
  case (Cons p ps)
  show ?case
  proof (cases "decodeIdentityPin p")
    case (Inl e)
    then show ?thesis by (auto simp: Cons_eq_map_conv)
  next
    case (Inr d)
    show ?thesis
    proof (cases "d \<in> set acc")
      case True
      with Inr show ?thesis by (auto simp: Cons_eq_map_conv)
    next
      case False
      with Cons.prems Cons.IH [of "acc @ [d]"] Inr show ?thesis
        by (fastforce simp: Cons_eq_map_conv)
    qed
  qed
qed auto

definition sample_leaf :: "string \<Rightarrow> ext_usage \<Rightarrow> Certificate" where
  "sample_leaf name usage =
     \<lparr>x_PublicKey = MLDSA 65 ''k'', x_SignatureAlgorithm = SigMLDSA65, x_RawIssuer = ''s'',
      x_RawSubject = ''s'', x_RawTBSCertificate = [], x_Signature = [],
      x_RawSubjectPublicKeyInfo = ''k'', x_BasicConstraintsValid = True, x_IsCA = False,
      x_KeyUsage = 1, x_ExtKeyUsage = [usage], x_UnknownExtKeyUsage = [],
      x_UnhandledCriticalExtensions = [], x_DNSNames = [name], x_IPAddresses = [],
      x_EmailAddresses = [], x_URIs = [], x_NotBefore = 0, x_NotAfter = 10\<rparr>"

definition sample_crypto :: crypto where
  "sample_crypto =
     \<lparr>k_Sum256 = (\<lambda>_. replicate 32 (CHR ''a'')),
      k_ParseCertificate = (\<lambda>_. Inr (sample_leaf ''n.alpha'' ServerAuth)),
      k_CheckSignature = (\<lambda>_. None), k_CipherSuiteName = (\<lambda>_. [])\<rparr>"

definition sample_pin :: string where
  "sample_pin = EncodeToString (replicate 32 (CHR ''a''))"

definition sample_cert :: TLSCertificate where
  "sample_cert = \<lparr>tc_Certificate = [''der''], tc_Signer = Some (MLDSA 65 ''k''),
     tc_SupportedSignatureAlgorithms = [], tc_Leaf = None\<rparr>"

definition sample_state :: "Certificate list \<Rightarrow> ConnectionState" where
  "sample_state peers =
     \<lparr>t_Version = 0x0304, t_HandshakeComplete = True, t_DidResume = False, t_CipherSuite = 0x1301,
      t_CurveID = 4588, t_NegotiatedProtocol = ''deep/2'', t_ServerName = ''n.alpha'',
      t_PeerCertificates = peers\<rparr>"

lemma sample_authority: "ValidateAuthority ''n.alpha'' = Inr ()"
  by code_simp

lemma sample_identity: "identity_for sample_crypto 5 (sample_leaf ''n.alpha'' u) ''n.alpha'' u"
  by (simp add: identity_for_def sample_leaf_def sample_crypto_def sample_authority)

lemma sample_state_fields [simp]:
  "t_PeerCertificates (sample_state ps) = ps" "t_ServerName (sample_state ps) = ''n.alpha''"
  by (simp_all add: sample_state_def)

lemma sample_digest [simp]: "k_Sum256 sample_crypto x = replicate 32 (CHR ''a'')"
  by (simp add: sample_crypto_def)

lemma sample_channel: "strong_channel (sample_state ps)"
  by (simp add: strong_channel_def sample_state_def)

lemma sample_pin_decodes: "decodeIdentityPin sample_pin = Inr (replicate 32 (CHR ''a''))"
  by (simp add: decodeIdentityPin_iff sample_pin_def)

lemma sample_server_identity: "validateLocalIdentity sample_crypto 5 sample_cert a ServerAuth = Inr ()"
  if "a = [] \<or> a = ''n.alpha''"
proof -
  have "validateIdentity sample_crypto 5 (sample_leaf ''n.alpha'' ServerAuth) a ServerAuth = Inr ()"
    using sample_identity that by (auto simp: validateIdentity_iff)
  then show ?thesis
    by (simp add: validateLocalIdentity_def identityLeaf_def sample_cert_def sample_crypto_def
        sample_leaf_def)
qed

lemma client_config_accepts:
  assumes "ClientTLSConfig k authority pin = Inr config"
  shows "g_VerifyConnection config now state = Inr () \<longleftrightarrow>
     strong_channel state \<and>
     (\<exists>leaf. t_PeerCertificates state = [leaf] \<and>
        DecodeString pin = Some (k_Sum256 k (x_RawSubjectPublicKeyInfo leaf)) \<and>
        identity_for k now leaf authority ServerAuth)"
proof -
  from assms obtain d where a: "is_ok (ValidateAuthority authority)" and d: "DecodeString pin = Some d"
    and c: "g_VerifyConnection config = client_verify k authority d"
    by (auto simp: ClientTLSConfig_def res_simps decodeIdentityPin_iff is_ok_unit)
  have ne: "authority \<noteq> []" using a by (auto simp: ValidateAuthority_def)
  show ?thesis unfolding c
    by (cases "t_PeerCertificates state")
      (auto simp: client_verify_def res_simps Let_def verifySecurityProfile_iff validateIdentity_iff
        d ne)
qed

text \<open>
  Property C10: A client accepts a server exactly when the channel is TLS 1.3 with the
  hybrid key exchange, the DEEP protocol and no resumption, and the server presents one
  certificate whose public-key digest is the pin and which is a current, self-signed
  ML-DSA-65 server identity for precisely the authority that was asked for.
\<close>

theorem client_accepts_server:
  assumes "ClientTLSConfig k authority pin = Inr config"
  shows "g_VerifyConnection config now state = Inr () \<longleftrightarrow>
     strong_channel state \<and>
     (\<exists>leaf. t_PeerCertificates state = [leaf] \<and>
        DecodeString pin = Some (k_Sum256 k (x_RawSubjectPublicKeyInfo leaf)) \<and>
        identity_for k now leaf authority ServerAuth)"
  using assms by (rule client_config_accepts)

theorem client_accepts_server_witness:
  "\<exists>config. ClientTLSConfig sample_crypto ''n.alpha'' sample_pin = Inr config \<and>
     g_VerifyConnection config 5 (sample_state [sample_leaf ''n.alpha'' ServerAuth]) = Inr ()"
proof -
  obtain config where c: "ClientTLSConfig sample_crypto ''n.alpha'' sample_pin = Inr config"
    by (simp add: ClientTLSConfig_def sample_authority sample_pin_decodes)
  have "DecodeString sample_pin = Some (replicate 32 (CHR ''a''))"
    using sample_pin_decodes by (simp add: decodeIdentityPin_iff)
  with client_accepts_server [OF c, of 5 "sample_state [sample_leaf ''n.alpha'' ServerAuth]"] c
  show ?thesis by (simp add: sample_channel sample_identity)
qed

lemma private_server_policy:
  assumes "ServerTLSConfigWithClientPins k t cert pins = Inr config"
    "g_VerifyConnection config now state = Inr ()"
  shows "g_RequireAnyClientCert config \<and> strong_channel state \<and>
     ValidateServerIdentity k now cert (t_ServerName state) = Inr () \<and>
     (\<exists>leaf name. t_PeerCertificates state = [leaf] \<and> identity_for k now leaf name ClientAuth \<and>
        (\<exists>pin\<in>set pins. DecodeString pin = Some (k_Sum256 k (x_RawSubjectPublicKeyInfo leaf))))"
proof -
  from assms(1) obtain ds where ds: "decode_pins pins [] = Inr ds"
    and cfg: "g_RequireAnyClientCert config"
    and v: "g_VerifyConnection config = client_pin_verify k (g_VerifyConnection (ServerTLSConfig k cert)) ds"
    by (auto simp: ServerTLSConfigWithClientPins_def res_simps Let_def)
  have sv: "g_VerifyConnection (ServerTLSConfig k cert) = server_verify k cert"
    by (auto simp: ServerTLSConfig_def Let_def fun_eq_iff server_verify_def ValidateServerIdentity_def
        validateLocalIdentity_def identityLeaf_def split: sum.splits)
  from assms(2) v sv obtain leaf where p: "t_PeerCertificates state = [leaf]"
    and s: "server_verify k cert now state = Inr ()"
    and m: "k_Sum256 k (x_RawSubjectPublicKeyInfo leaf) \<in> set ds"
    and i: "validateIdentity k now leaf [] ClientAuth = Inr ()"
    by (cases "t_PeerCertificates state")
      (auto simp: client_pin_verify_def res_simps Let_def list_ex_iff)
  from ds [unfolded decode_pins_iff [of "[]", simplified]] m obtain pin where
    "pin \<in> set pins" "decodeIdentityPin pin = Inr (k_Sum256 k (x_RawSubjectPublicKeyInfo leaf))"
    by (metis (no_types, lifting) imageE imageI list.set_map)
  then have "\<exists>pin\<in>set pins. DecodeString pin = Some (k_Sum256 k (x_RawSubjectPublicKeyInfo leaf))"
    by (auto simp: decodeIdentityPin_iff)
  with i s p cfg show ?thesis
    by (auto simp: server_verify_def res_simps verifySecurityProfile_iff validateIdentity_iff)
qed

lemma sample_private_config:
  "\<exists>config. ServerTLSConfigWithClientPins sample_crypto 5 sample_cert [sample_pin] = Inr config \<and>
     g_VerifyConnection config 5 (sample_state [sample_leaf ''n.alpha'' ClientAuth]) = Inr ()"
proof -
  let ?st = "sample_state [sample_leaf ''n.alpha'' ClientAuth]"
  define config where "config = (ServerTLSConfig sample_crypto sample_cert)\<lparr>g_RequireAnyClientCert := True,
      g_VerifyConnection := client_pin_verify sample_crypto
        (g_VerifyConnection (ServerTLSConfig sample_crypto sample_cert)) [replicate 32 (CHR ''a'')]\<rparr>"
  have c: "ServerTLSConfigWithClientPins sample_crypto 5 sample_cert [sample_pin] = Inr config"
    by (simp add: ServerTLSConfigWithClientPins_def sample_server_identity sample_pin_decodes
        MaxClientPins_def config_def Let_def)
  have sv: "server_verify sample_crypto sample_cert 5 ?st = Inr ()"
    using sample_channel [of "[sample_leaf ''n.alpha'' ClientAuth]"]
      sample_server_identity [of "''n.alpha''"]
    by (simp add: server_verify_def verifySecurityProfile_iff [THEN iffD2] ValidateServerIdentity_def
        sample_authority)
  have "g_VerifyConnection (ServerTLSConfig sample_crypto sample_cert) 5 ?st =
      server_verify sample_crypto sample_cert 5 ?st"
    by (simp add: ServerTLSConfig_def Let_def server_verify_def ValidateServerIdentity_def
        validateLocalIdentity_def identityLeaf_def split: sum.splits)
  with sv have "g_VerifyConnection config 5 ?st = Inr ()"
    using sample_identity [of ClientAuth]
    by (auto simp: config_def client_pin_verify_def Let_def validateIdentity_iff)
  with c show ?thesis by blast
qed

text \<open>
  A private server accepts a connection only when its own identity is valid for
  the authority the client named and the client presents one current, self-signed
  ML-DSA-65 client identity whose public-key digest is one of the configured pins.
\<close>

theorem private_server_accepts:
  assumes "ServerTLSConfigWithClientPins k t cert pins = Inr config"
    "g_VerifyConnection config now state = Inr ()"
  shows "g_RequireAnyClientCert config \<and> strong_channel state \<and>
     ValidateServerIdentity k now cert (t_ServerName state) = Inr () \<and>
     (\<exists>leaf name. t_PeerCertificates state = [leaf] \<and> identity_for k now leaf name ClientAuth \<and>
        (\<exists>pin\<in>set pins. DecodeString pin = Some (k_Sum256 k (x_RawSubjectPublicKeyInfo leaf))))"
  using private_server_policy [OF assms] .

text \<open>
  Roles do not mix: a certificate that passes as a server identity never passes
  as a client identity, at whatever time and under whatever name it is checked.
\<close>

theorem identity_roles_separate:
  assumes "validateIdentity k now leaf authority ServerAuth = Inr ()"
  shows "validateIdentity k now' leaf authority' ClientAuth \<noteq> Inr ()"
  using assms by (auto simp: validateIdentity_iff identity_for_def)

text \<open>
  The pin that \<open>IdentityPin\<close> prints for a server's identity is the pin with which
  a client accepts that server: given a 32-byte digest, the client configuration it yields
  accepts every strong channel on which the server presents that certificate, as long as
  the identity is valid for the authority.
\<close>

theorem pin_roundtrip:
  assumes "IdentityPin k cert = Inr pin" "k_ParseCertificate k (tc_Certificate cert ! 0) = Inr leaf"
    "length (k_Sum256 k (x_RawSubjectPublicKeyInfo leaf)) = 32"
    "ValidateServerIdentity k now cert authority = Inr ()"
    "strong_channel state" "t_PeerCertificates state = [leaf]"
  shows "\<exists>config. ClientTLSConfig k authority pin = Inr config \<and>
     g_VerifyConnection config now state = Inr ()"
proof -
  let ?d = "k_Sum256 k (x_RawSubjectPublicKeyInfo leaf)"
  from assms(1,2) have pin: "pin = EncodeToString ?d"
    by (auto simp: IdentityPin_def identityLeaf_def res_simps)
  then have d: "decodeIdentityPin pin = Inr ?d" using assms(3) by (simp add: decodeIdentityPin_iff)
  from assms(4,2) have a: "ValidateAuthority authority = Inr ()"
    and i: "validateIdentity k now leaf authority ServerAuth = Inr ()"
    by (auto simp: ValidateServerIdentity_def validateLocalIdentity_def identityLeaf_def res_simps)
  have ne: "authority \<noteq> []" using a by (auto simp: ValidateAuthority_def)
  with i a d assms(5,6) show ?thesis
    by (simp add: ClientTLSConfig_def client_verify_def verifySecurityProfile_iff [THEN iffD2])
qed

end
