(* ===== verification/Adapters.thy ===== *)
theory Adapters
  imports Security
begin

text \<open>
  \<open>src/adapters.go\<close>: endpoints and their validation, the registry that routes an authority
  to a network adapter, and the static adapter. An adapter is what its \<open>Resolve\<close> method
  does: a function of the answers that the coming \<open>ctx.Err()\<close> calls give (\<open>ctx\<close>, nil once
  used up) and of the authority; adapters that run programs or talk to a proxy are
  values of that type.
\<close>

record Endpoint =
  ep_Address :: string
  ep_PinSHA256 :: string
  ep_Transport :: string

definition no_endpoint :: Endpoint where
  "no_endpoint = \<lparr>ep_Address = [], ep_PinSHA256 = [], ep_Transport = []\<rparr>"

type_synonym ctx = "err option list"

definition Err :: "ctx \<Rightarrow> check \<times> ctx" where
  "Err ctx = (case ctx of [] \<Rightarrow> (Inr (), []) | None # es \<Rightarrow> (Inr (), es) | Some e # es \<Rightarrow> (Inl e, es))"

type_synonym adapter = "ctx \<Rightarrow> string \<Rightarrow> Endpoint res \<times> ctx"

subsection \<open>net.SplitHostPort\<close>

definition LastIndexByte :: "string \<Rightarrow> char \<Rightarrow> nat option" where
  "LastIndexByte s c =
     (case IndexByte (rev s) c of None \<Rightarrow> None | Some i \<Rightarrow> Some (length s - 1 - i))"

definition SplitHostPort :: "string \<Rightarrow> (string \<times> string) res" where
  "SplitHostPort hostport =
     (case LastIndexByte hostport (CHR '':'') of
        None \<Rightarrow> Inl (Errorf ''missing port in address'')
      | Some i \<Rightarrow>
          (if hd hostport = CHR ''['' then
             (case IndexByte hostport (CHR '']'') of
                None \<Rightarrow> Inl (Errorf ''missing bracket in address'')
              | Some close \<Rightarrow>
                  if close + 1 = length hostport then Inl (Errorf ''missing port in address'')
                  else if close + 1 \<noteq> i then
                    (if hostport ! (close + 1) = CHR '':'' then Inl (Errorf ''too many colons in address'')
                     else Inl (Errorf ''missing port in address''))
                  else if CHR ''['' \<in> set (drop 1 hostport) then Inl (Errorf ''unexpected bracket in address'')
                  else if CHR '']'' \<in> set (drop (close + 1) hostport)
                    then Inl (Errorf ''unexpected bracket in address'')
                  else Inr (take (close - 1) (drop 1 hostport), drop (i + 1) hostport))
           else if CHR '':'' \<in> set (take i hostport) then Inl (Errorf ''too many colons in address'')
           else if CHR ''['' \<in> set hostport \<or> CHR '']'' \<in> set hostport
             then Inl (Errorf ''unexpected bracket in address'')
           else Inr (take i hostport, drop (i + 1) hostport)))"

subsection \<open>Endpoints\<close>

definition validTransportName :: "string \<Rightarrow> bool" where
  "validTransportName name =
     (if length name < 1 \<or> length name > 32 \<or> ord (name ! 0) < 97 \<or> ord (name ! 0) > 122 then False
      else list_all (\<lambda>c. isLowerAlnum c \<or> c = CHR ''-'') (drop 1 name))"

definition validate_tcp :: "string \<Rightarrow> check" where
  "validate_tcp address =
     (case SplitHostPort address of
        Inl e \<Rightarrow> Inl (Errorf ''TCP endpoint address must be host:port'')
      | Inr (host, portText) \<Rightarrow>
          if host = [] then Inl (Errorf ''TCP endpoint address must be host:port'')
          else if \<not> is_ok (validateASCII address) \<or> ContainsAny host (''/'' @ [CHR 0x5C] @ ''?#@'')
            then Inl (Errorf ''invalid endpoint host'')
          else (case Atoi portText of
              None \<Rightarrow> Inl (Errorf ''endpoint port must be an integer from 1 to 65535'')
            | Some port \<Rightarrow>
                if port < 1 \<or> port > 65535 \<or> Itoa port \<noteq> portText
                  then Inl (Errorf ''endpoint port must be an integer from 1 to 65535'')
                else Inr ()))"

definition ValidateEndpoint :: "Endpoint \<Rightarrow> check" where
  "ValidateEndpoint endpoint =
     (if length (ep_Address endpoint) < 1 \<or> length (ep_Address endpoint) > 1024
        then Inl (Errorf ''endpoint address must contain 1 to 1024 bytes'')
      else if ep_Transport endpoint \<noteq> [] \<and> \<not> validTransportName (ep_Transport endpoint)
        then Inl (Errorf ''invalid endpoint transport name'')
      else if list_ex (\<lambda>c. ord c < 32 \<or> ord c \<ge> 127) (ep_Address endpoint)
        then Inl (Errorf ''endpoint address must contain printable ASCII characters'')
      else case (if ep_Transport endpoint = [] \<or> ep_Transport endpoint = ''tcp''
                 then validate_tcp (ep_Address endpoint) else Inr ()) of
        Inl e \<Rightarrow> Inl e
      | Inr _ \<Rightarrow>
          if length (ep_PinSHA256 endpoint) \<noteq> 64
            then Inl (Errorf ''endpoint pin_sha256 must contain 64 hexadecimal characters'')
          else if DecodeString (ep_PinSHA256 endpoint) = None
            then Inl (Errorf ''endpoint pin_sha256 must contain 64 hexadecimal characters'')
          else Inr ())"

subsection \<open>The registry\<close>

record Registry =
  rg_networks :: "string \<rightharpoonup> adapter"
  rg_proxy :: "adapter option"

definition NewRegistry :: Registry where
  "NewRegistry = \<lparr>rg_networks = Map.empty, rg_proxy = None\<rparr>"

text \<open>A nil adapter is \<open>None\<close>.\<close>

definition Register :: "string \<Rightarrow> adapter option \<Rightarrow> Registry \<Rightarrow> check \<times> Registry" where
  "Register network adapter registry =
     (if \<not> validLabel network
        then (Inl (Errorf ''network must be a canonical lowercase ASCII label''), registry)
      else case adapter of
        None \<Rightarrow> (Inl (Errorf ''network adapter must not be nil''), registry)
      | Some a \<Rightarrow>
          if rg_networks registry network \<noteq> None
            then (Inl (Errorf ''network is already registered''), registry)
          else (Inr (), registry\<lparr>rg_networks := (rg_networks registry)(network \<mapsto> a)\<rparr>))"

text \<open>\<open>SetProxy\<close>, given the address check and the proxy adapter of \<open>src/proxy.go\<close>.\<close>

definition SetProxy ::
    "(string \<Rightarrow> check) \<Rightarrow> (string \<Rightarrow> adapter) \<Rightarrow> string \<Rightarrow> Registry \<Rightarrow> check \<times> Registry" where
  "SetProxy validateProxyAddress proxyAdapter address registry =
     (if address \<noteq> [] then
        (case validateProxyAddress address of
           Inl e \<Rightarrow> (Inl e, registry)
         | Inr _ \<Rightarrow> (Inr (), registry\<lparr>rg_proxy := Some (proxyAdapter address)\<rparr>))
      else (Inr (), registry\<lparr>rg_proxy := None\<rparr>))"

definition network_of :: "string \<Rightarrow> string" where
  "network_of authority =
     (case LastIndexByte authority (CHR ''.'') of
        Some i \<Rightarrow> drop (i + 1) authority | None \<Rightarrow> authority)"

text \<open>The adapter that \<open>Resolve\<close> picks under the read lock: the proxy, or the network's own.\<close>

definition adapter_for :: "Registry \<Rightarrow> string \<Rightarrow> adapter option" where
  "adapter_for registry authority =
     (case rg_proxy registry of
        Some p \<Rightarrow> Some p | None \<Rightarrow> rg_networks registry (network_of authority))"

definition Resolve :: "Registry \<Rightarrow> ctx \<Rightarrow> string \<Rightarrow> Endpoint res \<times> ctx" where
  "Resolve registry ctx authority =
     (case ValidateAuthority authority of
        Inl e \<Rightarrow> (Inl e, ctx)
      | Inr _ \<Rightarrow>
          (case Err ctx of
             (Inl e, ctx1) \<Rightarrow> (Inl e, ctx1)
           | (Inr _, ctx1) \<Rightarrow>
               (case adapter_for registry authority of
                     None \<Rightarrow> (Inl (Errorf ''no adapter installed for network''), ctx1)
                   | Some adapter \<Rightarrow>
                       (case adapter ctx1 authority of
                          (Inl e, ctx2) \<Rightarrow> (Inl (Wrapf (''resolve '' @ authority) e), ctx2)
                        | (Inr endpoint, ctx2) \<Rightarrow>
                            (case Err ctx2 of
                               (Inl e, ctx3) \<Rightarrow> (Inl e, ctx3)
                             | (Inr _, ctx3) \<Rightarrow>
                                 (case ValidateEndpoint endpoint of
                                    Inl e \<Rightarrow> (Inl (Wrapf ''adapter returned an invalid endpoint'' e), ctx3)
                                  | Inr _ \<Rightarrow> (Inr endpoint, ctx3)))))))"

definition StaticAdapter_Resolve :: "(string \<rightharpoonup> Endpoint) \<Rightarrow> adapter" where
  "StaticAdapter_Resolve adapter ctx authority =
     (case Err ctx of
        (Inl e, ctx1) \<Rightarrow> (Inl e, ctx1)
      | (Inr _, ctx1) \<Rightarrow>
          (case ValidateAuthority authority of
             Inl e \<Rightarrow> (Inl e, ctx1)
           | Inr _ \<Rightarrow>
               (case adapter authority of
                  None \<Rightarrow> (Inl (Errorf ''unknown authority''), ctx1)
                | Some endpoint \<Rightarrow>
                    (case ValidateEndpoint endpoint of
                       Inl e \<Rightarrow> (Inl e, ctx1) | Inr _ \<Rightarrow> (Inr endpoint, ctx1)))))"

text \<open>The bounded buffer that collects an exec adapter's output.\<close>

record limitedBuffer =
  lb_buffer :: bytes
  lb_limit :: nat
  lb_exceeded :: bool

definition limitedBuffer_Write :: "bytes \<Rightarrow> limitedBuffer \<Rightarrow> (nat \<times> err option) \<times> limitedBuffer" where
  "limitedBuffer_Write data b =
     (if int (length data) > int (lb_limit b) - int (length (lb_buffer b))
      then ((0, Some (Errorf ''output limit exceeded'')), b\<lparr>lb_exceeded := True\<rparr>)
      else ((length data, None), b\<lparr>lb_buffer := lb_buffer b @ data\<rparr>))"

subsection \<open>What clients rely on\<close>

text \<open>
  The contract of resolution: an endpoint is returned only for a valid authority, and it is
  well formed. Clients conclude that its pin configures TLS.
\<close>

locale resolver =
  fixes resolve :: "ctx \<Rightarrow> string \<Rightarrow> Endpoint res \<times> ctx"
  assumes resolved: "resolve ctx authority = (Inr endpoint, ctx') \<Longrightarrow>
      is_ok (ValidateAuthority authority) \<and> ValidateEndpoint endpoint = Inr ()"
begin

lemma pin_configures:
  assumes "resolve ctx authority = (Inr endpoint, ctx')"
  shows "\<exists>config. ClientTLSConfig k authority (ep_PinSHA256 endpoint) = Inr config"
proof -
  from resolved [OF assms] have a: "is_ok (ValidateAuthority authority)"
    and p: "length (ep_PinSHA256 endpoint) = 64" "\<exists>d. DecodeString (ep_PinSHA256 endpoint) = Some d"
    by (auto simp: ValidateEndpoint_def res_simps)
  from p obtain d where d: "DecodeString (ep_PinSHA256 endpoint) = Some d" by blast
  with DecodeString_length [OF d] p(1) have "decodeIdentityPin (ep_PinSHA256 endpoint) = Inr d"
    by (simp add: decodeIdentityPin_iff)
  with a show ?thesis by (auto simp: ClientTLSConfig_def is_ok_iff)
qed

end

lemma Resolve_Inr:
  assumes "Resolve registry ctx authority = (Inr endpoint, ctx')"
  obtains adapter ctx1 ctx2 where "ValidateAuthority authority = Inr ()" "Err ctx = (Inr (), ctx1)"
    "adapter_for registry authority = Some adapter"
    "adapter ctx1 authority = (Inr endpoint, ctx2)" "Err ctx2 = (Inr (), ctx')"
    "ValidateEndpoint endpoint = Inr ()"
  using assms unfolding Resolve_def
  by (auto simp: res_simps split: option.splits sum.splits prod.splits)

lemma Resolve_cong:
  "adapter_for r authority = adapter_for s authority \<Longrightarrow> Resolve r ctx authority = Resolve s ctx authority"
  unfolding Resolve_def by (simp only:)

interpretation registry: resolver "Resolve registry" for registry
  by unfold_locales (erule Resolve_Inr, simp)

interpretation static: resolver "StaticAdapter_Resolve adapter" for adapter
  by unfold_locales
    (auto simp: StaticAdapter_Resolve_def is_ok_unit split: sum.splits option.splits prod.splits)

subsection \<open>Properties\<close>

lemma IndexByte_app: "c \<notin> set a \<Longrightarrow> IndexByte (a @ c # b) c = Some (length a)"
  using IndexBy_append_hit [of a "\<lambda>x. x = c" c b] by (auto simp: IndexByte_def)

lemma LastIndexByte_app: "c \<notin> set b \<Longrightarrow> LastIndexByte (a @ c # b) c = Some (length a)"
  using IndexByte_app [of c "rev b" "rev a"] by (simp add: LastIndexByte_def)

lemma network_of_authority: "CHR ''.'' \<notin> set m \<Longrightarrow> network_of (node @ CHR ''.'' # m) = m"
  by (simp add: network_of_def LastIndexByte_app)

text \<open>
  A registered adapter serves its own network and no other: for authorities of
  that network the registry answers from the new adapter alone, for every other network it
  answers as before; registering a network twice is refused and changes nothing.
\<close>

theorem Register_Resolve:
  assumes "Register network (Some a) registry = (x, registry')" "rg_proxy registry = None"
    "CHR ''.'' \<notin> set m"
  shows "(x = Inr () \<longrightarrow> Resolve registry' ctx (node @ CHR ''.'' # m) =
       Resolve (if m = network then \<lparr>rg_networks = [network \<mapsto> a], rg_proxy = None\<rparr> else registry) ctx
         (node @ CHR ''.'' # m)) \<and>
     (rg_networks registry network \<noteq> None \<longrightarrow> x \<noteq> Inr () \<and> registry' = registry)"
proof -
  have "x = Inr () \<Longrightarrow> adapter_for registry' (node @ CHR ''.'' # m) =
      adapter_for (if m = network then \<lparr>rg_networks = [network \<mapsto> a], rg_proxy = None\<rparr> else registry)
        (node @ CHR ''.'' # m)"
    using assms by (auto simp: Register_def adapter_for_def network_of_authority split: if_splits)
  moreover have "rg_networks registry network \<noteq> None \<longrightarrow> x \<noteq> Inr () \<and> registry' = registry"
    using assms(1) by (auto simp: Register_def split: if_splits)
  ultimately show ?thesis using Resolve_cong by blast
qed

definition sample_endpoint :: Endpoint where
  "sample_endpoint = \<lparr>ep_Address = ''local'', ep_PinSHA256 = sample_pin, ep_Transport = ''mem''\<rparr>"

lemma sample_endpoint_ok: "ValidateEndpoint sample_endpoint = Inr ()"
proof -
  have "length sample_pin = 64" "DecodeString sample_pin \<noteq> None"
    using sample_pin_decodes by (simp_all add: sample_pin_def decodeIdentityPin_iff)
  then show ?thesis
    by (simp add: ValidateEndpoint_def sample_endpoint_def validTransportName_def isLowerAlnum_def)
qed

text \<open>
  A configured proxy is used for every authority and there is no fallback:
  whatever adapters are installed, resolution gives the same answer, and it is the
  proxy's, validated.
\<close>

theorem proxy_no_fallback:
  assumes "rg_proxy registry = Some p" "Resolve registry ctx authority = (Inr endpoint, ctx')"
  shows "(\<forall>networks. Resolve (registry\<lparr>rg_networks := networks\<rparr>) ctx authority = (Inr endpoint, ctx')) \<and>
     (\<exists>ctx1 ctx2. p ctx1 authority = (Inr endpoint, ctx2)) \<and> ValidateEndpoint endpoint = Inr ()"
proof -
  have "adapter_for (registry\<lparr>rg_networks := networks\<rparr>) authority = adapter_for registry authority"
    for networks using assms(1) by (simp add: adapter_for_def)
  then have "Resolve (registry\<lparr>rg_networks := networks\<rparr>) ctx authority = (Inr endpoint, ctx')"
    for networks using Resolve_cong assms(2) by metis
  moreover from assms(2) have "(\<exists>ctx1 ctx2. p ctx1 authority = (Inr endpoint, ctx2)) \<and>
      ValidateEndpoint endpoint = Inr ()"
    by (rule Resolve_Inr) (use assms(1) in \<open>auto simp: adapter_for_def\<close>)
  ultimately show ?thesis by blast
qed

text \<open>
  Output of an exec adapter is bounded: writes never grow the buffer past its
  limit, nothing is stored partially, and once a write is refused the buffer says so.
\<close>

theorem limitedBuffer_bounded:
  assumes "length (lb_buffer b) \<le> lb_limit b" "limitedBuffer_Write data b = ((n, e), b')"
  shows "length (lb_buffer b') \<le> lb_limit b' \<and> lb_limit b' = lb_limit b \<and>
     (e = None \<longrightarrow> n = length data \<and> lb_buffer b' = lb_buffer b @ data \<and> lb_exceeded b' = lb_exceeded b) \<and>
     (e \<noteq> None \<longrightarrow> n = 0 \<and> lb_buffer b' = lb_buffer b \<and> lb_exceeded b')"
  using assms by (auto simp: limitedBuffer_Write_def split: if_splits)

end
