(* ===== verification/ConfigJson.thy ===== *)
theory ConfigJson
  imports Messages Adapters
begin

text \<open>
  The configuration decoder of \<open>src/adapters.go\<close>: \<open>DecodeConfigJSON\<close> with its token walk
  \<open>checkAdapterJSONValue\<close> and the shape check \<open>checkConfigShape\<close>. It also reads the messages
  of the proxy protocol and the output of resolver programs.
\<close>

subsection \<open>The token walk\<close>

function (sequential) checkAdapterJSONValue :: "decoder \<Rightarrow> nat \<Rightarrow> decoder res"
  and check_object :: "decoder \<Rightarrow> bytes list \<Rightarrow> nat \<Rightarrow> decoder res"
  and check_array :: "decoder \<Rightarrow> nat \<Rightarrow> decoder res" where
  "checkAdapterJSONValue d depth =
     (if depth > 64 then Inl (Errorf ''JSON nesting exceeds 64 levels'')
      else case Token d of
        (Inl e, _) \<Rightarrow> Inl e
      | (Inr token, d1) \<Rightarrow>
          (case token of
             Scalar JNull \<Rightarrow> Inl (Errorf ''null configuration values are forbidden'')
           | Scalar v \<Rightarrow> Inr d1
           | Delim delimiter \<Rightarrow>
               if delimiter = CHR ''{'' then check_object d1 [] depth
               else if delimiter = CHR ''['' then check_array d1 depth
               else Inl (Errorf ''unexpected JSON delimiter'')))"
| "check_object d keys depth =
     (if More d then
        (case Token d of
           (Inl e, _) \<Rightarrow> Inl e
         | (Inr keyToken, d1) \<Rightarrow>
             (case keyToken of
                Scalar (JString key) \<Rightarrow>
                  if key \<in> set keys then Inl (Errorf ''duplicate JSON key'')
                  else (case checkAdapterJSONValue d1 (depth + 1) of
                      Inl e \<Rightarrow> Inl e
                    | Inr d2 \<Rightarrow> check_object d2 (key # keys) depth)
              | _ \<Rightarrow> Inl (Errorf ''JSON object key must be a string'')))
      else (case Token d of
              (Inl e, _) \<Rightarrow> Inl e
            | (Inr close, d') \<Rightarrow>
                if close = Delim (CHR ''}'') then Inr d' else Inl (Errorf ''invalid JSON container'')))"
| "check_array d depth =
     (if More d then
        (case checkAdapterJSONValue d (depth + 1) of
           Inl e \<Rightarrow> Inl e
         | Inr d1 \<Rightarrow> check_array d1 depth)
      else (case Token d of
              (Inl e, _) \<Rightarrow> Inl e
            | (Inr close, d') \<Rightarrow>
                if close = Delim (CHR '']'') then Inr d' else Inl (Errorf ''invalid JSON container'')))"
  by pat_completeness auto

lemma close_Inr [res_simps]:
  "(case r of (Inl e, _) \<Rightarrow> Inl e | (Inr t, d) \<Rightarrow> if t = x then Inr d else Inl a) = Inr y \<longleftrightarrow> r = (Inr x, y)"
  by (auto split: prod.splits sum.splits)

lemma token_err_Inr [res_simps]:
  "(case r of (Inl e, _) \<Rightarrow> Inl e | (Inr x, s) \<Rightarrow> g x s) = Inr y \<longleftrightarrow>
     (\<exists>x s. r = (Inr x, s) \<and> g x s = Inr y)"
  by (cases r; cases "fst r") auto

lemma value_case_Inr:
  "(case t of Scalar JNull \<Rightarrow> Inl a | Scalar v \<Rightarrow> Inr d | Delim c \<Rightarrow> g c) = Inr y \<longleftrightarrow>
     (\<exists>v. t = Scalar v \<and> v \<noteq> JNull \<and> y = d) \<or> (\<exists>c. t = Delim c \<and> g c = Inr y)"
  by (auto split: jtoken.splits jvalue.splits)

lemma check_len_dom:
  "checkAdapterJSONValue_check_object_check_array_dom (Inl (d, k)) \<Longrightarrow>
     checkAdapterJSONValue d k = Inr d' \<Longrightarrow> dlen d' < dlen d"
  "checkAdapterJSONValue_check_object_check_array_dom (Inr (Inl (d, keys, k))) \<Longrightarrow>
     check_object d keys k = Inr d' \<Longrightarrow> dlen d' < dlen d"
  "checkAdapterJSONValue_check_object_check_array_dom (Inr (Inr (d, k))) \<Longrightarrow>
     check_array d k = Inr d' \<Longrightarrow> dlen d' < dlen d"
proof (induction arbitrary: d' and d' and d'
    rule: checkAdapterJSONValue_check_object_check_array.pinduct)
  case (1 d k)
  from 1(4) 1(1) obtain t d1 where t: "\<not> k > 64" "Token d = (Inr t, d1)"
    and c: "(\<exists>v. t = Scalar v \<and> d' = d1) \<or> (\<exists>c. t = Delim c \<and> c = CHR ''{'' \<and> check_object d1 [] k = Inr d') \<or>
      (\<exists>c. t = Delim c \<and> c \<noteq> CHR ''{'' \<and> c = CHR ''['' \<and> check_array d1 k = Inr d')"
    by (auto simp: checkAdapterJSONValue.psimps res_simps value_case_Inr split: if_splits)
  from c Token_len [OF t(2)] 1(2,3) [OF t(1) t(2) [symmetric] refl] show ?case by fastforce
next
  case (2 d keys k)
  show ?case
  proof (cases "More d")
    case True
    with 2(1,4) obtain key d1 d2 where
      s: "Token d = (Inr (Scalar (JString key)), d1)" "key \<notin> set keys"
        "checkAdapterJSONValue d1 (k + 1) = Inr d2" "check_object d2 (key # keys) k = Inr d'"
      by (auto simp: check_object.psimps res_simps)
    note ih = 2(2,3) [OF True s(1) [symmetric] refl refl refl s(2)]
    from ih(1) [OF s(3)] ih(2) [OF s(3,4)] Token_len [OF s(1)] show ?thesis by simp
  next
    case False
    with 2(1,4) have "Token d = (Inr (Delim (CHR ''}'')), d')" by (simp add: check_object.psimps res_simps)
    then show ?thesis by (rule Token_len)
  qed
next
  case (3 d k)
  show ?case
  proof (cases "More d")
    case True
    with 3(1,4) obtain d1 where s: "checkAdapterJSONValue d (k + 1) = Inr d1" "check_array d1 k = Inr d'"
      by (auto simp: check_array.psimps res_simps)
    from 3(2) [OF True s(1)] 3(3) [OF True s] show ?thesis by simp
  next
    case False
    with 3(1,4) have "Token d = (Inr (Delim (CHR '']'')), d')" by (simp add: check_array.psimps res_simps)
    then show ?thesis by (rule Token_len)
  qed
qed

termination checkAdapterJSONValue
proof (relation "measure (\<lambda>x. case x of Inl (d, k) \<Rightarrow> 2 * dlen d
      | Inr (Inl (d, keys, k)) \<Rightarrow> 2 * dlen d + 1 | Inr (Inr (d, k)) \<Rightarrow> 2 * dlen d + 1)", goal_cases)
  case 1
  then show ?case by simp
qed (auto dest!: Token_len_sym check_len_dom(1))

declare checkAdapterJSONValue.simps [simp del] check_object.simps [simp del] check_array.simps [simp del]

subsection \<open>What the walk accepts\<close>

text \<open>A tree without nulls and repeated keys whose values all lie within 64 levels, at level \<open>k\<close>.\<close>

primrec config_tree :: "jvalue \<Rightarrow> nat \<Rightarrow> bool" where
  "config_tree JNull k = False"
| "config_tree (JBool b) k = (k \<le> 64)"
| "config_tree (JNumber s) k = (k \<le> 64)"
| "config_tree (JString s) k = (k \<le> 64)"
| "config_tree (JArray vs) k = (k \<le> 64 \<and> list_all (\<lambda>f. f (Suc k)) (map config_tree vs))"
| "config_tree (JObject ms) k =
     (k \<le> 64 \<and> distinct (map fst ms) \<and> list_all (\<lambda>m. snd m (Suc k)) (map (map_prod id config_tree) ms))"

lemma config_tree_Array: "config_tree (JArray vs) k \<longleftrightarrow> k \<le> 64 \<and> (\<forall>v\<in>set vs. config_tree v (Suc k))"
  by (simp add: list_all_iff)

lemma config_tree_Object:
  "config_tree (JObject ms) k \<longleftrightarrow> k \<le> 64 \<and> distinct (map fst ms) \<and> (\<forall>m\<in>set ms. config_tree (snd m) (Suc k))"
  by (auto simp: list_all_iff)

declare config_tree.simps(5,6) [simp del]

lemma config_tree_level: "config_tree v k \<Longrightarrow> k \<le> 64"
  by (cases v) (auto simp: config_tree_Array config_tree_Object)

lemma config_tree_scalar:
  "Token d = (Inr (Scalar v), d') \<Longrightarrow> config_tree v k \<longleftrightarrow> v \<noteq> JNull \<and> k \<le> 64"
  using scalar_token_depth [of d v d'] by (cases v) (auto simp: jdepth.simps)

lemma next_value_token: "next_value d = Some (v, d') \<longleftrightarrow> (\<exists>t d1. Token d = (Inr t, d1) \<and> build d1 t = Some (v, d'))"
  by (auto simp: next_value_def split: prod.splits sum.splits)

lemma check_value_step:
  "checkAdapterJSONValue d k = Inr d' \<longleftrightarrow> k \<le> 64 \<and> (\<exists>t d1. Token d = (Inr t, d1) \<and>
     ((\<exists>v. t = Scalar v \<and> v \<noteq> JNull \<and> d' = d1) \<or>
      (t = Delim (CHR ''{'') \<and> check_object d1 [] k = Inr d') \<or>
      (t = Delim (CHR ''['') \<and> check_array d1 k = Inr d')))"
  by (subst checkAdapterJSONValue.simps)
    (auto simp: res_simps value_case_Inr not_less split: if_splits intro: exI [of _ "CHR ''[''"])

lemma check_object_step:
  "check_object d keys k = Inr d' \<longleftrightarrow>
     (if More d then \<exists>key d1 d2. Token d = (Inr (Scalar (JString key)), d1) \<and> key \<notin> set keys \<and>
        checkAdapterJSONValue d1 (Suc k) = Inr d2 \<and> check_object d2 (key # keys) k = Inr d'
      else Token d = (Inr (Delim (CHR ''}'')), d'))"
  by (subst check_object.simps) (simp add: res_simps, blast)

lemma check_array_step:
  "check_array d k = Inr d' \<longleftrightarrow>
     (if More d then \<exists>d1. checkAdapterJSONValue d (Suc k) = Inr d1 \<and> check_array d1 k = Inr d'
      else Token d = (Inr (Delim (CHR '']'')), d'))"
  by (subst check_array.simps) (simp add: res_simps)

lemma check_sound:
  "checkAdapterJSONValue d k = Inr d' \<Longrightarrow> \<exists>v. next_value d = Some (v, d') \<and> config_tree v k"
  "check_object d keys k = Inr d' \<Longrightarrow>
     \<exists>ms. build_members d = Some (ms, d') \<and> distinct (map fst ms) \<and>
        set keys \<inter> fst ` set ms = {} \<and> (\<forall>m\<in>set ms. config_tree (snd m) (Suc k))"
  "check_array d k = Inr d' \<Longrightarrow>
     \<exists>vs. build_elems d = Some (vs, d') \<and> (\<forall>v\<in>set vs. config_tree v (Suc k))"
proof (induction d k and d keys k and d k arbitrary: d' and d' and d'
    rule: checkAdapterJSONValue_check_object_check_array.induct)
  case (1 d k)
  from 1(3) obtain t d1 where k: "k \<le> 64" and t: "Token d = (Inr t, d1)"
    and c: "(\<exists>v. t = Scalar v \<and> v \<noteq> JNull \<and> d' = d1) \<or>
      (t = Delim (CHR ''{'') \<and> check_object d1 [] k = Inr d') \<or>
      (t = Delim (CHR ''['') \<and> check_array d1 k = Inr d')"
    by (subst (asm) check_value_step) auto
  have nk: "\<not> 64 < k" using k by simp
  note ih = 1(1,2) [OF nk t [symmetric] refl]
  from c show ?case
  proof (elim disjE exE conjE)
    fix v assume "t = Scalar v" "v \<noteq> JNull" "d' = d1"
    with t k show ?thesis using config_tree_scalar [of d v d1 k] by (simp add: next_value_token)
  next
    assume o: "t = Delim (CHR ''{'')" "check_object d1 [] k = Inr d'"
    from ih(1) [OF o(1) refl o(2)] obtain ms where "build_members d1 = Some (ms, d')" "distinct (map fst ms)"
      "\<forall>m\<in>set ms. config_tree (snd m) (Suc k)" by blast
    with t o k show ?thesis
      by (intro exI [of _ "JObject ms"]) (auto simp: next_value_token build.simps(2) config_tree_Object)
  next
    assume o: "t = Delim (CHR ''['')" "check_array d1 k = Inr d'"
    from ih(2) [OF o(1) _ refl o(2)] obtain vs where "build_elems d1 = Some (vs, d')"
      "\<forall>v\<in>set vs. config_tree v (Suc k)" by auto
    with t o k show ?thesis
      by (intro exI [of _ "JArray vs"]) (auto simp: next_value_token build.simps(2) config_tree_Array)
  qed
next
  case (2 d keys k)
  show ?case
  proof (cases "More d")
    case True
    with 2(3) obtain key d1 d2 where
      s: "Token d = (Inr (Scalar (JString key)), d1)" "key \<notin> set keys"
        "checkAdapterJSONValue d1 (k + 1) = Inr d2" "check_object d2 (key # keys) k = Inr d'"
      by (subst (asm) check_object_step) auto
    note ih = 2(1,2) [OF True s(1) [symmetric] refl refl refl s(2)]
    from ih(1) [OF s(3)] obtain v t d3 where
      v: "Token d1 = (Inr t, d3)" "build d3 t = Some (v, d2)" "config_tree v (Suc k)"
      by (auto simp: next_value_token)
    from ih(2) [OF s(3,4)] obtain ms where
      "build_members d2 = Some (ms, d')" "distinct (map fst ms)"
      "set (key # keys) \<inter> fst ` set ms = {}" "\<forall>m\<in>set ms. config_tree (snd m) (Suc k)" by blast
    with v s True show ?thesis
      by (intro exI [of _ "(key, v) # ms"]) (subst build_members.simps, auto)
  next
    case False
    with 2(3) have "Token d = (Inr (Delim (CHR ''}'')), d')" by (subst (asm) check_object_step) simp
    with False show ?thesis by (subst build_members.simps) auto
  qed
next
  case (3 d k)
  show ?case
  proof (cases "More d")
    case True
    with 3(3) obtain d1 where s: "checkAdapterJSONValue d (k + 1) = Inr d1" "check_array d1 k = Inr d'"
      by (subst (asm) check_array_step) auto
    from 3(1) [OF True s(1)] obtain v t d3 where
      v: "Token d = (Inr t, d3)" "build d3 t = Some (v, d1)" "config_tree v (Suc k)"
      by (auto simp: next_value_token)
    from 3(2) [OF True s] obtain vs where
      "build_elems d1 = Some (vs, d')" "\<forall>v\<in>set vs. config_tree v (Suc k)" by blast
    with v s True show ?thesis by (intro exI [of _ "v # vs"]) (subst build_elems.simps, auto)
  next
    case False
    with 3(3) have "Token d = (Inr (Delim (CHR '']'')), d')" by (subst (asm) check_array_step) simp
    with False show ?thesis by (subst build_elems.simps) auto
  qed
qed

lemma check_complete:
  "build d1 t = Some (v, d') \<Longrightarrow> config_tree v k \<Longrightarrow> Token d = (Inr t, d1) \<Longrightarrow>
     checkAdapterJSONValue d k = Inr d'"
  "build_members d1 = Some (ms, d') \<Longrightarrow> distinct (map fst ms) \<Longrightarrow>
     set keys \<inter> fst ` set ms = {} \<Longrightarrow> \<forall>m\<in>set ms. config_tree (snd m) (Suc k) \<Longrightarrow>
     check_object d1 keys k = Inr d'"
  "build_elems d1 = Some (vs, d') \<Longrightarrow> \<forall>v\<in>set vs. config_tree v (Suc k) \<Longrightarrow> check_array d1 k = Inr d'"
proof (induction d1 t and d1 and d1 arbitrary: v d' k d and ms d' k keys and vs d' k
    rule: build_build_members_build_elems.induct)
  case (1 d1 v)
  then show ?case using config_tree_scalar [of d v d1 k] by (subst check_value_step) auto
next
  case (2 d1 c)
  from 2(3) consider ms where "c = CHR ''{''" "build_members d1 = Some (ms, d')" "v = JObject ms"
    | vs where "c = CHR ''[''" "build_elems d1 = Some (vs, d')" "v = JArray vs"
    by (auto simp: build.simps(2) split: if_splits)
  then show ?case
  proof cases
    case 1
    with 2(1) [of ms d' "[]" k] 2(4,5) show ?thesis
      by (subst check_value_step) (auto simp: config_tree_Object)
  next
    case vs: 2
    with 2(2) [OF _ _ vs(2), of k] 2(4,5) show ?thesis
      by (subst check_value_step) (auto simp: config_tree_Array)
  qed
next
  case (3 d)
  from members_step [OF 3(3)] show ?case
  proof (elim disjE exE conjE)
    fix key d1 t d2 v d3 ms'
    assume s: "More d" "Token d = (Inr (Scalar (JString key)), d1)" "Token d1 = (Inr t, d2)"
      "build d2 t = Some (v, d3)" "build_members d3 = Some (ms', d')" "ms = (key, v) # ms'"
    note ih = 3(1,2) [OF s(1) s(2) [symmetric] refl refl refl s(3) [symmetric] refl]
    have "checkAdapterJSONValue d1 (Suc k) = Inr d3" using ih(1) [OF s(4) _ s(3)] 3(6) s(6) by simp
    moreover have "check_object d3 (key # keys) k = Inr d'"
      by (rule ih(2) [OF s(4) refl s(5)]) (use 3(4,5,6) s(6) in auto)
    ultimately show ?thesis
      using s 3(5) by (subst check_object_step) (auto simp del: split_paired_Ex)
  qed (subst check_object_step, simp)
next
  case (4 d)
  from elems_step [OF 4(3)] show ?case
  proof (elim disjE exE conjE)
    fix t d1 v d2 vs'
    assume s: "More d" "Token d = (Inr t, d1)" "build d1 t = Some (v, d2)"
      "build_elems d2 = Some (vs', d')" "vs = v # vs'"
    note ih = 4(1,2) [OF s(1) s(2) [symmetric] refl]
    have "checkAdapterJSONValue d (Suc k) = Inr d2" using ih(1) [OF s(3) _ s(2)] 4(4) s(5) by simp
    moreover have "check_array d2 k = Inr d'"
      by (rule ih(2) [OF s(3) refl s(4)]) (use 4(4) s(5) in auto)
    ultimately show ?thesis using s by (subst check_array_step) (auto simp del: split_paired_Ex)
  qed (subst check_array_step, simp)
qed

lemma check_value_iff:
  "checkAdapterJSONValue d k = Inr d' \<longleftrightarrow> (\<exists>v. next_value d = Some (v, d') \<and> config_tree v k)"
  using check_sound(1) [of d k d'] check_complete(1) [of _ _ _ d' k d] unfolding next_value_token by blast

subsection \<open>Shapes\<close>

text \<open>
  What \<open>checkConfigShape\<close> reads of a \<open>reflect.Type\<close>: pointers, maps and slices with their
  element types, structs with the JSON name of each exported field and whether it is
  tagged \<open>omitempty\<close>, and every other kind.
\<close>

datatype shape =
    Plain
  | Pointer shape
  | MapOf shape
  | SliceOf shape
  | Struct "(string \<times> bool \<times> shape) list"

primrec deref :: "shape \<Rightarrow> shape" where
  "deref Plain = Plain"
| "deref (Pointer t) = deref t"
| "deref (MapOf t) = MapOf t"
| "deref (SliceOf t) = SliceOf t"
| "deref (Struct fs) = Struct fs"

fun missing_field :: "(string \<times> bool \<times> shape) list \<Rightarrow> (bytes \<times> jvalue) list \<Rightarrow> check" where
  "missing_field [] ms = Inr ()"
| "missing_field ((name, optional, t) # fs) ms =
     (if name \<notin> fst ` set ms \<and> \<not> optional then Inl (Errorf ''missing configuration field'')
      else missing_field fs ms)"

lemma member_sizes: "size_list (\<lambda>m. size (snd m)) ms \<le> size_list (size_prod (\<lambda>x. 0) size) (ms :: (bytes \<times> jvalue) list)"
  by (induction ms) auto

function (sequential) checkConfigShape :: "jvalue \<Rightarrow> shape \<Rightarrow> check"
  and check_members :: "(bytes \<times> jvalue) list \<Rightarrow> (string \<times> bool \<times> shape) list \<Rightarrow> check"
  and check_entries :: "(bytes \<times> jvalue) list \<Rightarrow> shape \<Rightarrow> check"
  and check_elements :: "jvalue list \<Rightarrow> shape \<Rightarrow> check" where
  "checkConfigShape v target =
     (case deref target of
        Struct fs \<Rightarrow> (case v of
            JObject ms \<Rightarrow> (case missing_field fs ms of Inl e \<Rightarrow> Inl e | Inr _ \<Rightarrow> check_members ms fs)
          | _ \<Rightarrow> Inl (Errorf ''expected configuration object''))
      | MapOf t \<Rightarrow> (case v of
            JObject ms \<Rightarrow> check_entries ms t
          | _ \<Rightarrow> Inl (Errorf ''expected configuration map''))
      | SliceOf t \<Rightarrow> (case v of
            JArray vs \<Rightarrow> check_elements vs t
          | _ \<Rightarrow> Inl (Errorf ''expected configuration array''))
      | _ \<Rightarrow> Inr ())"
| "check_members [] fs = Inr ()"
| "check_members ((name, child) # ms) fs =
     (case map_of fs name of
        None \<Rightarrow> Inl (Errorf ''unknown configuration field'')
      | Some (optional, t) \<Rightarrow> (case checkConfigShape child t of
            Inl e \<Rightarrow> Inl (Wrapf ''field'' e) | Inr _ \<Rightarrow> check_members ms fs))"
| "check_entries [] t = Inr ()"
| "check_entries ((key, child) # ms) t =
     (case checkConfigShape child t of Inl e \<Rightarrow> Inl (Wrapf ''key'' e) | Inr _ \<Rightarrow> check_entries ms t)"
| "check_elements [] t = Inr ()"
| "check_elements (child # vs) t =
     (case checkConfigShape child t of Inl e \<Rightarrow> Inl e | Inr _ \<Rightarrow> check_elements vs t)"
  by pat_completeness auto
termination checkConfigShape
  by (relation "measure (\<lambda>x. case x of
        Inl (Inl (v, t)) \<Rightarrow> 2 * size v
      | Inl (Inr (ms, fs)) \<Rightarrow> 2 * size_list (\<lambda>m. size (snd m)) ms + 1
      | Inr (Inl (ms, t)) \<Rightarrow> 2 * size_list (\<lambda>m. size (snd m)) ms + 1
      | Inr (Inr (vs, t)) \<Rightarrow> 2 * size_list size vs + 1)")
    (auto simp: member_sizes le_imp_less_Suc)

declare checkConfigShape.simps [simp del]

text \<open>The values a type admits.\<close>

inductive conforms :: "jvalue \<Rightarrow> shape \<Rightarrow> bool" where
  plain: "conforms v Plain"
| pointer: "conforms v t \<Longrightarrow> conforms v (Pointer t)"
| map_of_values: "(\<And>m. m \<in> set ms \<Longrightarrow> conforms (snd m) t) \<Longrightarrow> conforms (JObject ms) (MapOf t)"
| slice: "(\<And>v. v \<in> set vs \<Longrightarrow> conforms v t) \<Longrightarrow> conforms (JArray vs) (SliceOf t)"
| struct: "(\<And>f. f \<in> set fs \<Longrightarrow> fst (snd f) \<or> fst f \<in> fst ` set ms) \<Longrightarrow>
     (\<And>m. m \<in> set ms \<Longrightarrow> \<exists>optional t. map_of fs (fst m) = Some (optional, t) \<and> conforms (snd m) t) \<Longrightarrow>
     conforms (JObject ms) (Struct fs)"

inductive_simps conforms_simps:
  "conforms v Plain" "conforms v (Pointer t)" "conforms v (MapOf t)" "conforms v (SliceOf t)"
  "conforms v (Struct fs)"

lemma conforms_deref: "conforms v (deref t) \<longleftrightarrow> conforms v t"
  by (induction t) (simp_all add: conforms_simps)

lemma missing_field_iff:
  "missing_field fs ms = Inr () \<longleftrightarrow> (\<forall>f\<in>set fs. fst (snd f) \<or> fst f \<in> fst ` set ms)"
  by (induction fs ms rule: missing_field.induct) auto

lemma conforms_kinds:
  "conforms v (Struct fs) \<longleftrightarrow> (\<exists>ms. v = JObject ms \<and> missing_field fs ms = Inr () \<and>
     (\<forall>m\<in>set ms. \<exists>optional t. map_of fs (fst m) = Some (optional, t) \<and> conforms (snd m) t))"
  "conforms v (MapOf t) \<longleftrightarrow> (\<exists>ms. v = JObject ms \<and> (\<forall>m\<in>set ms. conforms (snd m) t))"
  "conforms v (SliceOf t) \<longleftrightarrow> (\<exists>vs. v = JArray vs \<and> (\<forall>w\<in>set vs. conforms w t))"
  "conforms v Plain"
  unfolding missing_field_iff by (auto simp: conforms_simps Ball_def)

lemma checkConfigShape_iff:
  "checkConfigShape v t = Inr () \<longleftrightarrow> conforms v t"
  "check_members ms fs = Inr () \<longleftrightarrow>
     (\<forall>m\<in>set ms. \<exists>optional t. map_of fs (fst m) = Some (optional, t) \<and> conforms (snd m) t)"
  "check_entries ms t = Inr () \<longleftrightarrow> (\<forall>m\<in>set ms. conforms (snd m) t)"
  "check_elements vs t = Inr () \<longleftrightarrow> (\<forall>v\<in>set vs. conforms v t)"
proof (induction v t and ms fs and ms t and vs t
    rule: checkConfigShape_check_members_check_entries_check_elements.induct)
  case (1 v t)
  have nd: "deref t \<noteq> Pointer u" for u by (induction t) auto
  have "checkConfigShape v t = Inr () \<longleftrightarrow> conforms v (deref t)"
    unfolding checkConfigShape.simps [of v t]
    using 1 nd by (cases "deref t"; cases v) (simp_all add: conforms_kinds res_simps cong: conj_cong)
  then show ?case by (simp add: conforms_deref)
next
  case (3 name child ms fs)
  then show ?case by (cases "map_of fs name") (auto simp: res_simps, fastforce)
qed (auto simp: res_simps split: sum.splits)

subsection \<open>DecodeConfigJSON\<close>

text \<open>
  The destination is described by its shape, its field table and its value before decoding;
  it is a non-nil pointer at every call of the program.
\<close>

definition DecodeConfigJSON :: "shape \<Rightarrow> 'a table \<Rightarrow> 'a \<Rightarrow> bytes \<Rightarrow> 'a res" where
  "DecodeConfigJSON target tbl x data =
     (if length data > 1024 * 1024 \<or> \<not> utf8_valid data
        then Inl (Errorf ''configuration exceeds 1 MiB or contains invalid UTF-8'')
      else case validateSurrogates data of
        Inl e \<Rightarrow> Inl (Wrapf ''invalid configuration Unicode'' e)
      | Inr _ \<Rightarrow>
          if length (TrimSpace data) < 2 \<or> TrimSpace data ! 0 \<noteq> CHR ''{''
            then Inl (Errorf ''expected exactly one JSON object'')
          else (case checkAdapterJSONValue (NewDecoder data) 0 of
              Inl e \<Rightarrow> Inl e
            | Inr d \<Rightarrow>
                if fst (Token d) \<noteq> Inl EOF then Inl (Errorf ''expected exactly one JSON object'')
                else (case Decode_first data of
                    None \<Rightarrow> Inl (Errorf ''invalid JSON'')
                  | Some v \<Rightarrow> (case checkConfigShape v target of
                      Inl e \<Rightarrow> Inl e
                    | Inr _ \<Rightarrow> (case decode_struct tbl v x of
                        None \<Rightarrow> Inl (Errorf ''cannot unmarshal configuration'')
                      | Some y \<Rightarrow> Inr y)))))"

lemma value_end:
  assumes "next_value (NewDecoder data) = Some (v, d)"
  shows "fst (Token d) = Inl EOF \<longleftrightarrow> skip_ws (fst d) = []"
proof -
  from assms obtain t d1 where t: "Token (NewDecoder data) = (Inr t, d1)" and b: "build d1 t = Some (v, d)"
    by (auto simp: next_value_token)
  have "snd d = (TopValue, [])"
  proof (cases t)
    case (Delim c)
    with b open_token [of data c d1] t build_post(1) [OF b] show ?thesis by (auto simp: tokenValueEnd_def)
  next
    case (Scalar w)
    with b Token_post [OF t [unfolded NewDecoder_def]] show ?thesis
      by (simp add: token_post_def tokenValueEnd_def)
  qed
  then obtain buf where d: "d = (buf, TopValue, [])" by (cases d) auto
  show ?thesis unfolding d
    by (cases "skip_ws buf") (auto simp: Token.simps tokenValueAllowed_def split: if_splits option.splits)
qed

lemma DecodeConfigJSON_iff:
  "DecodeConfigJSON target tbl x data = Inr y \<longleftrightarrow>
     length data \<le> 1024 * 1024 \<and> utf8_valid data \<and> validateSurrogates data = Inr () \<and>
     2 \<le> length (TrimSpace data) \<and> TrimSpace data ! 0 = CHR ''{'' \<and>
     (\<exists>v. Unmarshal data = Some v \<and> config_tree v 0 \<and> conforms v target \<and> decode_struct tbl v x = Some y)"
    (is "?l \<longleftrightarrow> ?r")
proof -
  let ?c = "length data \<le> 1024 * 1024 \<and> utf8_valid data \<and> validateSurrogates data = Inr () \<and>
     2 \<le> length (TrimSpace data) \<and> TrimSpace data ! 0 = CHR ''{''"
  have "?l \<longleftrightarrow> ?c \<and> (\<exists>d v. checkAdapterJSONValue (NewDecoder data) 0 = Inr d \<and> fst (Token d) = Inl EOF \<and>
      Decode_first data = Some v \<and> checkConfigShape v target = Inr () \<and> decode_struct tbl v x = Some y)"
    unfolding DecodeConfigJSON_def by (auto simp: not_le split: sum.splits option.splits)
  also have "(\<exists>d v. checkAdapterJSONValue (NewDecoder data) 0 = Inr d \<and> fst (Token d) = Inl EOF \<and>
      Decode_first data = Some v \<and> checkConfigShape v target = Inr () \<and> decode_struct tbl v x = Some y) \<longleftrightarrow>
      (\<exists>v. Unmarshal data = Some v \<and> config_tree v 0 \<and> conforms v target \<and> decode_struct tbl v x = Some y)"
    unfolding check_value_iff checkConfigShape_iff(1)
    by (auto simp: Decode_first_def Unmarshal_def value_end split: option.splits)
  finally show ?thesis by blast
qed

text \<open>
  Property C18: \<open>DecodeConfigJSON\<close> accepts exactly the documents of at most 1 MiB that are valid
  UTF-8 without lone surrogates and hold one JSON object, without nulls, without repeated keys
  at any depth, nested at most 64 deep, whose members have exactly the required and the
  optional fields of the destination type, recursively; the result is what decoding that one
  object stores.
\<close>

theorem DecodeConfigJSON_exact:
  "DecodeConfigJSON target tbl x data = Inr y \<longleftrightarrow>
     length data \<le> 1048576 \<and> utf8_valid data \<and> validateSurrogates data = Inr () \<and>
     2 \<le> length (TrimSpace data) \<and> TrimSpace data ! 0 = CHR ''{'' \<and>
     (\<exists>v. Unmarshal data = Some v \<and> config_tree v 0 \<and> conforms v target \<and> decode_struct tbl v x = Some y)"
  using DecodeConfigJSON_iff [of target tbl x data y] by simp

text \<open>Printed objects are not changed by \<open>bytes.TrimSpace\<close>.\<close>

lemma runes_append: "utf8_valid a \<Longrightarrow> runes (a @ b) = runes a @ runes b"
proof (induction a rule: utf8_valid.induct)
  case (2 c cs)
  then obtain r n where d: "decode_rune (c # cs) = Some (r, n)" and v: "utf8_valid (drop n (c # cs))"
    by (auto simp: utf8_valid.simps(2) split: option.splits)
  have n: "n \<le> length (c # cs)" using decode_rune_width [OF d] by simp
  have "decode_rune ((c # cs) @ b) = Some (r, n)" using decode_rune_append [OF d] .
  moreover have "runes (drop n (c # cs) @ b) = runes (drop n (c # cs)) @ runes b"
    using 2(1) [OF d refl v] .
  moreover have "take n ((c # cs) @ b) = take n (c # cs)" "drop n ((c # cs) @ b) = drop n (c # cs) @ b"
    using n by (simp_all only: take_append drop_append) simp_all
  ultimately show ?case using d by (simp add: runes.simps(2))
qed simp

lemma utf8_members:
  assumes "jwf (JObject ms)"
  shows "utf8_valid (join (CHR '','') (map (\<lambda>(k, s). json_quote k @ '':'' @ s) (map (map_prod id json_print) ms)))"
proof -
  have "utf8_valid (json_quote k @ '':'' @ json_print v)" if "(k, v) \<in> set ms" for k v
    using assms that utf8_print [of v] by (auto simp: utf8_valid_append utf8_quote)
  then show ?thesis by (auto intro!: utf8_join)
qed

lemma TrimSpace_object:
  assumes "utf8_valid (CHR ''{'' # s)"
  shows "TrimSpace (CHR ''{'' # s @ ''}'') = CHR ''{'' # s @ ''}''"
proof -
  have "runes (CHR ''{'' # s @ ''}'') = (123, ''{'') # runes (s @ ''}'')" by simp
  moreover have "runes (s @ ''}'') = runes s @ [(125, ''}'')]"
    using assms runes_append [of s "''}''"] by simp
  ultimately show ?thesis
    by (simp add: TrimSpace_def IsSpace_def dropWhile_append3 runes_concat)
qed

lemma DecodeConfigJSON_print:
  assumes "config_tree (JObject ms) 0" "jwf (JObject ms)" "conforms (JObject ms) target"
    "decode_members tbl ms x = Some y" "length (json_print (JObject ms)) \<le> 1024 * 1024"
  shows "DecodeConfigJSON target tbl x (json_print (JObject ms)) = Inr y"
proof -
  obtain s where s: "json_print (JObject ms) = CHR ''{'' # s @ ''}''" and v: "utf8_valid s"
    using utf8_members [OF assms(2)] by simp
  have u: "utf8_valid (json_print (JObject ms))" by (rule utf8_print [OF assms(2)])
  have "utf8_valid (CHR ''{'' # s)" using v by simp
  then have t: "TrimSpace (json_print (JObject ms)) = json_print (JObject ms)"
    unfolding s by (rule TrimSpace_object)
  have "validateSurrogates (json_print (JObject ms)) = Inr ()"
    using surrogates_print [OF assms(2), of "[]"] by (simp add: validateSurrogates_def del: json_print.simps)
  moreover have "2 \<le> length (json_print (JObject ms))" "json_print (JObject ms) ! 0 = CHR ''{''"
    unfolding s by simp_all
  ultimately show ?thesis
    unfolding DecodeConfigJSON_iff t using assms u Unmarshal_print [OF assms(2)]
    by (simp add: decode_struct_def del: json_print.simps)
qed

text \<open>A struct and the JSON object that \<open>json.Marshal\<close> writes for it, decoded with \<open>DecodeConfigJSON\<close>.\<close>

locale config_struct =
  fixes target :: shape and tbl :: "'a table" and zero :: 'a
    and members :: "'a \<Rightarrow> (bytes \<times> jvalue) list" and good :: "'a \<Rightarrow> bool"
  assumes tree: "good x \<Longrightarrow> config_tree (JObject (members x)) 0"
    and wf: "good x \<Longrightarrow> jwf (JObject (members x))"
    and shape: "good x \<Longrightarrow> conforms (JObject (members x)) target"
    and decode: "good x \<Longrightarrow> decode_members tbl (members x) zero = Some x"
begin

lemma decode_print:
  "good x \<Longrightarrow> length (json_print (JObject (members x))) \<le> 1024 * 1024 \<Longrightarrow>
     DecodeConfigJSON target tbl zero (json_print (JObject (members x))) = Inr x"
  by (rule DecodeConfigJSON_print [OF tree wf shape decode])

end

end
