(* ===== verification/Limits.thy ===== *)
theory Limits
  imports Protocol "HOL-Library.AList" "HOL-Library.Multiset"
begin

text \<open>
  \<open>src/limits.go\<close>: the server's limits with their defaults and bounds, and the per-peer
  limiter; \<open>src/server.go\<close>: the accept loop of \<open>Serve\<close> as an interleaving of its goroutines.
  Times are nanoseconds since Go's zero time, durations are nanoseconds.
\<close>

subsection \<open>Server limits\<close>

definition Second :: int where
  "Second = 1000000000"

definition Minute :: int where
  "Minute = 60 * Second"

definition Hour :: int where
  "Hour = 60 * Minute"

definition DefaultMaxBytes :: int where
  "DefaultMaxBytes = 2 ^ 30"

record Server =
  s_Authority :: string
  s_Timeout :: int
  s_MaxConnections :: int
  s_MaxConnectionsPerPeer :: int
  s_MaxRequestsPerSession :: "32 word"
  s_MaxBytes :: int
  s_RequestsPerMinute :: int
  s_HandshakeTimeout :: int
  s_IdleTimeout :: int
  s_SessionTimeout :: int

text \<open>The defaults; the per-peer default depends on the defaulted total.\<close>

definition server_defaults :: "Server \<Rightarrow> Server" where
  "server_defaults s =
     (let maxConnections = if s_MaxConnections s = 0 then 64 else s_MaxConnections s
      in \<lparr>s_Authority = s_Authority s,
          s_Timeout = (if s_Timeout s = 0 then 30 * Second else s_Timeout s),
          s_MaxConnections = maxConnections,
          s_MaxConnectionsPerPeer = (if s_MaxConnectionsPerPeer s = 0 then min 16 maxConnections
             else s_MaxConnectionsPerPeer s),
          s_MaxRequestsPerSession = (if s_MaxRequestsPerSession s = 0 then 128
             else s_MaxRequestsPerSession s),
          s_MaxBytes = (if s_MaxBytes s = 0 then DefaultMaxBytes else s_MaxBytes s),
          s_RequestsPerMinute = (if s_RequestsPerMinute s = 0 then 120 else s_RequestsPerMinute s),
          s_HandshakeTimeout = (if s_HandshakeTimeout s = 0 then 5 * Second
             else s_HandshakeTimeout s),
          s_IdleTimeout = (if s_IdleTimeout s = 0 then 30 * Second else s_IdleTimeout s),
          s_SessionTimeout = (if s_SessionTimeout s = 0 then 5 * Minute
             else s_SessionTimeout s)\<rparr>)"

definition configured :: "Server \<Rightarrow> Server res" where
  "configured s0 =
     (if s_Timeout s0 < 0 \<or> s_HandshakeTimeout s0 < 0 \<or> s_IdleTimeout s0 < 0 \<or>
         s_SessionTimeout s0 < 0 \<or> s_MaxConnections s0 < 0 \<or> s_MaxConnectionsPerPeer s0 < 0 \<or>
         s_MaxBytes s0 < 0 \<or> s_RequestsPerMinute s0 < 0
      then Inl (Errorf ''server limits cannot be negative'')
      else let s = server_defaults s0 in
        if s_MaxConnections s > 4096 \<or> s_MaxConnectionsPerPeer s > s_MaxConnections s \<or>
           s_MaxRequestsPerSession s > 1000000 \<or> s_MaxBytes s > MaxResourceSize \<or>
           s_RequestsPerMinute s > 1000000 \<or> s_HandshakeTimeout s > Minute \<or>
           s_IdleTimeout s > Hour \<or> s_Timeout s > Hour \<or> s_SessionTimeout s > 24 * Hour
        then Inl (Errorf ''server limits exceed supported bounds'')
        else Inr s)"

subsection \<open>The peer limiter\<close>

definition maxTrackedPeers :: nat where
  "maxTrackedPeers = 4096"

definition maxConnectionsPerPeerMinute :: int where
  "maxConnectionsPerPeerMinute = 240"

text \<open>\<open>Time.Sub\<close> saturates at the ends of \<open>Duration\<close>.\<close>

definition Sub :: "int \<Rightarrow> int \<Rightarrow> int" where
  "Sub t u = max (- (2 ^ 63)) (min (2 ^ 63 - 1) (t - u))"

record peerBudget =
  pb_active :: int
  pb_window :: int
  pb_connections :: int
  pb_requests :: int

record peerLimiter =
  pl_peers :: "(string \<times> peerBudget) list"
  pl_maximum :: int
  pl_requests :: int
  pl_lastPrune :: int

definition newPeerLimiter :: "int \<Rightarrow> int \<Rightarrow> peerLimiter" where
  "newPeerLimiter maximum requests =
     \<lparr>pl_peers = [], pl_maximum = maximum, pl_requests = requests, pl_lastPrune = 0\<rparr>"

definition resetBudget :: "peerBudget \<Rightarrow> int \<Rightarrow> peerBudget" where
  "resetBudget b now =
     (if Sub now (pb_window b) \<ge> Minute
      then b\<lparr>pb_window := now, pb_connections := 0, pb_requests := 0\<rparr> else b)"

definition prune :: "(string \<times> peerBudget) list \<Rightarrow> int \<Rightarrow> (string \<times> peerBudget) list" where
  "prune ps now = filter (\<lambda>(name, c). \<not> (pb_active c = 0 \<and> Sub now (pb_window c) \<ge> Minute)) ps"

text \<open>The second half of \<open>acquire\<close>, from \<open>resetBudget\<close> on, for the entry of the peer.\<close>

definition charge :: "peerLimiter \<Rightarrow> string \<Rightarrow> peerBudget \<Rightarrow> int \<Rightarrow> bool \<times> peerLimiter" where
  "charge l key budget now =
     (let b = resetBudget budget now
      in if pb_active b \<ge> pl_maximum l \<or> pb_connections b \<ge> maxConnectionsPerPeerMinute
         then (False, l\<lparr>pl_peers := AList.update key b (pl_peers l)\<rparr>)
         else (True, l\<lparr>pl_peers := AList.update key
                 (b\<lparr>pb_active := pb_active b + 1, pb_connections := pb_connections b + 1\<rparr>) (pl_peers l)\<rparr>))"

definition acquire :: "peerLimiter \<Rightarrow> string \<Rightarrow> int \<Rightarrow> bool \<times> peerLimiter" where
  "acquire l key now =
     (case map_of (pl_peers l) key of
        Some budget \<Rightarrow> charge l key budget now
      | None \<Rightarrow>
          (let l1 = if length (pl_peers l) \<ge> maxTrackedPeers \<and> Sub now (pl_lastPrune l) \<ge> Second
                    then l\<lparr>pl_peers := prune (pl_peers l) now, pl_lastPrune := now\<rparr> else l
           in if length (pl_peers l1) \<ge> maxTrackedPeers then (False, l1)
              else charge l1 key
                \<lparr>pb_active = 0, pb_window = now, pb_connections = 0, pb_requests = 0\<rparr> now))"

definition release :: "peerLimiter \<Rightarrow> string \<Rightarrow> peerLimiter" where
  "release l key =
     (case map_of (pl_peers l) key of
        Some b \<Rightarrow> if pb_active b > 0
          then l\<lparr>pl_peers := AList.update key (b\<lparr>pb_active := pb_active b - 1\<rparr>) (pl_peers l)\<rparr> else l
      | None \<Rightarrow> l)"

definition allowRequest :: "peerLimiter \<Rightarrow> string \<Rightarrow> int \<Rightarrow> bool \<times> peerLimiter" where
  "allowRequest l key now =
     (case map_of (pl_peers l) key of
        None \<Rightarrow> (False, l)
      | Some b0 \<Rightarrow>
          (let b = resetBudget b0 now
           in if pb_requests b \<ge> pl_requests l
              then (False, l\<lparr>pl_peers := AList.update key b (pl_peers l)\<rparr>)
              else (True, l\<lparr>pl_peers := AList.update key
                      (b\<lparr>pb_requests := pb_requests b + 1\<rparr>) (pl_peers l)\<rparr>)))"

subsection \<open>The accept loop\<close>

text \<open>
  The state that the goroutines of \<open>Serve\<close> share: the limiter, the peer of the connection
  that the loop is admitting, the peers of the connections that hold a slot of the capacity
  channel, and the peers of connections that have given their slot back but not yet
  released their peer's budget.
\<close>

record serve_state =
  v_peers :: peerLimiter
  v_admitting :: "string option"
  v_serving :: "string multiset"
  v_leaving :: "string multiset"

inductive serve_step :: "int \<Rightarrow> serve_state \<Rightarrow> serve_state \<Rightarrow> bool" for maxConns :: int where
  refuse: "v_admitting v = None \<Longrightarrow> acquire (v_peers v) key now = (False, l) \<Longrightarrow>
     serve_step maxConns v (v\<lparr>v_peers := l\<rparr>)"
| admit: "v_admitting v = None \<Longrightarrow> acquire (v_peers v) key now = (True, l) \<Longrightarrow>
     serve_step maxConns v (v\<lparr>v_peers := l, v_admitting := Some key\<rparr>)"
| start: "v_admitting v = Some key \<Longrightarrow> int (size (v_serving v)) < maxConns \<Longrightarrow>
     serve_step maxConns v (v\<lparr>v_admitting := None, v_serving := add_mset key (v_serving v)\<rparr>)"
| full: "v_admitting v = Some key \<Longrightarrow> \<not> int (size (v_serving v)) < maxConns \<Longrightarrow>
     serve_step maxConns v (v\<lparr>v_peers := release (v_peers v) key, v_admitting := None\<rparr>)"
| ask: "key \<in># v_serving v \<Longrightarrow> allowRequest (v_peers v) key now = (granted, l) \<Longrightarrow>
     serve_step maxConns v (v\<lparr>v_peers := l\<rparr>)"
| leave: "key \<in># v_serving v \<Longrightarrow>
     serve_step maxConns v
       (v\<lparr>v_serving := v_serving v - {#key#}, v_leaving := add_mset key (v_leaving v)\<rparr>)"
| forget: "key \<in># v_leaving v \<Longrightarrow>
     serve_step maxConns v
       (v\<lparr>v_peers := release (v_peers v) key, v_leaving := v_leaving v - {#key#}\<rparr>)"

definition serve_init :: "Server \<Rightarrow> serve_state" where
  "serve_init s =
     \<lparr>v_peers = newPeerLimiter (s_MaxConnectionsPerPeer s) (s_RequestsPerMinute s),
      v_admitting = None, v_serving = {#}, v_leaving = {#}\<rparr>"

inductive serve_reach :: "Server \<Rightarrow> serve_state \<Rightarrow> bool" for s :: Server where
  init: "serve_reach s (serve_init s)"
| step: "serve_reach s v \<Longrightarrow> serve_step (s_MaxConnections s) v v' \<Longrightarrow> serve_reach s v'"

inductive_cases serve_stepE: "serve_step n v v'"

subsection \<open>The limiter keeps its bounds\<close>

lemma length_update:
  "length (AList.update k v al) = (if k \<in> fst ` set al then length al else Suc (length al))"
  by (induction al) auto

lemma map_of_filter_distinct:
  "distinct (map fst ps) \<Longrightarrow>
     map_of (filter P ps) k = (case map_of ps k of Some b \<Rightarrow> if P (k, b) then Some b else None | None \<Rightarrow> None)"
proof (induction ps)
  case (Cons p ps)
  obtain k' b' where p: "p = (k', b')" by fastforce
  have "map_of ps k' = None" using Cons.prems p by (simp add: map_of_eq_None_iff)
  with Cons p show ?case by (auto split: option.splits)
qed simp

definition budget_ok :: "peerLimiter \<Rightarrow> peerBudget \<Rightarrow> bool" where
  "budget_ok l b \<longleftrightarrow> 0 \<le> pb_active b \<and> pb_active b \<le> pl_maximum l \<and>
     0 \<le> pb_connections b \<and> pb_connections b \<le> maxConnectionsPerPeerMinute \<and>
     0 \<le> pb_requests b \<and> pb_requests b \<le> pl_requests l"

definition lim_inv :: "peerLimiter \<Rightarrow> bool" where
  "lim_inv l \<longleftrightarrow> distinct (map fst (pl_peers l)) \<and> length (pl_peers l) \<le> maxTrackedPeers \<and>
     0 \<le> pl_maximum l \<and> 0 \<le> pl_requests l \<and>
     (\<forall>k b. map_of (pl_peers l) k = Some b \<longrightarrow> budget_ok l b)"

definition active_of :: "peerLimiter \<Rightarrow> string \<Rightarrow> nat" where
  "active_of l k = (case map_of (pl_peers l) k of Some b \<Rightarrow> nat (pb_active b) | None \<Rightarrow> 0)"

lemma resetBudget_ok: "0 \<le> pl_requests l \<Longrightarrow> budget_ok l b \<Longrightarrow> budget_ok l (resetBudget b now)"
  by (simp add: resetBudget_def budget_ok_def maxConnectionsPerPeerMinute_def)

lemma resetBudget_active [simp]: "pb_active (resetBudget b now) = pb_active b"
  by (simp add: resetBudget_def)

lemma put_inv:
  assumes "lim_inv l" "budget_ok l b"
    "map_of (pl_peers l) k \<noteq> None \<or> length (pl_peers l) < maxTrackedPeers"
  shows "lim_inv (l\<lparr>pl_peers := AList.update k b (pl_peers l)\<rparr>)"
proof -
  have "length (AList.update k b (pl_peers l)) \<le> maxTrackedPeers"
    using assms by (auto simp: length_update lim_inv_def map_of_eq_None_iff)
  then show ?thesis using assms
    by (auto simp: lim_inv_def distinct_update update_conv budget_ok_def split: if_splits)
qed

lemma put_active:
  "active_of (l\<lparr>pl_peers := AList.update k b (pl_peers l)\<rparr>) = (active_of l)(k := nat (pb_active b))"
  by (auto simp: active_of_def update_conv fun_eq_iff)

lemma charge_spec:
  assumes "lim_inv l" "budget_ok l b0"
    "map_of (pl_peers l) k \<noteq> None \<or> length (pl_peers l) < maxTrackedPeers"
    "active_of l k = nat (pb_active b0)" "charge l k b0 now = (g, l')"
  shows "lim_inv l' \<and> pl_maximum l' = pl_maximum l \<and> pl_requests l' = pl_requests l \<and>
    active_of l' = (if g then (active_of l)(k := Suc (active_of l k)) else active_of l)"
proof -
  let ?b = "resetBudget b0 now"
  have ok: "budget_ok l ?b" using assms(1,2) by (simp add: resetBudget_ok lim_inv_def)
  have upd: "(active_of l)(k := active_of l k) = active_of l" by simp
  show ?thesis
  proof (cases g)
    case True
    let ?b' = "?b\<lparr>pb_active := pb_active ?b + 1, pb_connections := pb_connections ?b + 1\<rparr>"
    from True assms(5) have l': "l' = l\<lparr>pl_peers := AList.update k ?b' (pl_peers l)\<rparr>"
      and c: "pb_active ?b < pl_maximum l" "pb_connections ?b < maxConnectionsPerPeerMinute"
      by (auto simp: charge_def Let_def split: if_splits)
    have "budget_ok l ?b'" using ok c by (simp add: budget_ok_def)
    from put_inv [OF assms(1) this assms(3)] put_active [of k ?b' l] assms(2,4) True show ?thesis
      by (simp add: l' budget_ok_def nat_add_distrib)
  next
    case False
    with assms(5) have l': "l' = l\<lparr>pl_peers := AList.update k ?b (pl_peers l)\<rparr>"
      by (auto simp: charge_def Let_def split: if_splits)
    from put_inv [OF assms(1) ok assms(3)] put_active [of k ?b l] assms(4) False upd show ?thesis
      by (simp add: l')
  qed
qed

lemma prune_inv:
  assumes "lim_inv l"
  shows "lim_inv (l\<lparr>pl_peers := prune (pl_peers l) now, pl_lastPrune := t\<rparr>)"
    "active_of (l\<lparr>pl_peers := prune (pl_peers l) now, pl_lastPrune := t\<rparr>) = active_of l"
proof -
  have d: "distinct (map fst (pl_peers l))" using assms by (simp add: lim_inv_def)
  have "length (prune (pl_peers l) now) \<le> maxTrackedPeers"
    using assms le_trans [OF length_filter_le] by (auto simp: lim_inv_def prune_def)
  moreover have "distinct (map fst (prune (pl_peers l) now))"
    unfolding prune_def using d by (rule distinct_map_filter)
  ultimately show "lim_inv (l\<lparr>pl_peers := prune (pl_peers l) now, pl_lastPrune := t\<rparr>)"
    using assms by (auto simp: lim_inv_def prune_def map_of_filter_distinct [OF d] budget_ok_def
        split: option.splits if_splits)
  show "active_of (l\<lparr>pl_peers := prune (pl_peers l) now, pl_lastPrune := t\<rparr>) = active_of l"
    by (auto simp: active_of_def fun_eq_iff prune_def map_of_filter_distinct [OF d]
        split: option.splits)
qed

lemma acquire_spec:
  assumes "lim_inv l" "acquire l k now = (g, l')"
  shows "lim_inv l' \<and> pl_maximum l' = pl_maximum l \<and> pl_requests l' = pl_requests l \<and>
    active_of l' = (if g then (active_of l)(k := Suc (active_of l k)) else active_of l)"
proof (cases "map_of (pl_peers l) k")
  case (Some b)
  with assms have "budget_ok l b" "charge l k b now = (g, l')" "active_of l k = nat (pb_active b)"
    by (auto simp: lim_inv_def acquire_def active_of_def)
  with charge_spec [OF assms(1)] Some show ?thesis by blast
next
  case None
  define l1 where "l1 = (if length (pl_peers l) \<ge> maxTrackedPeers \<and> Sub now (pl_lastPrune l) \<ge> Second
    then l\<lparr>pl_peers := prune (pl_peers l) now, pl_lastPrune := now\<rparr> else l)"
  let ?b = "\<lparr>pb_active = 0, pb_window = now, pb_connections = 0, pb_requests = 0\<rparr>"
  have i: "lim_inv l1" and a: "active_of l1 = active_of l"
    and m: "pl_maximum l1 = pl_maximum l" "pl_requests l1 = pl_requests l"
    using prune_inv [OF assms(1)] assms(1) by (simp_all add: l1_def)
  show ?thesis
  proof (cases "length (pl_peers l1) \<ge> maxTrackedPeers")
    case True
    with assms(2) None show ?thesis
      using i a m by (simp add: acquire_def Let_def l1_def [symmetric])
  next
    case False
    with assms(2) None have c: "charge l1 k ?b now = (g, l')"
      by (simp add: acquire_def Let_def l1_def [symmetric])
    have "budget_ok l1 ?b"
      using i by (simp add: budget_ok_def lim_inv_def maxConnectionsPerPeerMinute_def)
    moreover have "active_of l1 k = 0" using None a by (simp add: active_of_def)
    ultimately show ?thesis using charge_spec [OF i _ _ _ c] False m a by simp
  qed
qed

lemma release_spec:
  assumes "lim_inv l"
  shows "lim_inv (release l k) \<and> pl_maximum (release l k) = pl_maximum l \<and>
    pl_requests (release l k) = pl_requests l \<and>
    active_of (release l k) = (active_of l)(k := active_of l k - 1)"
proof (cases "map_of (pl_peers l) k")
  case None
  with assms show ?thesis by (auto simp: release_def active_of_def fun_eq_iff)
next
  case (Some b)
  with assms have ok: "budget_ok l b" by (simp add: lim_inv_def)
  show ?thesis
  proof (cases "pb_active b > 0")
    case True
    let ?b = "b\<lparr>pb_active := pb_active b - 1\<rparr>"
    have "budget_ok l ?b" using ok True by (simp add: budget_ok_def)
    from put_inv [OF assms this, of k] put_active [of k ?b l] Some True show ?thesis
      by (simp add: release_def active_of_def nat_diff_distrib)
  next
    case False
    with ok have "active_of l k = 0" using Some by (simp add: active_of_def)
    with Some False assms show ?thesis by (auto simp: release_def fun_eq_iff)
  qed
qed

lemma allowRequest_spec:
  assumes "lim_inv l" "allowRequest l k now = (g, l')"
  shows "lim_inv l' \<and> pl_maximum l' = pl_maximum l \<and> pl_requests l' = pl_requests l \<and>
    active_of l' = active_of l"
proof (cases "map_of (pl_peers l) k")
  case None
  with assms show ?thesis by (simp add: allowRequest_def)
next
  case (Some b0)
  let ?b = "resetBudget b0 now"
  let ?b' = "if g then ?b\<lparr>pb_requests := pb_requests ?b + 1\<rparr> else ?b"
  have ok: "budget_ok l ?b"
    using assms(1) Some by (auto simp: lim_inv_def intro: resetBudget_ok)
  have l': "l' = l\<lparr>pl_peers := AList.update k ?b' (pl_peers l)\<rparr>"
    and "g \<longrightarrow> pb_requests ?b < pl_requests l"
    using assms(2) Some by (auto simp: allowRequest_def Let_def split: if_splits)
  then have "budget_ok l ?b'" using ok by (auto simp: budget_ok_def)
  from put_inv [OF assms(1) this, of k] put_active [of k ?b' l] Some show ?thesis
    by (auto simp: l' active_of_def fun_eq_iff)
qed

subsection \<open>Admission control\<close>

text \<open>
  What the accept loop relies on: granting a connection counts it against its peer, giving
  it back uncounts it, and a peer never holds more than the limit. The lemmas say that the
  limiter implements the multiset of connections that are held.
\<close>

locale admission =
  fixes acq :: "'l \<Rightarrow> 'k \<Rightarrow> int \<Rightarrow> bool \<times> 'l"
    and rel :: "'l \<Rightarrow> 'k \<Rightarrow> 'l"
    and req :: "'l \<Rightarrow> 'k \<Rightarrow> int \<Rightarrow> bool \<times> 'l"
    and active :: "'l \<Rightarrow> 'k \<Rightarrow> nat"
    and inv :: "'l \<Rightarrow> bool"
    and limit :: "'l \<Rightarrow> nat"
  assumes acq_spec: "inv l \<Longrightarrow> acq l k now = (g, l') \<Longrightarrow> inv l' \<and> limit l' = limit l \<and>
      active l' = (if g then (active l)(k := Suc (active l k)) else active l)"
    and rel_spec: "inv l \<Longrightarrow> inv (rel l k) \<and> limit (rel l k) = limit l \<and>
      active (rel l k) = (active l)(k := active l k - 1)"
    and req_spec: "inv l \<Longrightarrow> req l k now = (g, l') \<Longrightarrow>
      inv l' \<and> limit l' = limit l \<and> active l' = active l"
    and within: "inv l \<Longrightarrow> active l k \<le> limit l"
begin

definition holds :: "'l \<Rightarrow> 'k multiset \<Rightarrow> bool" where
  "holds l M \<longleftrightarrow> inv l \<and> active l = count M"

lemma holds_bound: "holds l M \<Longrightarrow> count M k \<le> limit l"
  using within [of l k] by (simp add: holds_def)

lemma holds_acquire:
  "holds l M \<Longrightarrow> acq l k now = (g, l') \<Longrightarrow> holds l' (if g then add_mset k M else M)"
  using acq_spec [of l k now g l'] by (auto simp: holds_def fun_eq_iff)

lemma holds_release:
  "holds l (add_mset k M) \<Longrightarrow> holds (rel l k) M"
  using rel_spec [of l k] by (auto simp: holds_def fun_eq_iff)

lemma holds_request: "holds l M \<Longrightarrow> req l k now = (g, l') \<Longrightarrow> holds l' M"
  using req_spec [of l k now g l'] by (simp add: holds_def)

lemmas holds_intros = holds_acquire holds_release holds_request

end

interpretation peers: admission acquire release allowRequest active_of lim_inv
  "\<lambda>l. nat (pl_maximum l)"
proof unfold_locales
  fix l k
  assume "lim_inv l"
  then show "active_of l k \<le> nat (pl_maximum l)"
    by (auto simp: active_of_def lim_inv_def budget_ok_def split: option.splits intro: nat_mono)
qed (auto dest: acquire_spec allowRequest_spec simp: release_spec)

lemma new_limiter_holds:
  "0 \<le> m \<Longrightarrow> 0 \<le> r \<Longrightarrow> peers.holds (newPeerLimiter m r) {#}"
  by (simp add: peers.holds_def newPeerLimiter_def lim_inv_def active_of_def fun_eq_iff)

definition held :: "serve_state \<Rightarrow> string multiset" where
  "held v = (case v_admitting v of None \<Rightarrow> {#} | Some k \<Rightarrow> {#k#}) + v_serving v + v_leaving v"

definition serve_inv :: "Server \<Rightarrow> serve_state \<Rightarrow> bool" where
  "serve_inv s v \<longleftrightarrow> peers.holds (v_peers v) (held v) \<and>
     pl_maximum (v_peers v) = s_MaxConnectionsPerPeer s \<and>
     pl_requests (v_peers v) = s_RequestsPerMinute s \<and>
     int (size (v_serving v)) \<le> s_MaxConnections s"

lemma limiter_config:
  "acquire l k now = (g, l') \<Longrightarrow> lim_inv l \<Longrightarrow> pl_maximum l' = pl_maximum l \<and> pl_requests l' = pl_requests l"
  "allowRequest l k now = (g, l') \<Longrightarrow> lim_inv l \<Longrightarrow> pl_maximum l' = pl_maximum l \<and> pl_requests l' = pl_requests l"
  "lim_inv l \<Longrightarrow> pl_maximum (release l k) = pl_maximum l \<and> pl_requests (release l k) = pl_requests l"
  using acquire_spec allowRequest_spec release_spec by blast+

lemma serve_inv_step:
  assumes "serve_step (s_MaxConnections s) v v'" "serve_inv s v"
  shows "serve_inv s v'"
proof -
  have h: "peers.holds (v_peers v) (held v)" and i: "lim_inv (v_peers v)"
    using assms(2) by (simp_all add: serve_inv_def peers.holds_def)
  note cfg = limiter_config(1,2) [OF _ i] limiter_config(3) [OF i]
  from assms(1) show ?thesis
  proof cases
    case (refuse key now l)
    with peers.holds_acquire [OF h refuse(3)] cfg(1) [OF refuse(3)] assms(2) show ?thesis
      by (simp add: serve_inv_def held_def)
  next
    case (admit key now l)
    with peers.holds_acquire [OF h admit(3)] cfg(1) [OF admit(3)] assms(2) show ?thesis
      by (simp add: serve_inv_def held_def)
  next
    case (start key)
    with assms(2) show ?thesis by (simp add: serve_inv_def held_def)
  next
    case (full key)
    with h peers.holds_release [of "v_peers v" key "v_serving v + v_leaving v"] cfg assms(2)
    show ?thesis by (simp add: serve_inv_def held_def)
  next
    case (ask key now g l)
    with peers.holds_request [OF h ask(3)] cfg(2) [OF ask(3)] assms(2) show ?thesis
      by (simp add: serve_inv_def held_def)
  next
    case (leave key)
    then obtain M where M: "v_serving v = add_mset key M" by (metis multi_member_split)
    with leave assms(2) show ?thesis by (simp add: serve_inv_def held_def)
  next
    case (forget key)
    then obtain M where M: "v_leaving v = add_mset key M" by (metis multi_member_split)
    let ?rest = "(case v_admitting v of None \<Rightarrow> {#} | Some k \<Rightarrow> {#k#}) + v_serving v + M"
    have "held v = add_mset key ?rest" by (simp add: held_def M)
    with h peers.holds_release [of "v_peers v" key ?rest] cfg assms(2) forget M show ?thesis
      by (simp add: serve_inv_def held_def)
  qed
qed

lemma serve_inv_reach:
  "serve_reach s v \<Longrightarrow> 0 \<le> s_MaxConnections s \<Longrightarrow> 0 \<le> s_MaxConnectionsPerPeer s \<Longrightarrow>
     0 \<le> s_RequestsPerMinute s \<Longrightarrow> serve_inv s v"
proof (induction rule: serve_reach.induct)
  case init
  then show ?case
    using new_limiter_holds [of "s_MaxConnectionsPerPeer s" "s_RequestsPerMinute s"]
    by (simp add: serve_inv_def serve_init_def held_def newPeerLimiter_def)
next
  case (step v v')
  then show ?case using serve_inv_step by blast
qed

subsection \<open>Rates\<close>

text \<open>The operations on a limiter, as a trace with the times they read.\<close>

datatype lim_op = Acquire string int | Release string | Allow string int

fun op_time :: "lim_op \<Rightarrow> int option" where
  "op_time (Acquire k t) = Some t"
| "op_time (Release k) = None"
| "op_time (Allow k t) = Some t"

fun lim_exec :: "peerLimiter \<Rightarrow> lim_op \<Rightarrow> bool \<times> peerLimiter" where
  "lim_exec l (Acquire k t) = acquire l k t"
| "lim_exec l (Release k) = (True, release l k)"
| "lim_exec l (Allow k t) = allowRequest l k t"

text \<open>How many requests of one peer a trace of operations grants.\<close>

fun granted :: "string \<Rightarrow> peerLimiter \<Rightarrow> lim_op list \<Rightarrow> int" where
  "granted k l [] = 0"
| "granted k l (e # es) =
     (case lim_exec l e of (g, l') \<Rightarrow>
        (case e of Allow k' t \<Rightarrow> if k' = k \<and> g then 1 else 0 | _ \<Rightarrow> 0) + granted k l' es)"

text \<open>
  The requests granted since time \<open>T\<close>, bounded by what the peer's entry records: a window
  that opened at or after \<open>T\<close> may follow one earlier window, never two.
\<close>

definition spent :: "int \<Rightarrow> string \<Rightarrow> peerLimiter \<Rightarrow> int \<Rightarrow> bool" where
  "spent T k l n \<longleftrightarrow>
     (case map_of (pl_peers l) k of
        None \<Rightarrow> n \<le> pl_requests l
      | Some b \<Rightarrow> if pb_window b \<ge> T then n \<le> pl_requests l + pb_requests b else n \<le> pb_requests b)"

lemma Sub_window: "T \<le> w \<Longrightarrow> t < T + Minute \<Longrightarrow> \<not> Sub t w \<ge> Minute"
  by (auto simp: Sub_def Minute_def Second_def)

lemma spent_bound: "lim_inv l \<Longrightarrow> spent T k l n \<Longrightarrow> n \<le> 2 * pl_requests l"
  by (auto simp: spent_def lim_inv_def budget_ok_def split: option.splits if_splits) fastforce+

lemma spent_other:
  "k' \<noteq> k \<Longrightarrow> spent T k (l\<lparr>pl_peers := AList.update k' b (pl_peers l)\<rparr>) n = spent T k l n"
  by (simp add: spent_def update_conv split: option.splits)

lemma spent_reset:
  assumes "lim_inv l" "budget_ok l b" "T \<le> t" "t < T + Minute"
    "if pb_window b \<ge> T then n \<le> pl_requests l + pb_requests b else n \<le> pb_requests b"
  shows "if pb_window (resetBudget b t) \<ge> T then n \<le> pl_requests l + pb_requests (resetBudget b t)
    else n \<le> pb_requests (resetBudget b t)"
  using assms Sub_window [of T "pb_window b" t]
  by (auto simp: resetBudget_def budget_ok_def split: if_splits)

lemma spent_charge:
  assumes "lim_inv l" "budget_ok l b" "T \<le> t" "t < T + Minute" "charge l k' b t = (g, l')"
    "spent T k l n"
    "k' = k \<Longrightarrow> if pb_window b \<ge> T then n \<le> pl_requests l + pb_requests b else n \<le> pb_requests b"
  shows "spent T k l' n"
proof (cases "k' = k")
  case True
  with spent_reset [OF assms(1-4) assms(7)] assms(5) show ?thesis
    by (auto simp: charge_def Let_def spent_def update_conv split: if_splits)
next
  case False
  with assms(5,6) show ?thesis
    by (auto simp: charge_def Let_def spent_other split: if_splits)
qed

lemma spent_prune:
  assumes "lim_inv l" "t < T + Minute" "spent T k l n"
  shows "spent T k (l\<lparr>pl_peers := prune (pl_peers l) t, pl_lastPrune := u\<rparr>) n"
proof -
  have d: "distinct (map fst (pl_peers l))" using assms(1) by (simp add: lim_inv_def)
  have "\<forall>b. map_of (pl_peers l) k = Some b \<longrightarrow> pb_requests b \<le> pl_requests l"
    using assms(1) by (auto simp: lim_inv_def budget_ok_def)
  then show ?thesis using assms(3) Sub_window [OF _ assms(2)]
    by (fastforce simp: spent_def prune_def map_of_filter_distinct [OF d] split: option.splits if_splits)
qed

lemma spent_acquire:
  assumes "lim_inv l" "T \<le> t" "t < T + Minute" "acquire l k' t = (g, l')" "spent T k l n"
  shows "spent T k l' n"
proof (cases "map_of (pl_peers l) k'")
  case (Some b)
  with assms have "budget_ok l b" "charge l k' b t = (g, l')"
    by (auto simp: lim_inv_def acquire_def)
  moreover have "k' = k \<Longrightarrow>
      if pb_window b \<ge> T then n \<le> pl_requests l + pb_requests b else n \<le> pb_requests b"
    using assms(5) Some by (simp add: spent_def)
  ultimately show ?thesis using spent_charge [OF assms(1) _ assms(2,3) _ assms(5)] by blast
next
  case None
  define l1 where "l1 = (if length (pl_peers l) \<ge> maxTrackedPeers \<and> Sub t (pl_lastPrune l) \<ge> Second
    then l\<lparr>pl_peers := prune (pl_peers l) t, pl_lastPrune := t\<rparr> else l)"
  let ?b = "\<lparr>pb_active = 0, pb_window = t, pb_connections = 0, pb_requests = 0\<rparr>"
  have i: "lim_inv l1" and s: "spent T k l1 n" and m: "pl_requests l1 = pl_requests l"
    using prune_inv [OF assms(1)] assms(1) spent_prune [OF assms(1,3,5)] assms(5)
    by (simp_all add: l1_def)
  have n: "k' = k \<Longrightarrow> n \<le> pl_requests l" using assms(5) None by (simp add: spent_def)
  show ?thesis
  proof (cases "length (pl_peers l1) \<ge> maxTrackedPeers")
    case True
    with assms(4) None s show ?thesis by (simp add: acquire_def Let_def l1_def [symmetric])
  next
    case False
    with assms(4) None have c: "charge l1 k' ?b t = (g, l')"
      by (simp add: acquire_def Let_def l1_def [symmetric])
    have "budget_ok l1 ?b"
      using i by (simp add: budget_ok_def lim_inv_def maxConnectionsPerPeerMinute_def)
    from spent_charge [OF i this assms(2,3) c s] n m assms(2) show ?thesis by simp
  qed
qed

lemma spent_release: "spent T k (release l k') n = spent T k l n"
  by (auto simp: spent_def release_def update_conv split: option.splits)

lemma spent_allow:
  assumes "lim_inv l" "T \<le> t" "t < T + Minute" "allowRequest l k' t = (g, l')" "spent T k l n"
  shows "spent T k l' (n + (if k' = k \<and> g then 1 else 0))"
proof (cases "map_of (pl_peers l) k'")
  case None
  with assms show ?thesis by (auto simp: allowRequest_def)
next
  case (Some b)
  with assms(1) have ok: "budget_ok l b" by (simp add: lim_inv_def)
  show ?thesis
  proof (cases "k' = k")
    case True
    with Some assms(5) have
      "if pb_window b \<ge> T then n \<le> pl_requests l + pb_requests b else n \<le> pb_requests b"
      by (simp add: spent_def)
    from spent_reset [OF assms(1) ok assms(2,3) this] assms(4) Some True show ?thesis
      by (auto simp: allowRequest_def Let_def spent_def update_conv split: if_splits)
  next
    case False
    with assms(4,5) Some show ?thesis
      by (auto simp: allowRequest_def Let_def spent_other split: if_splits)
  qed
qed

lemma granted_bound:
  "lim_inv l \<Longrightarrow> spent T k l n \<Longrightarrow> \<forall>e\<in>set es. \<forall>t. op_time e = Some t \<longrightarrow> T \<le> t \<and> t < T + Minute \<Longrightarrow>
     n + granted k l es \<le> 2 * pl_requests l"
proof (induction es arbitrary: l n)
  case Nil
  then show ?case by (simp add: spent_bound)
next
  case (Cons e es)
  obtain g l' where e: "lim_exec l e = (g, l')" by fastforce
  let ?d = "(case e of Allow k' t \<Rightarrow> if k' = k \<and> g then 1 else 0 | _ \<Rightarrow> 0) :: int"
  have t: "op_time e = Some t \<Longrightarrow> T \<le> t \<and> t < T + Minute" for t using Cons.prems(3) by simp
  have l': "lim_inv l' \<and> pl_requests l' = pl_requests l \<and> spent T k l' (n + ?d)"
  proof (cases e)
    case (Acquire k' t')
    with e t [of t'] acquire_spec [OF Cons.prems(1)] spent_acquire [OF Cons.prems(1) _ _ _ Cons.prems(2)]
    show ?thesis by auto
  next
    case (Release k')
    with e release_spec [OF Cons.prems(1)] Cons.prems(2) spent_release show ?thesis by auto
  next
    case (Allow k' t')
    with e have a: "allowRequest l k' t' = (g, l')" by simp
    from spent_allow [OF Cons.prems(1) _ _ a Cons.prems(2)] t [of t']
      allowRequest_spec [OF Cons.prems(1) a] Allow show ?thesis by simp
  qed
  from Cons.IH [of l' "n + ?d"] l' Cons.prems(3) e show ?case by (simp add: add.assoc)
qed

subsection \<open>Properties\<close>

lemma server_defaults_simps:
  fixes s :: Server
  shows "s_Timeout (server_defaults s) = (if s_Timeout s = 0 then 30 * Second else s_Timeout s)"
    "s_HandshakeTimeout (server_defaults s) = (if s_HandshakeTimeout s = 0 then 5 * Second else s_HandshakeTimeout s)"
    "s_IdleTimeout (server_defaults s) = (if s_IdleTimeout s = 0 then 30 * Second else s_IdleTimeout s)"
    "s_SessionTimeout (server_defaults s) = (if s_SessionTimeout s = 0 then 5 * Minute else s_SessionTimeout s)"
    "s_MaxConnections (server_defaults s) = (if s_MaxConnections s = 0 then 64 else s_MaxConnections s)"
    "s_MaxConnectionsPerPeer (server_defaults s) = (if s_MaxConnectionsPerPeer s = 0 then min 16 (s_MaxConnections (server_defaults s))
       else s_MaxConnectionsPerPeer s)"
    "s_MaxRequestsPerSession (server_defaults s) = (if s_MaxRequestsPerSession s = 0 then 128
       else s_MaxRequestsPerSession s)"
    "s_MaxBytes (server_defaults s) = (if s_MaxBytes s = 0 then DefaultMaxBytes else s_MaxBytes s)"
    "s_RequestsPerMinute (server_defaults s) = (if s_RequestsPerMinute s = 0 then 120 else s_RequestsPerMinute s)"
    "s_Authority (server_defaults s) = s_Authority s"
  by (simp_all add: server_defaults_def Let_def)

lemma configured_nonneg:
  assumes "configured s0 = Inr s"
  shows "0 \<le> s_MaxConnections s" "0 \<le> s_MaxConnectionsPerPeer s" "0 \<le> s_RequestsPerMinute s"
proof -
  from assms have "s = server_defaults s0" "0 \<le> s_MaxConnections s0"
    "0 \<le> s_MaxConnectionsPerPeer s0" "0 \<le> s_RequestsPerMinute s0"
    by (auto simp: configured_def Let_def not_less split: if_splits)
  then show "0 \<le> s_MaxConnections s" "0 \<le> s_MaxConnectionsPerPeer s" "0 \<le> s_RequestsPerMinute s"
    by (simp_all add: server_defaults_simps)
qed

text \<open>
  Property C7: In every state that the accept loop and its workers can reach, in any
  interleaving, at most \<open>MaxConnections\<close> connections are served, no peer holds more than
  \<open>MaxConnectionsPerPeer\<close> of them, each peer's active count is exactly the connections it
  holds, and the limiter tracks at most 4096 peers.
\<close>

theorem serve_capacity:
  assumes "configured s0 = Inr s" "serve_reach s v"
  shows "int (size (v_serving v)) \<le> s_MaxConnections s \<and>
     (\<forall>k. int (count (v_serving v) k) \<le> s_MaxConnectionsPerPeer s) \<and>
     (\<forall>k. active_of (v_peers v) k = count (held v) k) \<and>
     length (pl_peers (v_peers v)) \<le> 4096"
proof -
  note pos = configured_nonneg [OF assms(1)]
  from serve_inv_reach [OF assms(2) pos] have i: "serve_inv s v" .
  then have h: "peers.holds (v_peers v) (held v)" by (simp add: serve_inv_def)
  have "int (count (v_serving v) k) \<le> s_MaxConnectionsPerPeer s" for k
    using peers.holds_bound [OF h, of k] i pos by (simp add: serve_inv_def held_def)
  with h i show ?thesis
    by (simp add: serve_inv_def peers.holds_def lim_inv_def maxTrackedPeers_def)
qed

definition sample_server :: Server where
  "sample_server = \<lparr>s_Authority = ''n.alpha'', s_Timeout = 0, s_MaxConnections = 2,
     s_MaxConnectionsPerPeer = 1, s_MaxRequestsPerSession = 0, s_MaxBytes = 0,
     s_RequestsPerMinute = 0, s_HandshakeTimeout = 0, s_IdleTimeout = 0, s_SessionTimeout = 0\<rparr>"

theorem serve_capacity_witness:
  "\<exists>s v. configured sample_server = Inr s \<and> serve_reach s v \<and> v_admitting v = Some ''a'' \<and>
     (\<forall>k. active_of (v_peers v) k = count (held v) k)"
proof -
  let ?s = "server_defaults sample_server"
  have c: "configured sample_server = Inr ?s"
    by (simp add: configured_def server_defaults_def sample_server_def Let_def Second_def Minute_def
        Hour_def DefaultMaxBytes_def MaxResourceSize_def)
  let ?l = "snd (acquire (v_peers (serve_init ?s)) ''a'' 0)"
  let ?v = "(serve_init ?s)\<lparr>v_peers := ?l, v_admitting := Some ''a''\<rparr>"
  have "acquire (v_peers (serve_init ?s)) ''a'' 0 = (True, ?l)"
    by (simp add: serve_init_def newPeerLimiter_def acquire_def charge_def resetBudget_def Let_def
        maxTrackedPeers_def server_defaults_def sample_server_def maxConnectionsPerPeerMinute_def)
  then have "serve_step (s_MaxConnections ?s) (serve_init ?s) ?v"
    by (intro serve_step.admit) (simp_all add: serve_init_def)
  then have r: "serve_reach ?s ?v" by (rule serve_reach.step [OF serve_reach.init])
  from serve_capacity [OF c r] c r show ?thesis
    by (intro exI [of _ ?s] exI [of _ ?v]) simp
qed

text \<open>
  Property C13: Reconnecting does not reset a peer's request budget: in any interval shorter
  than a minute, whatever connections come and go and whatever entries are evicted, the
  limiter grants one peer at most twice its requests per minute (two adjacent windows).
\<close>

theorem request_rate_bound:
  assumes "lim_inv l" "\<forall>e\<in>set es. \<forall>t. op_time e = Some t \<longrightarrow> T \<le> t \<and> t < T + Minute"
  shows "granted k l es \<le> 2 * pl_requests l"
proof -
  have "spent T k l 0"
    using assms(1) by (auto simp: spent_def lim_inv_def budget_ok_def split: option.splits)
  from granted_bound [OF assms(1) this assms(2)] show ?thesis by simp
qed

theorem request_rate_bound_witness:
  "granted ''a'' (newPeerLimiter 1 2)
     [Acquire ''a'' 0, Allow ''a'' 1, Allow ''a'' 2, Release ''a'', Acquire ''a'' 3, Allow ''a'' 4] = 2 \<and>
   granted ''a'' (newPeerLimiter 1 2)
     [Acquire ''a'' 0, Allow ''a'' 1, Allow ''a'' 2, Release ''a'', Acquire ''a'' 3, Allow ''a'' 4] \<le> 4"
proof -
  have "lim_inv (newPeerLimiter 1 2)"
    using new_limiter_holds [of 1 2] by (simp add: peers.holds_def)
  from request_rate_bound [OF this, of "[Acquire ''a'' 0, Allow ''a'' 1, Allow ''a'' 2, Release ''a'',
      Acquire ''a'' 3, Allow ''a'' 4]" 0 "''a''"]
  show ?thesis
    by (simp add: newPeerLimiter_def acquire_def charge_def resetBudget_def Let_def release_def
        allowRequest_def maxTrackedPeers_def maxConnectionsPerPeerMinute_def Minute_def Second_def
        Sub_def)
qed

text \<open>
  A configuration that \<open>configured\<close> accepts has every limit set and within its
  bounds, keeps each limit that the operator chose, and is a fixed point: applying
  \<open>configured\<close> again changes nothing.
\<close>

theorem configured_bounds:
  assumes "configured s0 = Inr s"
  shows "0 < s_Timeout s \<and> s_Timeout s \<le> Hour \<and> 0 < s_HandshakeTimeout s \<and>
     s_HandshakeTimeout s \<le> Minute \<and> 0 < s_IdleTimeout s \<and> s_IdleTimeout s \<le> Hour \<and>
     0 < s_SessionTimeout s \<and> s_SessionTimeout s \<le> 24 * Hour \<and>
     0 < s_MaxConnectionsPerPeer s \<and> s_MaxConnectionsPerPeer s \<le> s_MaxConnections s \<and>
     s_MaxConnections s \<le> 4096 \<and> 0 < unat (s_MaxRequestsPerSession s) \<and>
     unat (s_MaxRequestsPerSession s) \<le> 1000000 \<and> 0 < s_MaxBytes s \<and> s_MaxBytes s \<le> MaxResourceSize \<and>
     0 < s_RequestsPerMinute s \<and> s_RequestsPerMinute s \<le> 1000000 \<and>
     (s_MaxConnections s0 \<noteq> 0 \<longrightarrow> s_MaxConnections s = s_MaxConnections s0) \<and>
     (s_MaxBytes s0 \<noteq> 0 \<longrightarrow> s_MaxBytes s = s_MaxBytes s0) \<and>
     s_Authority s = s_Authority s0 \<and> configured s = Inr s"
proof -
  define d where "d = server_defaults s0"
  have nn: "0 \<le> s_Timeout s0" "0 \<le> s_HandshakeTimeout s0" "0 \<le> s_IdleTimeout s0"
    "0 \<le> s_SessionTimeout s0" "0 \<le> s_MaxConnections s0" "0 \<le> s_MaxConnectionsPerPeer s0"
    "0 \<le> s_MaxBytes s0" "0 \<le> s_RequestsPerMinute s0" and s: "s = d"
    and b: "s_MaxConnections d \<le> 4096" "s_MaxConnectionsPerPeer d \<le> s_MaxConnections d"
      "s_MaxRequestsPerSession d \<le> 1000000" "s_MaxBytes d \<le> MaxResourceSize"
      "s_RequestsPerMinute d \<le> 1000000" "s_HandshakeTimeout d \<le> Minute" "s_IdleTimeout d \<le> Hour"
      "s_Timeout d \<le> Hour" "s_SessionTimeout d \<le> 24 * Hour"
    using assms by (auto simp: configured_def Let_def d_def not_less split: if_splits)
  note f = server_defaults_simps [of s0, folded d_def]
  have p: "0 < s_Timeout d" "0 < s_HandshakeTimeout d" "0 < s_IdleTimeout d" "0 < s_SessionTimeout d"
    "0 < s_MaxConnections d" "0 < s_MaxBytes d" "0 < s_RequestsPerMinute d"
    "s_MaxRequestsPerSession d \<noteq> 0"
    using nn by (auto simp: f Second_def Minute_def DefaultMaxBytes_def)
  have pp: "0 < s_MaxConnectionsPerPeer d" using p(5) nn(6) by (auto simp: f(6))
  have w: "0 < unat (s_MaxRequestsPerSession d)" "unat (s_MaxRequestsPerSession d) \<le> 1000000"
    using p(8) b(3) by (simp_all add: unat_gt_0 word_le_nat_alt)
  have "server_defaults d = d"
    using p pp by (intro Server.equality) (simp_all add: server_defaults_simps)
  then have "configured d = Inr d"
    using p pp b by (simp add: configured_def Let_def not_less)
  then show ?thesis unfolding s using p pp w b f(5,8,10) by simp
qed

end
