(* ===== verification/Net.thy ===== *)
theory Net
  imports Adapters Limits
begin

text \<open>
  Internet addresses as \<open>net.ParseIP\<close> and \<open>net.IP\<close> treat them, and the peer key of
  \<open>src/limits.go\<close>. An IP is its 16 bytes; an IPv4 address is mapped, as Go stores it.
\<close>

subsection \<open>Parsing\<close>

type_synonym ip = "nat list"

definition v4_prefix :: ip where
  "v4_prefix = [0, 0, 0, 0, 0, 0, 0, 0, 0, 0, 255, 255]"

text \<open>One decimal field of a dotted address: no leading zero, at most 255.\<close>

definition octet :: "string \<Rightarrow> nat option" where
  "octet s =
     (if s = [] \<or> \<not> list_all is_digit s \<or> (hd s = CHR ''0'' \<and> length s > 1) \<or> dec_value s > 255
      then None else Some (dec_value s))"

definition parseIPv4 :: "string \<Rightarrow> nat list option" where
  "parseIPv4 s =
     (case Split s (CHR ''.'') of
        [a, b, c, d] \<Rightarrow>
          (case (octet a, octet b, octet c, octet d) of
             (Some w, Some x, Some y, Some z) \<Rightarrow> Some [w, x, y, z]
           | _ \<Rightarrow> None)
      | _ \<Rightarrow> None)"

definition hex_run :: "string \<Rightarrow> string" where
  "hex_run s = takeWhile (\<lambda>c. hex_val c \<noteq> None) s"

definition hex_number :: "string \<Rightarrow> nat" where
  "hex_number s = foldl (\<lambda>n c. 16 * n + the (hex_val c)) 0 s"

text \<open>
  The fields of an IPv6 address: \<open>acc\<close> holds the bytes read so far and \<open>ell\<close> the place of
  the ellipsis. The result is the bytes, the ellipsis and what is left of the text.
\<close>

function v6_fields :: "string \<Rightarrow> nat list \<Rightarrow> nat option \<Rightarrow> (nat list \<times> nat option \<times> string) option" where
  "v6_fields s acc ell =
     (if length acc \<ge> 16 then Some (acc, ell, s)
      else
        (let h = hex_run s; rest = drop (length h) s
         in if h = [] \<or> length h > 4 then None
            else if rest \<noteq> [] \<and> hd rest = CHR ''.'' then
              (if (ell = None \<and> length acc \<noteq> 12) \<or> length acc + 4 > 16 then None
               else map_option (\<lambda>v4. (acc @ v4, ell, [])) (parseIPv4 s))
            else
              (let acc' = acc @ [hex_number h div 256, hex_number h mod 256]
               in case rest of
                    [] \<Rightarrow> Some (acc', ell, [])
                  | [_] \<Rightarrow> None
                  | c # d # ds \<Rightarrow>
                      if c \<noteq> CHR '':'' then None
                      else if d = CHR '':'' then
                        (if ell \<noteq> None then None
                         else if ds = [] then Some (acc', Some (length acc'), [])
                         else v6_fields ds acc' (Some (length acc')))
                      else v6_fields (d # ds) acc' ell)))"
  by pat_completeness auto
termination
proof (relation "measure (\<lambda>(s, acc, ell). length s)", goal_cases)
  case 1
  then show ?case by simp
next
  case (2 s acc ell h rest acc' c a d ds)
  then have "drop (length (hex_run s)) s = c # d # ds" by simp
  then have "length (c # d # ds) \<le> length s" by (metis length_drop diff_le_self)
  then show ?case by simp
next
  case (3 s acc ell h rest acc' c a d ds)
  then have "drop (length (hex_run s)) s = c # d # ds" by simp
  then have "length (c # d # ds) \<le> length s" by (metis length_drop diff_le_self)
  then show ?case by simp
qed

declare v6_fields.simps [simp del]

definition parseIPv6 :: "string \<Rightarrow> ip option" where
  "parseIPv6 s =
     (let (s1, ell) = (if HasPrefix s ''::'' then (drop 2 s, Some 0) else (s, None))
      in if ell = Some 0 \<and> s1 = [] then Some (replicate 16 0)
         else case v6_fields s1 [] ell of
             None \<Rightarrow> None
           | Some (bytes, ell', left) \<Rightarrow>
               if left \<noteq> [] then None
               else if length bytes < 16 then
                 (case ell' of
                    None \<Rightarrow> None
                  | Some e \<Rightarrow> Some (take e bytes @ replicate (16 - length bytes) 0 @ drop e bytes))
               else if ell' \<noteq> None then None else Some bytes)"

text \<open>\<open>net.ParseIP\<close>: the first dot, colon or percent sign decides; a zone is refused.\<close>

definition ParseIP :: "string \<Rightarrow> ip option" where
  "ParseIP s =
     (case List.find (\<lambda>c. c = CHR ''.'' \<or> c = CHR '':'' \<or> c = CHR ''%'') s of
        None \<Rightarrow> None
      | Some c \<Rightarrow>
          if c = CHR ''.'' then map_option (\<lambda>b. v4_prefix @ b) (parseIPv4 s)
          else if c = CHR '':'' then (if CHR ''%'' \<in> set s then None else parseIPv6 s)
          else None)"

subsection \<open>Classes and printing\<close>

definition To4 :: "ip \<Rightarrow> nat list option" where
  "To4 a = (if take 12 a = v4_prefix then Some (drop 12 a) else None)"

definition IsLoopback :: "ip \<Rightarrow> bool" where
  "IsLoopback a = (case To4 a of Some b \<Rightarrow> b ! 0 = 127 | None \<Rightarrow> a = replicate 15 0 @ [1])"

definition IsUnspecified :: "ip \<Rightarrow> bool" where
  "IsUnspecified a \<longleftrightarrow> a = v4_prefix @ [0, 0, 0, 0] \<or> a = replicate 16 0"

fun groups :: "nat list \<Rightarrow> nat list" where
  "groups (a # b # bs) = (256 * a + b) # groups bs"
| "groups _ = []"

fun nat_hex :: "nat \<Rightarrow> string" where
  "nat_hex n = (if n < 16 then [hex_digit n] else nat_hex (n div 16) @ [hex_digit (n mod 16)])"

declare nat_hex.simps [simp del]

definition zero_run :: "nat list \<Rightarrow> nat \<Rightarrow> nat" where
  "zero_run gs i = length (takeWhile (\<lambda>g. g = 0) (drop i gs))"

text \<open>The first longest run of at least two zero groups, as its start and end.\<close>

definition longest_run :: "nat list \<Rightarrow> nat \<times> nat" where
  "longest_run gs =
     fold (\<lambda>i (s, e). if zero_run gs i \<ge> 2 \<and> zero_run gs i > e - s then (i, i + zero_run gs i) else (s, e))
       [0..<length gs] (255, 255)"

definition v6_string :: "ip \<Rightarrow> string" where
  "v6_string a =
     (let gs = groups a; (s, e) = longest_run gs; colon = [CHR '':'']
      in if e = 255 then join (CHR '':'') (map nat_hex gs)
         else join (CHR '':'') (map nat_hex (take s gs)) @ colon @ colon @
              join (CHR '':'') (map nat_hex (drop e gs)))"

definition IP_String :: "ip \<Rightarrow> string" where
  "IP_String a =
     (case To4 a of
        Some b \<Rightarrow> join (CHR ''.'') (map nat_dec b)
      | None \<Rightarrow> v6_string a)"

subsection \<open>The peer key\<close>

text \<open>A \<open>net.Addr\<close>: its network and its text; a nil address is \<open>None\<close>.\<close>

record Addr =
  ad_Network :: string
  ad_String :: string

definition peerKey :: "Addr option \<Rightarrow> string" where
  "peerKey address =
     (case address of
        None \<Rightarrow> ''unknown''
      | Some a \<Rightarrow>
          (case SplitHostPort (ad_String a) of
             Inr (host, _) \<Rightarrow> (case ParseIP host of Some i \<Rightarrow> IP_String i | None \<Rightarrow> ToLower host)
           | Inl _ \<Rightarrow>
               (let key = ad_Network a @ '':'' @ ad_String a
                in if length key > 256 then ''unknown'' else key)))"

subsection \<open>Dotted addresses\<close>

definition dotted :: "nat list \<Rightarrow> string" where
  "dotted b = join (CHR ''.'') (map nat_dec b)"

lemma octet_nat_dec: "n \<le> 255 \<Longrightarrow> octet (nat_dec n) = Some n"
  using nat_dec_hd_zero [of n] nat_dec_digits [of n] by (auto simp: octet_def)

lemma nat_dec_chars:
  assumes "c \<in> set (nat_dec n)"
  shows "48 \<le> ord c" "ord c \<le> 57"
  using assms nat_dec_digits [of n] by (auto simp: list_all_iff is_digit_def)

lemma dotted_chars: "c \<in> set (dotted b) \<Longrightarrow> c = CHR ''.'' \<or> (48 \<le> ord c \<and> ord c \<le> 57)"
proof -
  have "c \<in> set (join (CHR ''.'') ps) \<Longrightarrow> c = CHR ''.'' \<or> (\<exists>p\<in>set ps. c \<in> set p)" for ps
    by (induction "CHR ''.''" ps rule: join.induct) auto
  then show "c \<in> set (dotted b) \<Longrightarrow> ?thesis" using nat_dec_chars by (fastforce simp: dotted_def)
qed

lemma parseIPv4_dotted:
  assumes "a \<le> 255" "b \<le> 255" "c \<le> 255" "d \<le> 255"
  shows "parseIPv4 (dotted [a, b, c, d]) = Some [a, b, c, d]"
proof -
  have n: "CHR ''.'' \<notin> set (nat_dec n)" for n using nat_dec_chars [of "CHR ''.''" n] by auto
  have "Split (dotted [a, b, c, d]) (CHR ''.'') = [nat_dec a, nat_dec b, nat_dec c, nat_dec d]"
    using n by (simp add: dotted_def Split_append Split_no_sep)
  then show ?thesis using assms by (simp add: parseIPv4_def octet_nat_dec)
qed

lemma ParseIP_dotted:
  assumes "a \<le> 255" "b \<le> 255" "c \<le> 255" "d \<le> 255"
  shows "ParseIP (dotted [a, b, c, d]) = Some (v4_prefix @ [a, b, c, d])"
proof -
  let ?P = "\<lambda>c. c = CHR ''.'' \<or> c = CHR '':'' \<or> c = CHR ''%''"
  have "List.find ?P s = Some (CHR ''.'')" if "\<forall>x\<in>set s. x = CHR ''.'' \<or> \<not> ?P x" "CHR ''.'' \<in> set s" for s
    using that by (induction s) auto
  moreover have "\<forall>x\<in>set (dotted [a, b, c, d]). x = CHR ''.'' \<or> \<not> ?P x" using dotted_chars by fastforce
  moreover have "CHR ''.'' \<in> set (dotted [a, b, c, d])" by (simp add: dotted_def)
  ultimately show ?thesis using parseIPv4_dotted [OF assms] by (simp add: ParseIP_def)
qed

lemma SplitHostPort_plain:
  assumes "\<forall>x\<in>set host \<union> set port. x \<noteq> CHR '':'' \<and> x \<noteq> CHR ''['' \<and> x \<noteq> CHR '']''"
  shows "SplitHostPort (host @ CHR '':'' # port) = Inr (host, port)"
proof -
  have "LastIndexByte (host @ CHR '':'' # port) (CHR '':'') = Some (length host)"
    using assms by (intro LastIndexByte_app) auto
  moreover have "hd (host @ CHR '':'' # port) \<noteq> CHR ''[''" using assms by (cases host) auto
  ultimately show ?thesis using assms by (auto simp: SplitHostPort_def)
qed

text \<open>
  A peer's budget is kept per host: every connection from an IPv4 host has that
  host's dotted address as its key, whatever port it comes from, so a peer neither gets
  a fresh budget by reconnecting from another port nor shares one with another host.
\<close>

theorem peerKey_host:
  assumes "a \<le> 255" "b \<le> 255" "c \<le> 255" "d \<le> 255"
    "\<forall>x\<in>set port. x \<noteq> CHR '':'' \<and> x \<noteq> CHR ''['' \<and> x \<noteq> CHR '']''"
  shows "peerKey (Some \<lparr>ad_Network = network, ad_String = dotted [a, b, c, d] @ CHR '':'' # port\<rparr>) =
     dotted [a, b, c, d]"
proof -
  have "\<forall>x\<in>set (dotted [a, b, c, d]) \<union> set port. x \<noteq> CHR '':'' \<and> x \<noteq> CHR ''['' \<and> x \<noteq> CHR '']''"
    using assms(5) dotted_chars by fastforce
  from SplitHostPort_plain [OF this] ParseIP_dotted [OF assms(1-4)] show ?thesis
    by (simp add: peerKey_def IP_String_def To4_def v4_prefix_def dotted_def)
qed

end
