(* ===== verification/Wire.thy ===== *)
theory Wire
  imports Messages
begin

text \<open>
  What a peer may rely on at the level of frames: the properties of reading, writing and
  validating that the sessions of both sides are built on.
\<close>

definition sample_frame :: Frame where
  "sample_frame = \<lparr>f_Type = Data, f_RequestID = 7, f_Metadata = ''{}'', f_Body = ''ab''\<rparr>"

lemma empty_object: "validateJSON ''{}'' = Inr ()"
  using empty_msg.print_valid by (simp add: MaxMetadataSize_def)

lemma sample_frame_ok: "frame_ok sample_frame"
  by (simp add: frame_ok_def sample_frame_def empty_object validateHeader_def MaxMetadataSize_def
      MaxChunkSize_def)

text \<open>
  Property C8: A frame that \<open>WriteFrame\<close> reports written is read back by \<open>ReadFrame\<close>
  unchanged, with exactly the bytes after it left on the stream, whatever the writer did
  with partial writes and however the stream is cut into reads.
\<close>

theorem WriteFrame_ReadFrame:
  assumes "WriteFrame f w = (Inr (), w')" "stream r = drop (length (w_out w)) (w_out w') @ rest"
  shows "\<exists>r'. ReadFrame r = (Inr f, r') \<and> stream r' = rest \<and> r_end r' = r_end r"
  using wire.dec_enc [OF WriteFrame_ok(1) [OF assms(1)], of r rest] WriteFrame_ok(2) [OF assms(1)]
    assms(2) by simp

theorem WriteFrame_ReadFrame_witness:
  "\<exists>r'. ReadFrame \<lparr>r_chunks = [take 3 (encode_frame sample_frame),
       drop 3 (encode_frame sample_frame) @ ''xy''], r_end = EOF\<rparr> = (Inr sample_frame, r') \<and>
     stream r' = ''xy''"
proof -
  let ?r = "\<lparr>r_chunks = [take 3 (encode_frame sample_frame),
     drop 3 (encode_frame sample_frame) @ ''xy''], r_end = EOF\<rparr>"
  have w: "WriteFrame sample_frame fresh_writer =
      (Inr (), fresh_writer\<lparr>w_out := w_out fresh_writer @ encode_frame sample_frame\<rparr>)"
    by (rule WriteFrame_clean [OF sample_frame_ok]) (simp add: fresh_writer_def)
  from WriteFrame_ReadFrame [OF w, of ?r "''xy''"] show ?thesis
    by (auto simp: stream_def fresh_writer_def)
qed

text \<open>
  Property C11: Whatever \<open>ReadFrame\<close> accepts is a canonical frame: the bytes consumed are
  exactly the encoding of the frame returned, its type, sizes and request ID obey the
  header rules, and its metadata is valid.
\<close>

theorem ReadFrame_canonical:
  assumes "ReadFrame r = (Inr f, r')"
  shows "stream r = encode_frame f @ stream r' \<and>
     1 \<le> unat (f_Type f) \<and> unat (f_Type f) \<le> 9 \<and>
     length (f_Metadata f) \<le> 8192 \<and> length (f_Body f) \<le> 65536 \<and>
     (f_Type f = Data \<longleftrightarrow> f_Body f \<noteq> []) \<and>
     (f_Type f \<in> {Hello, Welcome, Close} \<longrightarrow> f_RequestID f = 0) \<and>
     (f_Type f \<in> {Request, Response, Data, End, Continue} \<longrightarrow> f_RequestID f \<noteq> 0) \<and>
     validateJSON (f_Metadata f) = Inr ()"
proof -
  note s = ReadFrame_sound [OF assms]
  let ?m = "word_of_nat (length (f_Metadata f)) :: 32 word"
    and ?b = "word_of_nat (length (f_Body f)) :: 32 word"
  from s(1) have v: "validateHeader (f_Type f) (f_RequestID f) ?m ?b = Inr ()"
    and j: "validateJSON (f_Metadata f) = Inr ()"
    and len: "length (f_Metadata f) \<le> 8192" "length (f_Body f) \<le> 65536"
    by (simp_all add: frame_ok_def is_ok_unit MaxMetadataSize_def MaxChunkSize_def)
  have b: "?b = 0 \<longleftrightarrow> f_Body f = []"
    using unat_word32 [of "length (f_Body f)"] len(2) by (auto simp: unat_eq_0 [symmetric])
  from v have k: "\<not> (f_Type f < Hello \<or> f_Type f > Continue)"
    "f_Type f = Data \<longleftrightarrow> f_Body f \<noteq> []"
    "(f_Type f = Hello \<or> f_Type f = Welcome \<or> f_Type f = Close) \<longrightarrow> f_RequestID f = 0"
    "((f_Type f \<ge> Request \<and> f_Type f \<le> End) \<or> f_Type f = Continue) \<longrightarrow> f_RequestID f \<noteq> 0"
    by (auto simp: validateHeader_def res_simps b)
  moreover from k(1) have "1 \<le> unat (f_Type f)" "unat (f_Type f) \<le> 9"
    by (simp_all add: word_less_nat_alt)
  ultimately show ?thesis using s(2) len j by (auto simp: word_le_nat_alt)
qed

theorem ReadFrame_canonical_witness:
  "\<exists>r'. ReadFrame (whole (encode_frame sample_frame)) = (Inr sample_frame, r') \<and>
     f_Body sample_frame \<noteq> [] \<and> f_RequestID sample_frame \<noteq> 0"
proof -
  obtain r' where r: "ReadFrame (whole (encode_frame sample_frame)) = (Inr sample_frame, r')"
    using ReadFrame_encode [OF sample_frame_ok, of "whole (encode_frame sample_frame)" "[]"] by auto
  from ReadFrame_canonical [OF r] r show ?thesis by (auto simp: sample_frame_def)
qed

text \<open>
  Property C21: How the network fragments the stream never matters: two connections that
  deliver the same bytes and end the same way give the same frame or the same error, and
  leave the same bytes.
\<close>

theorem ReadFrame_fragmentation:
  assumes "stream r = stream s" "r_end r = r_end s"
  shows "fst (ReadFrame r) = fst (ReadFrame s) \<and>
     stream (snd (ReadFrame r)) = stream (snd (ReadFrame s))"
  using ReadFrame_same_stream [of r s] assms by (simp add: same_stream_def)

theorem ReadFrame_fragmentation_witness:
  "fst (ReadFrame \<lparr>r_chunks = [''DE'', ''EP''], r_end = EOF\<rparr>) =
   fst (ReadFrame \<lparr>r_chunks = [''D'', ''E'', ''EP''], r_end = EOF\<rparr>)"
  using ReadFrame_fragmentation [of "\<lparr>r_chunks = [''DE'', ''EP''], r_end = EOF\<rparr>"
      "\<lparr>r_chunks = [''D'', ''E'', ''EP''], r_end = EOF\<rparr>"]
  by (simp add: stream_def)

text \<open>Frames written one after another, stopping at the first error.\<close>

fun write_frames :: "Frame list \<Rightarrow> writer \<Rightarrow> check \<times> writer" where
  "write_frames [] w = (Inr (), w)"
| "write_frames (f # fs) w =
     (case WriteFrame f w of (Inl e, w') \<Rightarrow> (Inl e, w') | (Inr _, w') \<Rightarrow> write_frames fs w')"

lemma write_frames_ok:
  "write_frames fs w = (Inr (), w') \<Longrightarrow>
     (\<forall>f\<in>set fs. frame_ok f) \<and> w_out w' = w_out w @ concat (map encode_frame fs)"
proof (induction fs arbitrary: w)
  case (Cons f fs)
  then obtain w1 where w: "WriteFrame f w = (Inr (), w1)" and fs: "write_frames fs w1 = (Inr (), w')"
    by (auto split: prod.splits sum.splits)
  from Cons.IH [OF fs] WriteFrame_ok [OF w] show ?case by simp
qed simp

text \<open>
  A stream of frames has one reading: if two sequences of frames, each written
  successfully with \<open>WriteFrame\<close>, leave the same bytes on the wire, then they are the same
  sequence.
\<close>

theorem frames_unambiguous:
  assumes "write_frames fs w = (Inr (), w1)" "write_frames gs w = (Inr (), w2)" "w_out w1 = w_out w2"
  shows "fs = gs"
proof -
  from write_frames_ok [OF assms(1)] write_frames_ok [OF assms(2)] assms(3)
  have "\<forall>f\<in>set fs. frame_ok f" "\<forall>f\<in>set gs. frame_ok f"
    "concat (map encode_frame fs) = concat (map encode_frame gs)" by auto
  then show ?thesis by (intro wire.enc_list_inject [OF _ _ encode_frame_ne]) auto
qed

text \<open>
  \<open>WriteFrame\<close> never puts anything but a prefix of the frame on the wire; a
  frame it refuses as invalid leaves the connection untouched, and a frame it reports
  written is there in full.
\<close>

theorem WriteFrame_effect:
  "(case WriteFrame f w of (x, w') \<Rightarrow>
     (\<exists>p s. encode_frame f = p @ s \<and> w_out w' = w_out w @ p \<and> (is_ok x \<longrightarrow> s = [])) \<and>
     (\<not> frame_ok f \<longrightarrow> \<not> is_ok x \<and> w' = w))"
proof (cases "frame_ok f")
  case True
  obtain x w' where w: "WriteFrame f w = (x, w')" by fastforce
  have p: "WriteFrame f w = write_parts [frame_header f, f_Metadata f, f_Body f] w"
    using True by (auto simp: WriteFrame_def frame_ok_def is_ok_unit simp del: write_parts.simps)
  have "\<exists>p s. encode_frame f = p @ s \<and> w_out w' = w_out w @ p \<and> (is_ok x \<longrightarrow> s = [])"
  proof (cases x)
    case (Inl e)
    with write_parts_prefix [OF w [unfolded p]] show ?thesis by (simp add: encode_frame_def)
  next
    case (Inr u)
    with WriteFrame_ok(2) [of f w u w'] w show ?thesis by simp
  qed
  with True w show ?thesis by simp
next
  case False
  then have "\<exists>e. WriteFrame f w = (Inl e, w)"
    by (auto simp: WriteFrame_def frame_ok_def is_ok_unit split: sum.splits
        simp del: write_parts.simps)
  with False show ?thesis by auto
qed


text \<open>
  \<open>DecodeMetadata\<close> succeeds exactly when the metadata is valid, its members are
  the expected names, each once and none null, and every member converts to its field.
\<close>

theorem DecodeMetadata_exact:
  assumes "distinct names"
  shows "DecodeMetadata frame tbl zero names = Inr x \<longleftrightarrow>
    validateJSON (f_Metadata frame) = Inr () \<and>
    (\<exists>ms. Unmarshal (f_Metadata frame) = Some (JObject ms) \<and> distinct (map fst ms) \<and>
       fst ` set ms = set names \<and> JNull \<notin> snd ` set ms \<and> decode_members tbl ms zero = Some x)"
  by (rule DecodeMetadata_iff [OF assms])

end
