(* ===== verification/Conn.thy ===== *)
theory Conn
  imports Wire Limits
begin

text \<open>
  One side of a connection as the code of \<open>src/server.go\<close>, \<open>src/client.go\<close> and
  \<open>src/application.go\<close> sees it, with the operations both sides share: sending and reading
  frames, deadlines, contexts, \<open>expect\<close>, \<open>sendError\<close>, \<open>sendBody\<close> and \<open>receiveBody\<close>.
\<close>

subsection \<open>State\<close>

text \<open>
  \<open>c_in\<close> and \<open>c_out\<close> are the two directions of the authenticated stream, \<open>c_dest\<close> the
  \<open>io.Writer\<close> that a received body goes to, \<open>c_app\<close> whatever state the resource provider
  keeps. \<open>c_ctx\<close> holds the answers of the coming \<open>ctx.Err()\<close> calls and \<open>c_set\<close> those of the
  coming \<open>Set*Deadline\<close> calls (nil once the list is used up); \<open>c_now\<close> is the clock, which
  advances by the next of \<open>c_ticks\<close> each time it is read.
\<close>

record 'h conn =
  c_in :: reader
  c_out :: writer
  c_dest :: writer
  c_ctx :: "err option list"
  c_set :: "err option list"
  c_now :: int
  c_ticks :: "nat list"
  c_readDeadline :: "int option"
  c_writeDeadline :: "int option"
  c_closed :: bool
  c_peers :: peerLimiter
  c_app :: 'h

type_synonym ('a, 'h) io = "'h conn \<Rightarrow> 'a res \<times> 'h conn"

definition ret :: "'a \<Rightarrow> ('a, 'h) io" where
  "ret x c = (Inr x, c)"

definition fail :: "err \<Rightarrow> ('a, 'h) io" where
  "fail e c = (Inl e, c)"

text \<open>\<open>x, err := m; if err != nil { return err }\<close>, then the rest.\<close>

definition andThen :: "('a, 'h) io \<Rightarrow> ('a \<Rightarrow> ('b, 'h) io) \<Rightarrow> ('b, 'h) io" where
  "andThen m k c = (case m c of (Inl e, c1) \<Rightarrow> (Inl e, c1) | (Inr x, c1) \<Rightarrow> k x c1)"

definition lift :: "'a res \<Rightarrow> ('a, 'h) io" where
  "lift r c = (r, c)"

lemma andThen_cong [fundef_cong]:
  assumes "c = c'" "m c' = m' c'" "\<And>x c1. m' c' = (Inr x, c1) \<Longrightarrow> k x c1 = k' x c1"
  shows "andThen m k c = andThen m' k' c'"
  using assms by (auto simp: andThen_def split: prod.splits sum.splits)

lemma andThen_Inr [res_simps]:
  "andThen m k c = (Inr y, c') \<longleftrightarrow> (\<exists>x c1. m c = (Inr x, c1) \<and> k x c1 = (Inr y, c'))"
  unfolding andThen_def by (rule io_bind_Inr)

lemma io_Inr [res_simps]:
  "ret x c = (Inr y, c') \<longleftrightarrow> y = x \<and> c' = c"
  "fail e c = (Inr y, c') \<longleftrightarrow> False"
  "lift r c = (Inr y, c') \<longleftrightarrow> r = Inr y \<and> c' = c"
  by (auto simp: ret_def fail_def lift_def)

lemma if_fail_Inr [res_simps]:
  "(if b then fail e else m) c = (Inr y, c') \<longleftrightarrow> \<not> b \<and> m c = (Inr y, c')"
  "(if b then fail e c else r) = (Inr y, c') \<longleftrightarrow> \<not> b \<and> r = (Inr y, c')"
  by (auto simp: fail_def)

lemma andThen_ok: "m c = (Inr x, c1) \<Longrightarrow> andThen m k c = k x c1"
  by (simp add: andThen_def)

subsection \<open>Clock, contexts and deadlines\<close>

definition Now :: "'h conn \<Rightarrow> int \<times> 'h conn" where
  "Now c =
     (case c_ticks c of
        [] \<Rightarrow> (c_now c, c)
      | t # ts \<Rightarrow> (c_now c + int t, c\<lparr>c_now := c_now c + int t, c_ticks := ts\<rparr>))"

definition ctx_Err :: "(unit, 'h) io" where
  "ctx_Err c =
     (case c_ctx c of
        [] \<Rightarrow> (Inr (), c)
      | None # es \<Rightarrow> (Inr (), c\<lparr>c_ctx := es\<rparr>)
      | Some e # es \<Rightarrow> (Inl e, c\<lparr>c_ctx := es\<rparr>))"

definition next_set :: "(unit, 'h) io" where
  "next_set c =
     (case c_set c of
        [] \<Rightarrow> (Inr (), c)
      | None # es \<Rightarrow> (Inr (), c\<lparr>c_set := es\<rparr>)
      | Some e # es \<Rightarrow> (Inl e, c\<lparr>c_set := es\<rparr>))"

definition SetDeadline :: "int option \<Rightarrow> (unit, 'h) io" where
  "SetDeadline t =
     andThen next_set (\<lambda>_ c. (Inr (), c\<lparr>c_readDeadline := t, c_writeDeadline := t\<rparr>))"

definition SetWriteDeadline :: "int option \<Rightarrow> (unit, 'h) io" where
  "SetWriteDeadline t = andThen next_set (\<lambda>_ c. (Inr (), c\<lparr>c_writeDeadline := t\<rparr>))"

text \<open>The deadline of \<open>context.WithTimeout(parent, timeout)\<close>, taken at time \<open>now\<close>.\<close>

definition WithTimeout :: "int option \<Rightarrow> int \<Rightarrow> int \<Rightarrow> int option" where
  "WithTimeout parent timeout now =
     (case parent of None \<Rightarrow> Some (now + timeout) | Some d \<Rightarrow> Some (min d (now + timeout)))"

definition setDeadline :: "int option \<Rightarrow> int \<Rightarrow> (unit, 'h) io" where
  "setDeadline ctxDeadline timeout c =
     (case Now c of (now, c1) \<Rightarrow>
        let deadline = now + timeout
        in SetDeadline (case ctxDeadline of
             Some earlier \<Rightarrow> if earlier < deadline then Some earlier else Some deadline
           | None \<Rightarrow> Some deadline) c1)"

definition close_conn :: "'h conn \<Rightarrow> 'h conn" where
  "close_conn c = c\<lparr>c_closed := True\<rparr>"

subsection \<open>Frames\<close>

definition conn_read :: "(Frame, 'h) io" where
  "conn_read c = (case ReadFrame (c_in c) of (x, r) \<Rightarrow> (x, c\<lparr>c_in := r\<rparr>))"

definition conn_send :: "MessageType \<Rightarrow> 32 word \<Rightarrow> (bytes \<times> jvalue) list \<Rightarrow> bytes \<Rightarrow> (unit, 'h) io" where
  "conn_send kind rid members body c =
     (case send kind rid (JObject members) body (c_out c) of (x, w) \<Rightarrow> (x, c\<lparr>c_out := w\<rparr>))"

definition write_dest :: "bytes \<Rightarrow> (unit, 'h) io" where
  "write_dest data c = (case writeAll data (c_dest c) of (x, w) \<Rightarrow> (x, c\<lparr>c_dest := w\<rparr>))"

definition expect :: "Frame \<Rightarrow> MessageType \<Rightarrow> 32 word \<Rightarrow> check" where
  "expect frame kind rid =
     (if f_RequestID frame \<noteq> rid then Inl (protocolError ''response request ID mismatch'')
      else if f_Type frame = Error then
        (case DecodeMetadata frame error_table error_zero [''code'', ''message''] of
           Inl e \<Rightarrow> Inl e
         | Inr remote \<Rightarrow>
             if ValidateRemoteError (Some remote) \<noteq> Inr ()
               then Inl (protocolError ''invalid remote error'')
             else Inl (Remote (re_Code remote) (re_Message remote)))
      else if f_Type frame \<noteq> kind then Inl (protocolError ''unexpected message type'')
      else Inr ())"

definition error_reply :: "err \<Rightarrow> RemoteError" where
  "error_reply cause =
     (let remote = (if errors_is cause ErrProtocol
            then \<lparr>re_Code = ''PROTOCOL_ERROR'', re_Message = ''invalid DEEP message''\<rparr>
            else \<lparr>re_Code = ''INTERNAL_ERROR'', re_Message = ''resource provider failed''\<rparr>)
      in case errors_as_remote cause of
           Some (code, message) \<Rightarrow>
             (let specified = \<lparr>re_Code = code, re_Message = message\<rparr>
              in if ValidateRemoteError (Some specified) = Inr () then specified else remote)
         | None \<Rightarrow> remote)"

definition sendError :: "32 word \<Rightarrow> err \<Rightarrow> 'h conn \<Rightarrow> 'h conn" where
  "sendError rid cause c =
     (case Now c of (now, c1) \<Rightarrow>
        (case SetWriteDeadline (Some (now + Second)) c1 of
           (Inl e, c2) \<Rightarrow> c2
         | (Inr _, c2) \<Rightarrow> snd (conn_send Error rid (error_members (error_reply cause)) [] c2)))"

subsection \<open>Bodies\<close>

record Resource =
  rs_Body :: "reader option"
  rs_MediaType :: string
  rs_Size :: int

text \<open>
  The loop that \<open>transfer\<close> and \<open>sendBody\<close> share: chunks of at most 64 KiB until the announced
  size is reached; \<open>acc\<close> is what the hash has been given.
\<close>

function chunk_loop ::
    "string \<Rightarrow> 32 word \<Rightarrow> int \<Rightarrow> int \<Rightarrow> bytes \<Rightarrow> reader \<Rightarrow> (int \<times> bytes \<times> reader, 'h) io" where
  "chunk_loop short rid sz sent acc body c =
     (if sent < sz then
        andThen ctx_Err (\<lambda>_ c1.
          let remaining = sz - sent;
              length' = (if remaining < int MaxChunkSize then remaining else int MaxChunkSize)
          in case ReadFull (nat length') body of
               (Inl _, _) \<Rightarrow> (Inl (Remote ''RESOURCE_CHANGED'' short), c1)
             | (Inr chunk, body') \<Rightarrow>
                 andThen (conn_send Data rid [] chunk)
                   (\<lambda>_. chunk_loop short rid sz (sent + int (length chunk)) (acc @ chunk) body') c1) c
      else (Inr (sent, acc, body), c))"
  by pat_completeness auto
termination
proof (relation "measure (\<lambda>(short, rid, sz, sent, acc, body, c). nat (sz - sent))", goal_cases)
  case 1
  then show ?case by simp
next
  case (2 short rid sz sent acc body c u c1 rem len x body' chunk v c2)
  have "length chunk = nat len" using ReadFull_InrD [of "nat len" body chunk body'] 2 by simp
  with 2 show ?case by (auto simp: MaxChunkSize_def)
qed

declare chunk_loop.simps [simp del]

text \<open>After the last chunk the body must be at its end.\<close>

definition body_ended :: "reader \<Rightarrow> bool" where
  "body_ended body =
     (case ReadFull 1 body of (Inr _, _) \<Rightarrow> False | (Inl e, _) \<Rightarrow> errors_is e EOF)"

definition finish_body :: "(bytes \<Rightarrow> bytes) \<Rightarrow> string \<Rightarrow> 32 word \<Rightarrow> int \<times> bytes \<times> reader \<Rightarrow> (unit, 'h) io" where
  "finish_body sha changed rid =
     (\<lambda>(sent, acc, body).
        if \<not> body_ended body then fail (Remote ''RESOURCE_CHANGED'' changed)
        else conn_send End rid
          (end_members \<lparr>em_Size = sent, em_SHA256 = EncodeToString (sha acc)\<rparr>) [])"

definition sendBody :: "(bytes \<Rightarrow> bytes) \<Rightarrow> 32 word \<Rightarrow> reader \<Rightarrow> int \<Rightarrow> (unit, 'h) io" where
  "sendBody sha rid body sz =
     andThen (chunk_loop ''body ended before its announced size'' rid sz 0 [] body)
       (finish_body sha ''body size changed during transfer'' rid)"

function receive_loop ::
    "string \<Rightarrow> string \<Rightarrow> (bytes \<Rightarrow> bytes) \<Rightarrow> 32 word \<Rightarrow> int \<Rightarrow> int \<Rightarrow> bytes \<Rightarrow> (string, 'h) io" where
  "receive_loop wrongID wrongSum sha rid sz received acc c =
     andThen conn_read (\<lambda>frame c1.
       if f_RequestID frame \<noteq> rid then fail (protocolError wrongID) c1
       else if f_Type frame = Data then
         andThen (lift (DecodeMetadata frame [] () [])) (\<lambda>_ c2.
           if int (length (f_Body frame)) > sz - received
             then fail (protocolError ''received more bytes than announced'') c2
           else andThen (write_dest (f_Body frame)) (\<lambda>_.
             receive_loop wrongID wrongSum sha rid sz (received + int (length (f_Body frame)))
               (acc @ f_Body frame)) c2) c1
       else if f_Type frame = End then
         andThen (lift (DecodeMetadata frame end_table end_zero [''size'', ''sha256''])) (\<lambda>ending.
           let digest = EncodeToString (sha acc)
           in if received \<noteq> sz \<or> em_Size ending \<noteq> received \<or> em_SHA256 ending \<noteq> digest
                then fail (protocolError wrongSum)
              else andThen ctx_Err (\<lambda>_. ret digest)) c1
       else if f_Type frame = Error then andThen (lift (expect frame End rid)) (\<lambda>_. ret []) c1
       else fail (protocolError ''expected DATA or END'') c1) c"
  by pat_completeness auto
termination
proof (relation "measure (\<lambda>(a, b, sha, rid, sz, received, acc, c). length (stream (c_in c)))", goal_cases)
  case 1
  then show ?case by simp
next
  case (2 a b sha rid sz received acc c frame c1 u c2 v c3)
  then have "length (stream (c_in c1)) < length (stream (c_in c))"
    by (auto simp: conn_read_def split: prod.splits dest!: ReadFrame_len)
  moreover have "c_in c2 = c_in c1" using 2 by (simp add: lift_def)
  moreover have "c_in c3 = c_in c2" using 2 by (auto simp: write_dest_def split: prod.splits)
  ultimately show ?case by simp
qed

declare receive_loop.simps [simp del]

definition receiveBody :: "(bytes \<Rightarrow> bytes) \<Rightarrow> 32 word \<Rightarrow> int \<Rightarrow> (string, 'h) io" where
  "receiveBody sha rid sz =
     receive_loop ''body request ID mismatch'' ''body size or SHA-256 mismatch'' sha rid sz 0 []"

subsection \<open>What the primitives change\<close>

lemma conn_send_ok:
  assumes "conn_send kind rid ms body c = (Inr u, c')"
  obtains w where "send kind rid (JObject ms) body (c_out c) = (Inr u, w)" "c' = c\<lparr>c_out := w\<rparr>"
  using assms by (auto simp: conn_send_def split: prod.splits)

lemma conn_send_fields:
  assumes "conn_send kind rid ms body c = (x, c')"
  shows "c_in c' = c_in c" "c_dest c' = c_dest c" "c_ctx c' = c_ctx c" "c_set c' = c_set c"
    "c_app c' = c_app c" "c_peers c' = c_peers c"
  using assms by (auto simp: conn_send_def split: prod.splits)

lemma conn_read_ok:
  assumes "conn_read c = (Inr f, c')"
  obtains r where "ReadFrame (c_in c) = (Inr f, r)" "c' = c\<lparr>c_in := r\<rparr>"
  using assms by (auto simp: conn_read_def split: prod.splits)

lemma conn_read_fields:
  assumes "conn_read c = (x, c')"
  shows "c_out c' = c_out c" "c_dest c' = c_dest c" "c_ctx c' = c_ctx c" "c_set c' = c_set c"
    "c_app c' = c_app c" "c_peers c' = c_peers c"
  using assms by (auto simp: conn_read_def split: prod.splits)

lemma write_dest_fields:
  assumes "write_dest d c = (x, c')"
  shows "c_in c' = c_in c" "c_out c' = c_out c" "c_ctx c' = c_ctx c" "c_set c' = c_set c"
    "c_app c' = c_app c" "c_peers c' = c_peers c"
  using assms by (auto simp: write_dest_def split: prod.splits)

lemma ctx_Err_fields:
  assumes "ctx_Err c = (x, c')"
  shows "c_in c' = c_in c" "c_out c' = c_out c" "c_dest c' = c_dest c" "c_set c' = c_set c"
    "c_app c' = c_app c" "c_peers c' = c_peers c"
  using assms by (auto simp: ctx_Err_def split: list.splits option.splits)

lemma ctx_Err_nil [simp]: "c_ctx c = [] \<Longrightarrow> ctx_Err c = (Inr (), c)"
  by (simp add: ctx_Err_def)

lemma write_dest_ok: "write_dest d c = (Inr u, c') \<Longrightarrow> w_out (c_dest c') = w_out (c_dest c) @ d"
  by (auto simp: write_dest_def split: prod.splits dest: writeAll_ok)

lemma write_dest_clean:
  "w_script (c_dest c) = [] \<Longrightarrow>
     write_dest d c = (Inr (), c\<lparr>c_dest := (c_dest c)\<lparr>w_out := w_out (c_dest c) @ d\<rparr>\<rparr>)"
  by (simp add: write_dest_def writeAll_clean)

definition data_frame :: "32 word \<Rightarrow> bytes \<Rightarrow> Frame" where
  "data_frame rid chunk = \<lparr>f_Type = Data, f_RequestID = rid, f_Metadata = ''{}'', f_Body = chunk\<rparr>"

definition end_frame :: "32 word \<Rightarrow> int \<Rightarrow> string \<Rightarrow> Frame" where
  "end_frame rid sz digest = \<lparr>f_Type = End, f_RequestID = rid,
     f_Metadata = json_print (JObject (end_members \<lparr>em_Size = sz, em_SHA256 = digest\<rparr>)), f_Body = []\<rparr>"

lemma conn_send_frame:
  assumes "conn_send kind rid ms body c = (Inr u, c')"
  shows "frame_ok \<lparr>f_Type = kind, f_RequestID = rid, f_Metadata = json_print (JObject ms), f_Body = body\<rparr> \<and>
    w_out (c_out c') = w_out (c_out c) @ encode_frame
      \<lparr>f_Type = kind, f_RequestID = rid, f_Metadata = json_print (JObject ms), f_Body = body\<rparr>"
  using assms WriteFrame_ok by (auto simp: conn_send_def send_def split: prod.splits)

subsection \<open>Bodies in chunks\<close>

lemma chunk_loop_ok:
  assumes "chunk_loop short rid sz sent acc body c = (Inr (t, a, b), c')"
  shows "\<exists>chunks. a = acc @ concat chunks \<and> stream body = concat chunks @ stream b \<and>
    r_end b = r_end body \<and> t = sent + int (length (concat chunks)) \<and> \<not> t < sz \<and>
    (sent \<le> sz \<longrightarrow> t = sz) \<and>
    w_out (c_out c') = w_out (c_out c) @ concat (map (\<lambda>ch. encode_frame (data_frame rid ch)) chunks) \<and>
    (\<forall>ch\<in>set chunks. frame_ok (data_frame rid ch)) \<and> c_in c' = c_in c \<and> c_app c' = c_app c"
  using assms
proof (induction short rid sz sent acc body c rule: chunk_loop.induct)
  case (1 short rid sz sent acc body c)
  show ?case
  proof (cases "sent < sz")
    case False
    with 1(2) show ?thesis by (intro exI [of _ "[]"]) (simp add: chunk_loop.simps)
  next
    case True
    let ?n = "if sz - sent < int MaxChunkSize then sz - sent else int MaxChunkSize"
    from True 1(2) obtain u c1 chunk body' v c2 where
      s: "ctx_Err c = (Inr u, c1)" "ReadFull (nat ?n) body = (Inr chunk, body')"
        "conn_send Data rid [] chunk c1 = (Inr v, c2)"
        "chunk_loop short rid sz (sent + int (length chunk)) (acc @ chunk) body' c2 = (Inr (t, a, b), c')"
      by (subst (asm) chunk_loop.simps) (auto simp: res_simps Let_def split: prod.splits sum.splits)
    note R = ReadFull_InrD [OF s(2)]
    from R have len: "int (length chunk) = ?n" using True by (simp add: MaxChunkSize_def)
    from 1(1) [OF True s(1) refl refl s(2) [symmetric] refl s(3) s(4)] obtain chunks where
      ih: "a = (acc @ chunk) @ concat chunks" "stream body' = concat chunks @ stream b"
        "r_end b = r_end body'" "t = sent + int (length chunk) + int (length (concat chunks))"
        "\<not> t < sz" "sent + int (length chunk) \<le> sz \<longrightarrow> t = sz"
        "w_out (c_out c') = w_out (c_out c2) @ concat (map (\<lambda>ch. encode_frame (data_frame rid ch)) chunks)"
        "\<forall>ch\<in>set chunks. frame_ok (data_frame rid ch)" "c_in c' = c_in c2" "c_app c' = c_app c2"
      by blast
    have w: "frame_ok (data_frame rid chunk)"
      "w_out (c_out c2) = w_out (c_out c) @ encode_frame (data_frame rid chunk)"
      using conn_send_frame [OF s(3)] ctx_Err_fields [OF s(1)] by (simp_all add: data_frame_def)
    have "stream body = chunk @ stream body'" "r_end body' = r_end body"
      using R append_take_drop_id [of "nat ?n" "stream body"] by simp_all
    with ih w len True ctx_Err_fields [OF s(1)] conn_send_fields [OF s(3)] show ?thesis
      by (intro exI [of _ "chunk # chunks"]) auto
  qed
qed

lemma body_ended_iff: "body_ended body \<longleftrightarrow> stream body = [] \<and> errors_is (r_end body) EOF"
proof (cases "1 \<le> length (stream body)")
  case True
  then obtain r where "ReadFull 1 body = (Inr (take 1 (stream body)), r)" by (rule ReadFull_ok)
  with True show ?thesis by (auto simp: body_ended_def)
next
  case False
  then have "length (stream body) < 1" by (simp only: not_le)
  then obtain r where "ReadFull 1 body = (Inl (if stream body \<noteq> [] \<and> r_end body = EOF
      then UnexpectedEOF else r_end body), r)" by (rule ReadFull_short) blast
  moreover have "stream body = []" using False by (cases "stream body") simp_all
  ultimately show ?thesis by (simp add: body_ended_def)
qed

subsection \<open>Receiving a body\<close>

text \<open>An ERROR frame is always an error for whoever expects another type.\<close>

lemma expect_Error: "f_Type f = Error \<Longrightarrow> \<exists>e. expect f kind rid = Inl e"
  by (auto simp: expect_def split: sum.splits)

lemma expect_Inr: "expect f kind rid = Inr u \<Longrightarrow> f_RequestID f = rid \<and> f_Type f = kind \<and> kind \<noteq> Error"
  by (auto simp: expect_def split: if_splits sum.splits)

text \<open>The cases of one round of the receiving loop that returns normally.\<close>

lemma receive_loop_cases:
  assumes "receive_loop a b sha rid sz received acc c = (Inr d, c')"
  obtains (data) f c1 u c3 where "conn_read c = (Inr f, c1)" "f_RequestID f = rid" "f_Type f = Data"
      "DecodeMetadata f [] () [] = Inr ()" "int (length (f_Body f)) \<le> sz - received"
      "write_dest (f_Body f) c1 = (Inr u, c3)"
      "receive_loop a b sha rid sz (received + int (length (f_Body f))) (acc @ f_Body f) c3 = (Inr d, c')"
    | (ending) f c1 e u where "conn_read c = (Inr f, c1)" "f_RequestID f = rid" "f_Type f = End"
      "DecodeMetadata f end_table end_zero [''size'', ''sha256''] = Inr e" "received = sz"
      "em_Size e = sz" "em_SHA256 e = EncodeToString (sha acc)" "ctx_Err c1 = (Inr u, c')"
      "d = EncodeToString (sha acc)"
proof -
  from assms obtain f c1 where r: "conn_read c = (Inr f, c1)" and id: "f_RequestID f = rid"
    by (subst (asm) receive_loop.simps) (auto simp: res_simps)
  note step = assms [unfolded receive_loop.simps [of a b sha rid sz received acc c]
      andThen_ok [where m = conn_read, OF r]]
  consider "f_Type f = Data" | "f_Type f = End" | "f_Type f = Error"
    | "f_Type f \<noteq> Data" "f_Type f \<noteq> End" "f_Type f \<noteq> Error" by blast
  then show thesis
  proof cases
    case 1
    with step id show thesis by (auto simp: res_simps not_less intro: data [OF r])
  next
    case 2
    with step id show thesis by (auto simp: res_simps Let_def intro: ending [OF r])
  next
    case 3
    with step id expect_Error [OF 3, of End rid] show thesis by (auto simp: res_simps)
  next
    case 4
    with step id show thesis by (simp add: res_simps)
  qed
qed

lemma receive_loop_sound:
  assumes "receive_loop a b sha rid sz received acc c = (Inr d, c')"
  shows "\<exists>got. w_out (c_dest c') = w_out (c_dest c) @ got \<and>
    received + int (length got) = sz \<and> d = EncodeToString (sha (acc @ got)) \<and>
    c_out c' = c_out c \<and> c_app c' = c_app c \<and> c_set c' = c_set c"
  using assms
proof (induction a b sha rid sz received acc c rule: receive_loop.induct)
  case (1 a b sha rid sz received acc c)
  from 1(2) show ?case
  proof (cases rule: receive_loop_cases)
    case (data f c1 u c3)
    have c3: "c_out c3 = c_out c" "c_app c3 = c_app c" "c_set c3 = c_set c"
      "w_out (c_dest c3) = w_out (c_dest c) @ f_Body f"
      using conn_read_fields [OF data(1)] write_dest_fields [OF data(6)] write_dest_ok [OF data(6)] by auto
    have "lift (DecodeMetadata f [] () []) c1 = (Inr (), c1)" using data(4) by (simp add: lift_def)
    from 1(1) [OF data(1) _ data(3) this _ data(6,7)] data(2,5) obtain got where
      "w_out (c_dest c') = w_out (c_dest c3) @ got"
      "received + int (length (f_Body f)) + int (length got) = sz"
      "d = EncodeToString (sha ((acc @ f_Body f) @ got))" "c_out c' = c_out c3" "c_app c' = c_app c3"
      "c_set c' = c_set c3" by force
    with c3 show ?thesis by (intro exI [of _ "f_Body f @ got"]) simp
  next
    case (ending f c1 e u)
    with conn_read_fields [OF ending(1)] ctx_Err_fields [OF ending(8)] show ?thesis
      by (intro exI [of _ "[]"]) simp
  qed
qed

text \<open>Whatever the peer sends and however the call ends, no more than the announced size is written.\<close>

lemma receive_loop_bound:
  "received \<le> sz \<Longrightarrow> receive_loop a b sha rid sz received acc c = (x, c') \<Longrightarrow>
     \<exists>got. w_out (c_dest c') = w_out (c_dest c) @ got \<and> int (length got) \<le> sz - received"
proof (induction a b sha rid sz received acc c rule: receive_loop.induct)
  case (1 a b sha rid sz received acc c)
  obtain y c1 where r: "conn_read c = (y, c1)" by fastforce
  have d1: "c_dest c1 = c_dest c" using r by (rule conn_read_fields)
  show ?case
  proof (cases "\<exists>f. y = Inr f \<and> f_RequestID f = rid \<and> f_Type f = Data \<and>
      DecodeMetadata f [] () [] = Inr () \<and> int (length (f_Body f)) \<le> sz - received")
    case False
    with 1(3) r have "c_dest c' = c_dest c1"
      by (subst (asm) receive_loop.simps)
        (auto simp: andThen_def lift_def fail_def ret_def Let_def split: prod.splits sum.splits if_splits
          dest: ctx_Err_fields(3))
    with d1 1(2) show ?thesis by (intro exI [of _ "[]"]) simp
  next
    case True
    then obtain f where f: "y = Inr f" "f_RequestID f = rid" "f_Type f = Data"
      "DecodeMetadata f [] () [] = Inr ()" "int (length (f_Body f)) \<le> sz - received" by blast
    obtain z c3 where w: "write_dest (f_Body f) c1 = (z, c3)" by fastforce
    from w obtain p q where p: "f_Body f = p @ q" "w_out (c_dest c3) = w_out (c_dest c1) @ p"
      "is_ok z \<longrightarrow> q = []"
      using writeAll_prefix [of "f_Body f" "c_dest c1"] by (fastforce simp: write_dest_def split: prod.splits)
    have l: "lift (DecodeMetadata f [] () []) c1 = (Inr (), c1)" using f(4) by (simp add: lift_def)
    have step: "receive_loop a b sha rid sz received acc c = andThen (write_dest (f_Body f))
        (\<lambda>_. receive_loop a b sha rid sz (received + int (length (f_Body f))) (acc @ f_Body f)) c1"
      using r f l by (subst receive_loop.simps) (simp add: andThen_def)
    show ?thesis
    proof (cases z)
      case (Inl e)
      with step w 1(3) have "c' = c3" by (simp add: andThen_def)
      with p d1 f(5) show ?thesis by (intro exI [of _ p]) simp
    next
      case (Inr u)
      with step w 1(3) have "receive_loop a b sha rid sz (received + int (length (f_Body f)))
          (acc @ f_Body f) c3 = (x, c')" by (simp add: andThen_def)
      with 1(1) [OF r [unfolded f(1)] _ f(3) l _ w [unfolded Inr]] f obtain got where
        "w_out (c_dest c') = w_out (c_dest c3) @ got"
        "int (length got) \<le> sz - (received + int (length (f_Body f)))" by auto
      with p d1 Inr show ?thesis by (intro exI [of _ "p @ got"]) auto
    qed
  qed
qed

subsection \<open>A body sent is a body received\<close>

lemma end_good_hex: "int64_ok n \<Longrightarrow> end_good \<lparr>em_Size = n, em_SHA256 = EncodeToString d\<rparr>"
proof -
  have "ord y div 16 < 16" for y using ord_lt_256 [of y] by linarith
  then have "\<forall>c\<in>set (EncodeToString d). ord c < 128" by (auto simp: EncodeToString_def)
  then show "int64_ok n \<Longrightarrow> ?thesis" by (simp add: end_good_def utf8_valid_ascii)
qed

lemma data_frame_meta: "DecodeMetadata (data_frame rid ch) [] () [] = Inr ()"
  using empty_msg.decode_print [of "data_frame rid ch"] empty_object by (simp add: data_frame_def)

lemma end_frame_meta:
  assumes "frame_ok (end_frame rid sz digest)" "end_good \<lparr>em_Size = sz, em_SHA256 = digest\<rparr>"
  shows "DecodeMetadata (end_frame rid sz digest) end_table end_zero [''size'', ''sha256''] =
    Inr \<lparr>em_Size = sz, em_SHA256 = digest\<rparr>"
  by (rule end_msg.decode_print [OF assms(2)])
    (use assms(1) in \<open>simp_all add: frame_ok_def is_ok_unit end_frame_def\<close>)

lemma conn_read_frame:
  assumes "frame_ok f" "stream (c_in c) = encode_frame f @ rest"
  obtains r where "conn_read c = (Inr f, c\<lparr>c_in := r\<rparr>)" "stream r = rest" "r_end r = r_end (c_in c)"
proof -
  obtain r where "ReadFrame (c_in c) = (Inr f, r)" "stream r = rest" "r_end r = r_end (c_in c)"
    using assms by (rule ReadFrame_encode)
  then show thesis using that by (simp add: conn_read_def)
qed

lemma receive_loop_complete:
  assumes "stream (c_in c) = concat (map (\<lambda>ch. encode_frame (data_frame rid ch)) chunks) @
      encode_frame (end_frame rid sz (EncodeToString (sha (acc @ concat chunks)))) @ rest"
    "\<forall>ch\<in>set chunks. frame_ok (data_frame rid ch)"
    "frame_ok (end_frame rid sz (EncodeToString (sha (acc @ concat chunks))))"
    "received + int (length (concat chunks)) = sz" "w_script (c_dest c) = []" "c_ctx c = []" "int64_ok sz"
  shows "\<exists>r. receive_loop a b sha rid sz received acc c =
      (Inr (EncodeToString (sha (acc @ concat chunks))),
       c\<lparr>c_in := r, c_dest := (c_dest c)\<lparr>w_out := w_out (c_dest c) @ concat chunks\<rparr>\<rparr>) \<and>
    stream r = rest \<and> r_end r = r_end (c_in c)"
  using assms
proof (induction chunks arbitrary: c acc received)
  case Nil
  let ?d = "EncodeToString (sha acc)"
  obtain r where r: "conn_read c = (Inr (end_frame rid sz ?d), c\<lparr>c_in := r\<rparr>)"
      "stream r = rest" "r_end r = r_end (c_in c)"
    using conn_read_frame [of "end_frame rid sz ?d" c rest] Nil(1,3) by auto
  have m: "DecodeMetadata (end_frame rid sz ?d) end_table end_zero [''size'', ''sha256''] =
      Inr \<lparr>em_Size = sz, em_SHA256 = ?d\<rparr>"
    using end_frame_meta Nil(3,7) end_good_hex by simp
  have "f_Type (end_frame rid sz ?d) = End" "f_RequestID (end_frame rid sz ?d) = rid"
    by (simp_all add: end_frame_def)
  then have "receive_loop a b sha rid sz received acc c = (Inr ?d, c\<lparr>c_in := r\<rparr>)"
    using Nil(4,6) m
    by (subst receive_loop.simps) (simp add: andThen_def r(1) lift_def Let_def ret_def)
  with r show ?case by (intro exI [of _ r]) simp
next
  case (Cons ch chunks)
  let ?rest = "concat (map (\<lambda>ch. encode_frame (data_frame rid ch)) chunks) @
      encode_frame (end_frame rid sz (EncodeToString (sha (acc @ concat (ch # chunks))))) @ rest"
  obtain r where r: "conn_read c = (Inr (data_frame rid ch), c\<lparr>c_in := r\<rparr>)"
      "stream r = ?rest" "r_end r = r_end (c_in c)"
    using conn_read_frame [of "data_frame rid ch" c ?rest] Cons.prems(1,2) by auto
  let ?c3 = "c\<lparr>c_in := r, c_dest := (c_dest c)\<lparr>w_out := w_out (c_dest c) @ ch\<rparr>\<rparr>"
  have w: "write_dest ch (c\<lparr>c_in := r\<rparr>) = (Inr (), ?c3)"
    using write_dest_clean [of "c\<lparr>c_in := r\<rparr>" ch] Cons.prems(5) by simp
  have f: "f_Type (data_frame rid ch) = Data" "f_RequestID (data_frame rid ch) = rid"
    "f_Body (data_frame rid ch) = ch" by (simp_all add: data_frame_def)
  have step: "receive_loop a b sha rid sz received acc c =
      receive_loop a b sha rid sz (received + int (length ch)) (acc @ ch) ?c3"
    using Cons.prems(4) w
    by (subst receive_loop.simps) (simp add: andThen_def r(1) lift_def data_frame_meta f)
  have "\<exists>r'. receive_loop a b sha rid sz (received + int (length ch)) (acc @ ch) ?c3 =
      (Inr (EncodeToString (sha ((acc @ ch) @ concat chunks))),
       ?c3\<lparr>c_in := r', c_dest := (c_dest ?c3)\<lparr>w_out := w_out (c_dest ?c3) @ concat chunks\<rparr>\<rparr>) \<and>
      stream r' = rest \<and> r_end r' = r_end (c_in ?c3)"
    by (rule Cons.IH) (use Cons.prems r in simp_all)
  with step r(3) show ?case by auto
qed

lemma sendBody_ok:
  assumes "sendBody sha rid body sz c = (Inr (), c')" "0 \<le> sz" "int64_ok sz"
  shows "\<exists>chunks. stream body = concat chunks \<and> int (length (stream body)) = sz \<and>
    errors_is (r_end body) EOF \<and> (\<forall>ch\<in>set chunks. frame_ok (data_frame rid ch)) \<and>
    frame_ok (end_frame rid sz (EncodeToString (sha (stream body)))) \<and>
    w_out (c_out c') = w_out (c_out c) @ concat (map (\<lambda>ch. encode_frame (data_frame rid ch)) chunks) @
      encode_frame (end_frame rid sz (EncodeToString (sha (stream body)))) \<and>
    c_in c' = c_in c \<and> c_app c' = c_app c"
proof -
  from assms(1) obtain t acc b c1 where
    l: "chunk_loop ''body ended before its announced size'' rid sz 0 [] body c = (Inr (t, acc, b), c1)"
    and e: "body_ended b"
    and s: "conn_send End rid (end_members \<lparr>em_Size = t, em_SHA256 = EncodeToString (sha acc)\<rparr>) [] c1 =
      (Inr (), c')"
    by (auto simp: sendBody_def finish_body_def res_simps)
  have e': "stream b = []" "errors_is (r_end b) EOF" using e by (simp_all add: body_ended_iff)
  from chunk_loop_ok [OF l] obtain chunks where
    "acc = [] @ concat chunks" "stream body = concat chunks @ stream b" "r_end b = r_end body"
    "t = 0 + int (length (concat chunks))" "0 \<le> sz \<longrightarrow> t = sz"
    "w_out (c_out c1) = w_out (c_out c) @ concat (map (\<lambda>ch. encode_frame (data_frame rid ch)) chunks)"
    "\<forall>ch\<in>set chunks. frame_ok (data_frame rid ch)" "c_in c1 = c_in c" "c_app c1 = c_app c"
    by blast
  with assms(2) e' conn_send_frame [OF s] conn_send_fields [OF s] show ?thesis
    by (intro exI [of _ chunks]) (simp add: end_frame_def)
qed

subsection \<open>Working connections\<close>

text \<open>A connection on which nothing is scripted to fail.\<close>

definition works :: "'h conn \<Rightarrow> bool" where
  "works c \<longleftrightarrow> c_ctx c = [] \<and> c_set c = [] \<and> w_script (c_out c) = []"

lemma frame_ok_nobody:
  assumes "validateJSON m = Inr ()" "rid \<noteq> 0" "kind = Request \<or> kind = Response \<or> kind = End \<or> kind = Continue"
  shows "frame_ok \<lparr>f_Type = kind, f_RequestID = rid, f_Metadata = m, f_Body = []\<rparr>"
proof -
  from assms(1) have l: "length m \<le> 8192" "2 \<le> length m"
    by (simp_all add: validateJSON_iff MaxMetadataSize_def)
  then have "\<not> (word_of_nat (length m) :: 32 word) < 2" "\<not> (8192 :: 32 word) < word_of_nat (length m)"
    by (simp_all add: word_less_nat_alt unat_word32)
  with assms l show ?thesis
    by (auto simp: frame_ok_def is_ok_unit validateHeader_def MaxMetadataSize_def MaxChunkSize_def)
qed

lemma data_frame_ok:
  assumes "rid \<noteq> 0" "ch \<noteq> []" "length ch \<le> MaxChunkSize"
  shows "frame_ok (data_frame rid ch)"
proof -
  have "(word_of_nat (length ch) :: 32 word) \<noteq> 0" "\<not> (65536 :: 32 word) < word_of_nat (length ch)"
    using assms unat_word32 [of "length ch"]
    by (auto simp: MaxChunkSize_def word_less_nat_alt unat_eq_0 [symmetric])
  then show ?thesis using assms
    by (auto simp: frame_ok_def data_frame_def is_ok_unit empty_object validateHeader_def
        MaxMetadataSize_def MaxChunkSize_def)
qed

lemma nat_dec_length: "n < 10 ^ k \<Longrightarrow> 0 < k \<Longrightarrow> length (nat_dec n) \<le> k"
proof (induction n arbitrary: k rule: nat_dec.induct)
  case (1 n)
  show ?case
  proof (cases "n < 10")
    case True
    with 1(3) show ?thesis by (subst nat_dec.simps) simp
  next
    case False
    obtain j where j: "k = Suc j" using 1(3) by (cases k) auto
    have j0: "0 < j" using 1(2) False j by (cases j) auto
    have "n div 10 < 10 ^ j" using 1(2) j by (simp add: div_less_iff_less_mult mult.commute)
    from 1(1) [OF False this j0] False j show ?thesis by (subst nat_dec.simps) simp
  qed
qed

lemma Itoa_length: "int64_ok i \<Longrightarrow> length (Itoa i) \<le> 20"
proof -
  assume i: "int64_ok i"
  then have "nat \<bar>i\<bar> < 10 ^ 19" by (auto simp: int64_ok_def nat_less_iff)
  from nat_dec_length [OF this] show ?thesis by (auto simp: Itoa_def split: if_splits)
qed

lemma conn_send_clean:
  assumes "frame_ok \<lparr>f_Type = kind, f_RequestID = rid, f_Metadata = json_print (JObject ms), f_Body = body\<rparr>"
    "w_script (c_out c) = []"
  shows "conn_send kind rid ms body c = (Inr (), c\<lparr>c_out := (c_out c)\<lparr>w_out := w_out (c_out c) @ encode_frame
    \<lparr>f_Type = kind, f_RequestID = rid, f_Metadata = json_print (JObject ms), f_Body = body\<rparr>\<rparr>\<rparr>)"
  using WriteFrame_clean [OF assms] by (simp add: conn_send_def send_def)

lemma SetDeadline_clean: "c_set c = [] \<Longrightarrow> SetDeadline t c = (Inr (), c\<lparr>c_readDeadline := t, c_writeDeadline := t\<rparr>)"
  by (simp add: SetDeadline_def andThen_def next_set_def)

lemma split_at:
  fixes n :: int
  assumes "0 < n" "n \<le> sz - sent"
  shows "take (nat n) xs @ take (nat (sz - (sent + n))) (drop (nat n) xs) = take (nat (sz - sent)) xs"
    "drop (nat (sz - (sent + n))) (drop (nat n) xs) = drop (nat (sz - sent)) xs"
proof -
  have "nat (sz - sent) = nat n + nat (sz - (sent + n))" using assms by (simp add: nat_add_distrib [symmetric])
  then show "take (nat n) xs @ take (nat (sz - (sent + n))) (drop (nat n) xs) = take (nat (sz - sent)) xs"
    "drop (nat (sz - (sent + n))) (drop (nat n) xs) = drop (nat (sz - sent)) xs"
    by (simp_all add: take_add add.commute)
qed

lemma chunk_loop_complete:
  assumes "works c" "rid \<noteq> 0" "sz - sent \<le> int (length (stream body))" "sent \<le> sz"
  shows "\<exists>b c'. chunk_loop short rid sz sent acc body c =
      (Inr (sz, acc @ take (nat (sz - sent)) (stream body), b), c') \<and>
    works c' \<and> stream b = drop (nat (sz - sent)) (stream body) \<and> r_end b = r_end body"
  using assms
proof (induction short rid sz sent acc body c rule: chunk_loop.induct)
  case (1 short rid sz sent acc body c)
  show ?case
  proof (cases "sent < sz")
    case False
    with 1(5) have "sent = sz" by simp
    with 1(2) show ?thesis by (subst chunk_loop.simps) simp
  next
    case True
    let ?n = "if sz - sent < int MaxChunkSize then sz - sent else int MaxChunkSize"
    have n: "0 < ?n" "?n \<le> int MaxChunkSize" "?n \<le> sz - sent" using True by (auto simp: MaxChunkSize_def)
    have "nat ?n \<le> length (stream body)" using n 1(4) by linarith
    then obtain b where b: "ReadFull (nat ?n) body = (Inr (take (nat ?n) (stream body)), b)"
      "stream b = drop (nat ?n) (stream body)" "r_end b = r_end body" by (rule ReadFull_ok)
    let ?ch = "take (nat ?n) (stream body)"
    have len: "int (length ?ch) = ?n" using n 1(4) by simp
    have e: "ctx_Err c = (Inr (), c)" using 1(2) by (simp add: works_def)
    have f: "frame_ok (data_frame rid ?ch)"
      by (rule data_frame_ok) (use 1(3) n len in \<open>auto simp: MaxChunkSize_def\<close>)
    have s: "conn_send Data rid [] ?ch c = (Inr (), c\<lparr>c_out := (c_out c)\<lparr>w_out := w_out (c_out c) @
        encode_frame (data_frame rid ?ch)\<rparr>\<rparr>)" (is "_ = (_, ?c2)")
      using conn_send_clean [of Data rid "[]" ?ch c] f 1(2) by (simp add: data_frame_def works_def)
    have w: "works ?c2" using 1(2) by (simp add: works_def)
    have "\<exists>b' c'. chunk_loop short rid sz (sent + int (length ?ch)) (acc @ ?ch) b ?c2 =
        (Inr (sz, (acc @ ?ch) @ take (nat (sz - (sent + int (length ?ch)))) (stream b), b'), c') \<and> works c' \<and>
        stream b' = drop (nat (sz - (sent + int (length ?ch)))) (stream b) \<and> r_end b' = r_end b"
      by (rule 1(1) [OF True e refl refl b(1) [symmetric] refl s w 1(3)])
        (use b(2) n 1(4) len in \<open>simp_all add: of_nat_diff\<close>)
    moreover have "chunk_loop short rid sz sent acc body c =
        chunk_loop short rid sz (sent + int (length ?ch)) (acc @ ?ch) b ?c2"
      using True b(1) e s by (subst chunk_loop.simps) (simp add: andThen_def Let_def)
    moreover have "take (nat ?n) (stream body) @ take (nat (sz - (sent + ?n))) (stream b) =
        take (nat (sz - sent)) (stream body)"
      "drop (nat (sz - (sent + ?n))) (stream b) = drop (nat (sz - sent)) (stream body)"
      unfolding b(2) by (rule split_at [OF n(1,3)])+
    ultimately show ?thesis using b(3) unfolding len by (simp only: append_assoc)
  qed
qed


lemma escape_body_plain:
  "\<forall>c\<in>set s. ord c < 128 \<and> 32 \<le> ord c \<and> ord c \<notin> {34, 92, 60, 62, 38} \<Longrightarrow> escape_body s = s"
  by (induction s) (simp_all add: escape_body_def escape_unit_def)

lemma end_frame_ok:
  assumes "rid \<noteq> 0" "int64_ok sz" "length d \<le> 64"
  shows "frame_ok (end_frame rid sz (EncodeToString d))"
proof -
  let ?e = "\<lparr>em_Size = sz, em_SHA256 = EncodeToString d\<rparr>"
  have a: "\<forall>c\<in>set (EncodeToString d). ord c < 128 \<and> 48 \<le> ord c \<and> ord c \<notin> {60, 62, 92}"
  proof -
    have "ord y div 16 < 16" for y using ord_lt_256 [of y] by linarith
    moreover have "x < 16 \<Longrightarrow> ord (hex_digit x) < 128 \<and> 48 \<le> ord (hex_digit x) \<and>
        ord (hex_digit x) \<notin> {60, 62, 92}" for x by (auto simp: hex_digit_def)
    ultimately show ?thesis by (auto simp: EncodeToString_def)
  qed
  then have b: "escape_body (EncodeToString d) = EncodeToString d"
    by (intro escape_body_plain) auto
  have k: "escape_body ''size'' = ''size''" "escape_body ''sha256'' = ''sha256''"
    by (simp_all add: escape_body_def runes_ascii escape_unit_def)
  have "length (json_print (JObject (end_members ?e))) \<le> MaxMetadataSize"
    using Itoa_length [OF assms(2)] assms(3)
    by (simp add: end_members_def json_quote_def k b MaxMetadataSize_def)
  from end_msg.print_valid [OF end_good_hex [OF assms(2)] this] show ?thesis
    unfolding end_frame_def by (rule frame_ok_nobody [OF _ assms(1)]) simp
qed

lemma sendBody_completes:
  assumes "works c" "rid \<noteq> 0" "int (length (stream body)) = sz" "sz \<le> MaxResourceSize" "r_end body = EOF"
    "length (sha (stream body)) \<le> 64"
  shows "\<exists>c'. sendBody sha rid body sz c = (Inr (), c')"
proof -
  have i: "int64_ok sz" using assms(3,4) by (simp add: int64_ok_def MaxResourceSize_def)
  from chunk_loop_complete [OF assms(1,2), of sz 0 body "''body ended before its announced size''" "[]"] assms(3)
  obtain b c1 where l: "chunk_loop ''body ended before its announced size'' rid sz 0 [] body c =
      (Inr (sz, stream body, b), c1)" "works c1" "stream b = []" "r_end b = EOF"
    using assms(5) by auto
  have "body_ended b" using l by (simp add: body_ended_iff)
  moreover have "frame_ok (end_frame rid sz (EncodeToString (sha (stream body))))"
    by (rule end_frame_ok [OF assms(2) i assms(6)])
  ultimately show ?thesis
    using l(1,2) conn_send_clean [of End rid "end_members \<lparr>em_Size = sz, em_SHA256 = EncodeToString (sha (stream body))\<rparr>" "[]" c1]
    by (simp add: sendBody_def finish_body_def andThen_def works_def end_frame_def)
qed


definition sample_conn :: "bytes \<Rightarrow> unit conn" where
  "sample_conn input =
     \<lparr>c_in = whole input, c_out = fresh_writer, c_dest = fresh_writer, c_ctx = [], c_set = [],
      c_now = 0, c_ticks = [], c_readDeadline = None, c_writeDeadline = None, c_closed = False,
      c_peers = newPeerLimiter 1 1, c_app = ()\<rparr>"

lemma sample_works: "works (sample_conn input)"
  by (simp add: works_def sample_conn_def fresh_writer_def)

lemma sample_fields [simp]:
  "c_in (sample_conn i) = whole i" "w_out (c_out (sample_conn i)) = []" "w_out (c_dest (sample_conn i)) = []"
  "w_script (c_dest (sample_conn i)) = []" "w_script (c_out (sample_conn i)) = []" "c_ctx (sample_conn i) = []"
  "c_set (sample_conn i) = []" "c_app (sample_conn i) = ()"
  by (simp_all add: sample_conn_def fresh_writer_def)

text \<open>
  Sending succeeds when nothing fails: for a body that holds exactly the announced
  bytes and then ends, on a working connection, \<open>sendBody\<close> returns normally (so the loop
  over the chunks ends and neither the size check nor the end-of-body check misfires).
\<close>

theorem sendBody_complete:
  assumes "works c" "rid \<noteq> 0" "int (length (stream body)) = sz" "sz \<le> MaxResourceSize" "r_end body = EOF"
    "length (sha (stream body)) \<le> 64"
  shows "\<exists>c'. sendBody sha rid body sz c = (Inr (), c')"
  using assms by (rule sendBody_completes)

text \<open>
  A body that \<open>sendBody\<close> reports sent is received whole: a peer reading those
  bytes with \<open>receiveBody\<close> for the same request and size delivers exactly the body to its
  destination, returns its SHA-256, and leaves on the stream whatever follows.
\<close>

theorem sendBody_receiveBody:
  assumes "sendBody sha rid body sz c = (Inr (), c')" "0 \<le> sz" "int64_ok sz"
    "stream (c_in d) = drop (length (w_out (c_out c))) (w_out (c_out c')) @ rest"
    "w_script (c_dest d) = []" "c_ctx d = []"
  shows "\<exists>r. receiveBody sha rid sz d =
      (Inr (EncodeToString (sha (stream body))),
       d\<lparr>c_in := r, c_dest := (c_dest d)\<lparr>w_out := w_out (c_dest d) @ stream body\<rparr>\<rparr>) \<and>
    stream r = rest \<and> int (length (stream body)) = sz"
proof -
  from sendBody_ok [OF assms(1-3)] obtain chunks where
    b: "stream body = concat chunks" "int (length (stream body)) = sz"
      "\<forall>ch\<in>set chunks. frame_ok (data_frame rid ch)"
      "frame_ok (end_frame rid sz (EncodeToString (sha (stream body))))"
      "w_out (c_out c') = w_out (c_out c) @ concat (map (\<lambda>ch. encode_frame (data_frame rid ch)) chunks) @
        encode_frame (end_frame rid sz (EncodeToString (sha (stream body))))" by blast
  have "\<exists>r. receive_loop ''body request ID mismatch'' ''body size or SHA-256 mismatch'' sha rid sz 0 [] d =
      (Inr (EncodeToString (sha ([] @ concat chunks))),
       d\<lparr>c_in := r, c_dest := (c_dest d)\<lparr>w_out := w_out (c_dest d) @ concat chunks\<rparr>\<rparr>) \<and>
    stream r = rest \<and> r_end r = r_end (c_in d)"
    by (rule receive_loop_complete) (use assms(3-6) b in simp_all)
  with b show ?thesis by (auto simp: receiveBody_def)
qed

text \<open>
  \<open>receiveBody\<close> trusts nothing: when it returns normally the destination has
  received exactly the announced number of bytes and the digest returned is theirs; and
  however it ends, it never writes more than was announced.
\<close>

theorem receiveBody_sound:
  assumes "0 \<le> sz" "receiveBody sha rid sz c = (x, c')"
  shows "\<exists>got. w_out (c_dest c') = w_out (c_dest c) @ got \<and> int (length got) \<le> sz \<and>
     (\<forall>digest. x = Inr digest \<longrightarrow> int (length got) = sz \<and> digest = EncodeToString (sha got))"
proof (cases x)
  case (Inl e)
  with receive_loop_bound [of 0 sz] assms show ?thesis by (auto simp: receiveBody_def)
next
  case (Inr d)
  with receive_loop_sound [of _ _ sha rid sz 0 "[]" c d c'] assms show ?thesis
    by (auto simp: receiveBody_def)
qed

end
