(* ===== verification/Proxy.thy ===== *)
theory Proxy
  imports ConfigJson Net Conn
begin

text \<open>
  \<open>src/proxy.go\<close>: the control messages of a local proxy, the handshake that precedes the
  opaque TLS stream, and the adapter and dialer built on it.
\<close>

subsection \<open>Messages\<close>

definition ProxyMagic :: string where
  "ProxyMagic = ''DPRX0001''"

definition MaxProxyMessage :: nat where
  "MaxProxyMessage = 4096"

definition ProxyTransport :: string where
  "ProxyTransport = ''deep-proxy''"

record ProxyRequest =
  pq_Version :: int
  pq_Operation :: string
  pq_Authority :: string
  pq_PinSHA256 :: string

record ProxyResponse =
  pp_Version :: int
  pp_OK :: bool
  pp_PinSHA256 :: string
  pp_Error :: string

text \<open>A field tagged \<open>omitempty\<close> is left out when it is the empty string.\<close>

definition omitempty :: "string \<Rightarrow> string \<Rightarrow> (bytes \<times> jvalue) list" where
  "omitempty name s = (if s = [] then [] else [(name, JString s)])"

definition proxy_request_members :: "ProxyRequest \<Rightarrow> (bytes \<times> jvalue) list" where
  "proxy_request_members q =
     [(''version'', JNumber (Itoa (pq_Version q))), (''operation'', JString (pq_Operation q)),
      (''authority'', JString (pq_Authority q))] @ omitempty ''pin_sha256'' (pq_PinSHA256 q)"

definition proxy_request_table :: "ProxyRequest table" where
  "proxy_request_table =
     [(''version'', set_int (\<lambda>i q. q\<lparr>pq_Version := i\<rparr>)),
      (''operation'', set_string (\<lambda>s q. q\<lparr>pq_Operation := s\<rparr>)),
      (''authority'', set_string (\<lambda>s q. q\<lparr>pq_Authority := s\<rparr>)),
      (''pin_sha256'', set_string (\<lambda>s q. q\<lparr>pq_PinSHA256 := s\<rparr>))]"

definition proxy_request_shape :: shape where
  "proxy_request_shape = Struct
     [(''version'', False, Plain), (''operation'', False, Plain), (''authority'', False, Plain),
      (''pin_sha256'', True, Plain)]"

definition proxy_request_zero :: ProxyRequest where
  "proxy_request_zero = \<lparr>pq_Version = 0, pq_Operation = [], pq_Authority = [], pq_PinSHA256 = []\<rparr>"

definition proxy_response_members :: "ProxyResponse \<Rightarrow> (bytes \<times> jvalue) list" where
  "proxy_response_members p =
     [(''version'', JNumber (Itoa (pp_Version p))), (''ok'', JBool (pp_OK p))] @
     omitempty ''pin_sha256'' (pp_PinSHA256 p) @ omitempty ''error'' (pp_Error p)"

definition proxy_response_table :: "ProxyResponse table" where
  "proxy_response_table =
     [(''version'', set_int (\<lambda>i p. p\<lparr>pp_Version := i\<rparr>)),
      (''ok'', set_bool (\<lambda>b p. p\<lparr>pp_OK := b\<rparr>)),
      (''pin_sha256'', set_string (\<lambda>s p. p\<lparr>pp_PinSHA256 := s\<rparr>)),
      (''error'', set_string (\<lambda>s p. p\<lparr>pp_Error := s\<rparr>))]"

definition proxy_response_shape :: shape where
  "proxy_response_shape = Struct
     [(''version'', False, Plain), (''ok'', False, Plain), (''pin_sha256'', True, Plain),
      (''error'', True, Plain)]"

definition proxy_response_zero :: ProxyResponse where
  "proxy_response_zero = \<lparr>pp_Version = 0, pp_OK = False, pp_PinSHA256 = [], pp_Error = []\<rparr>"

text \<open>The bytes of one message, and the reading of them before they are decoded.\<close>

definition proxy_header :: "bytes \<Rightarrow> bytes" where
  "proxy_header data = ProxyMagic @ PutUint32 (word_of_nat (length data))"

definition WriteProxyMessage :: "(bytes \<times> jvalue) list \<Rightarrow> writer \<Rightarrow> check \<times> writer" where
  "WriteProxyMessage members w =
     (let data = json_print (JObject members)
      in if length data = 0 \<or> length data > MaxProxyMessage
           then (Inl (Errorf ''proxy message exceeds 4096 bytes''), w)
         else (case writeAll (proxy_header data) w of
             (Inl e, w1) \<Rightarrow> (Inl e, w1)
           | (Inr _, w1) \<Rightarrow> writeAll data w1))"

definition read_proxy_data :: "reader \<Rightarrow> bytes res \<times> reader" where
  "read_proxy_data r =
     (case ReadFull 12 r of
        (Inl e, r1) \<Rightarrow> (Inl e, r1)
      | (Inr header, r1) \<Rightarrow>
          (let sz = Uint32 (drop 8 header)
           in if take 8 header \<noteq> ProxyMagic \<or> sz = 0 \<or> sz > word_of_nat MaxProxyMessage
                then (Inl (Errorf ''invalid native DEEP proxy frame''), r1)
              else ReadFull (unat sz) r1))"

definition ReadProxyMessage :: "shape \<Rightarrow> 'a table \<Rightarrow> 'a \<Rightarrow> reader \<Rightarrow> 'a res \<times> reader" where
  "ReadProxyMessage target tbl x r =
     (case read_proxy_data r of
        (Inl e, r1) \<Rightarrow> (Inl e, r1)
      | (Inr data, r1) \<Rightarrow> (DecodeConfigJSON target tbl x data, r1))"

subsection \<open>Addresses\<close>

definition ValidateProxyAddress :: "string \<Rightarrow> check" where
  "ValidateProxyAddress address =
     (case SplitHostPort address of
        Inl e \<Rightarrow> Inl (Errorf ''DEEP proxy must be a numeric loopback IP:PORT'')
      | Inr (host, port) \<Rightarrow>
          (case (ParseIP host, Atoi port) of
             (Some i, Some number) \<Rightarrow>
               if \<not> IsLoopback i \<or> number < 1 \<or> number > 65535 \<or> Itoa number \<noteq> port
                 then Inl (Errorf ''DEEP proxy must be a numeric loopback IP and port from 1 to 65535'')
               else Inr ()
           | _ \<Rightarrow> Inl (Errorf ''DEEP proxy must be a numeric loopback IP and port from 1 to 65535'')))"

text \<open>Percent-encoding of \<open>net/url\<close> in a host and in a path.\<close>

definition url_plain :: "char \<Rightarrow> bool" where
  "url_plain c \<longleftrightarrow> (97 \<le> ord c \<and> ord c \<le> 122) \<or> (65 \<le> ord c \<and> ord c \<le> 90) \<or> (48 \<le> ord c \<and> ord c \<le> 57) \<or>
     c \<in> set ''-_.~''"

definition upper_hex :: "nat \<Rightarrow> char" where
  "upper_hex d = (if d < 10 then char_of (48 + d) else char_of (55 + d))"

definition url_escape :: "string \<Rightarrow> string \<Rightarrow> string" where
  "url_escape keep s =
     concat (map (\<lambda>c. if url_plain c \<or> c \<in> set keep then [c]
        else [CHR ''%'', upper_hex (ord c div 16), upper_hex (ord c mod 16)]) s)"

definition host_keep :: string where
  "host_keep = [CHR ''!'', CHR ''$'', CHR ''&'', CHR 0x27, CHR ''('', CHR '')'', CHR ''*'', CHR ''+'', CHR '','',
     CHR '';'', CHR ''='', CHR '':'', CHR ''['', CHR '']'', CHR ''<'', CHR ''>'', CHR 0x22]"

definition path_keep :: string where
  "path_keep = ''$&+,/:;=@''"

text \<open>\<open>url.URL.String\<close> of a URL with a scheme, a host and a rooted path.\<close>

definition proxyEndpointAddress :: "string \<Rightarrow> string \<Rightarrow> string" where
  "proxyEndpointAddress address authority =
     ProxyTransport @ ''://'' @ url_escape host_keep address @ url_escape path_keep (CHR ''/'' # authority)"

text \<open>
  What the program reads of a parsed \<open>url.URL\<close>; the parser itself (\<open>url.Parse\<close>) is an
  argument.
\<close>

record URL =
  url_Scheme :: string
  url_Opaque :: string
  url_HasUser :: bool
  url_Host :: string
  url_Path :: string
  url_RawPath :: string
  url_ForceQuery :: bool
  url_RawQuery :: string
  url_Fragment :: string
  url_RawFragment :: string

definition parseProxyEndpoint :: "(string \<Rightarrow> URL option) \<Rightarrow> Endpoint \<Rightarrow> (string \<times> string) res" where
  "parseProxyEndpoint parse endpoint =
     (case ValidateEndpoint endpoint of
        Inl e \<Rightarrow> Inl e
      | Inr _ \<Rightarrow>
          (case parse (ep_Address endpoint) of
             None \<Rightarrow> Inl (Errorf ''invalid native DEEP proxy endpoint'')
           | Some u \<Rightarrow>
               if ep_Transport endpoint \<noteq> ProxyTransport \<or> url_Scheme u \<noteq> ProxyTransport \<or> url_HasUser u \<or>
                  url_Opaque u \<noteq> [] \<or> url_RawQuery u \<noteq> [] \<or> url_ForceQuery u \<or> url_Fragment u \<noteq> [] \<or>
                  url_RawPath u \<noteq> []
                 then Inl (Errorf ''invalid native DEEP proxy endpoint'')
               else (case ValidateProxyAddress (url_Host u) of
                   Inl e \<Rightarrow> Inl e
                 | Inr _ \<Rightarrow>
                     (let authority = TrimPrefix (url_Path u) ''/''
                      in case ValidateAuthority authority of
                           Inl e \<Rightarrow> Inl e
                         | Inr _ \<Rightarrow>
                             if ep_Address endpoint \<noteq> proxyEndpointAddress (url_Host u) authority
                               then Inl (Errorf ''noncanonical proxy endpoint'')
                             else Inr (url_Host u, authority)))))"

subsection \<open>The handshake\<close>

definition proxy_send :: "(bytes \<times> jvalue) list \<Rightarrow> (unit, 'h) io" where
  "proxy_send members c = (case WriteProxyMessage members (c_out c) of (x, w) \<Rightarrow> (x, c\<lparr>c_out := w\<rparr>))"

definition proxy_receive :: "(ProxyResponse, 'h) io" where
  "proxy_receive c =
     (case ReadProxyMessage proxy_response_shape proxy_response_table proxy_response_zero (c_in c) of
        (Inl e, r) \<Rightarrow> (Inl (Wrapf ''invalid DEEP proxy response'' e), c\<lparr>c_in := r\<rparr>)
      | (Inr p, r) \<Rightarrow> (Inr p, c\<lparr>c_in := r\<rparr>))"

definition check_response :: "ProxyRequest \<Rightarrow> ProxyResponse \<Rightarrow> check" where
  "check_response request response =
     (if pp_Version response \<noteq> 1 then Inl (Errorf ''unsupported DEEP proxy version'')
      else if \<not> pp_OK response
        then Inl (Errorf ''DEEP proxy rejected the requested authority or identity pin'')
      else case DecodeString (pp_PinSHA256 response) of
        None \<Rightarrow> Inl (Errorf ''DEEP proxy returned an invalid identity pin'')
      | Some pin \<Rightarrow>
          if length pin \<noteq> 32 \<or> length (pp_PinSHA256 response) \<noteq> 64 \<or> pp_Error response \<noteq> []
            then Inl (Errorf ''DEEP proxy returned an invalid identity pin'')
          else if pq_Operation request = ''connect'' \<and>
                  \<not> EqualFold (pq_PinSHA256 request) (pp_PinSHA256 response)
            then Inl (Errorf ''DEEP proxy identity pin changed during connection'')
          else Inr ())"

text \<open>The handshake on an open connection, under the deadline of its context.\<close>

definition proxy_exchange :: "int option \<Rightarrow> ProxyRequest \<Rightarrow> (ProxyResponse, 'h) io" where
  "proxy_exchange deadline request =
     andThen (SetDeadline deadline) (\<lambda>_.
     andThen (proxy_send (proxy_request_members request)) (\<lambda>_.
     andThen proxy_receive (\<lambda>response.
     andThen (lift (check_response request response)) (\<lambda>_.
     andThen ctx_Err (\<lambda>_.
     andThen (SetDeadline None) (\<lambda>_.
     ret response))))))"

text \<open>
  \<open>dial\<close> is what \<open>net.Dialer.DialContext\<close> answers for an address; a connection on which the
  handshake fails is closed and not returned.
\<close>

definition proxyHandshake ::
    "(string \<Rightarrow> 'h conn res) \<Rightarrow> int option \<Rightarrow> int \<Rightarrow> string \<Rightarrow> int \<Rightarrow> ProxyRequest \<Rightarrow>
     ('h conn \<times> ProxyResponse) res" where
  "proxyHandshake dial parent now address timeout0 request =
     (case ValidateProxyAddress address of
        Inl e \<Rightarrow> Inl e
      | Inr _ \<Rightarrow>
          if timeout0 < 0 then Inl (Errorf ''proxy timeout must be positive'')
          else (let timeout = (if timeout0 = 0 then 5 * Second else timeout0)
                in case dial address of
                     Inl e \<Rightarrow> Inl (Wrapf ''DEEP proxy unavailable'' e)
                   | Inr c \<Rightarrow> (case proxy_exchange (WithTimeout parent timeout now) request c of
                       (Inl e, _) \<Rightarrow> Inl e | (Inr response, c') \<Rightarrow> Inr (c', response))))"

record ProxyAdapter =
  pa_Address :: string
  pa_Timeout :: int

definition ProxyAdapter_Resolve ::
    "(string \<Rightarrow> 'h conn res) \<Rightarrow> int option \<Rightarrow> int \<Rightarrow> ProxyAdapter \<Rightarrow> adapter" where
  "ProxyAdapter_Resolve dial parent now a ctx authority =
     (if pa_Address a = [] then (Inl (Errorf ''DEEP proxy is not configured; use deep proxy set --address IP:PORT''), ctx)
      else case ValidateAuthority authority of
        Inl e \<Rightarrow> (Inl e, ctx)
      | Inr _ \<Rightarrow>
          (case proxyHandshake dial parent now (pa_Address a) (pa_Timeout a)
                  \<lparr>pq_Version = 1, pq_Operation = ''resolve'', pq_Authority = authority, pq_PinSHA256 = []\<rparr> of
             Inl e \<Rightarrow> (Inl e, ctx)
           | Inr (c, response) \<Rightarrow>
               (Inr \<lparr>ep_Address = proxyEndpointAddress (pa_Address a) authority,
                     ep_PinSHA256 = pp_PinSHA256 response, ep_Transport = ProxyTransport\<rparr>, ctx)))"

definition DialProxy ::
    "(string \<Rightarrow> URL option) \<Rightarrow> (string \<Rightarrow> 'h conn res) \<Rightarrow> int option \<Rightarrow> int \<Rightarrow> Endpoint \<Rightarrow> 'h conn res" where
  "DialProxy parse dial parent now endpoint =
     (case parseProxyEndpoint parse endpoint of
        Inl e \<Rightarrow> Inl e
      | Inr (address, authority) \<Rightarrow>
          (case proxyHandshake dial parent now address 0
                  \<lparr>pq_Version = 1, pq_Operation = ''connect'', pq_Authority = authority,
                   pq_PinSHA256 = ToLower (ep_PinSHA256 endpoint)\<rparr> of
             Inl e \<Rightarrow> Inl e | Inr (c, response) \<Rightarrow> Inr c))"

subsection \<open>The messages are read back\<close>

definition proxy_data_ok :: "bytes \<Rightarrow> bool" where
  "proxy_data_ok d \<longleftrightarrow> 1 \<le> length d \<and> length d \<le> MaxProxyMessage"

definition proxy_frame :: "bytes \<Rightarrow> bytes" where
  "proxy_frame d = proxy_header d @ d"

lemma length_proxy_header: "length (proxy_header d) = 12"
  by (simp add: proxy_header_def ProxyMagic_def)

lemma proxy_header_fields:
  assumes "proxy_data_ok d"
  shows "take 8 (proxy_header d) = ProxyMagic" "Uint32 (drop 8 (proxy_header d)) = word_of_nat (length d)"
    "unat (word_of_nat (length d) :: 32 word) = length d" "(word_of_nat (length d) :: 32 word) \<noteq> 0"
    "\<not> (word_of_nat (length d) :: 32 word) > word_of_nat MaxProxyMessage"
proof -
  show "take 8 (proxy_header d) = ProxyMagic" "Uint32 (drop 8 (proxy_header d)) = word_of_nat (length d)"
    by (simp_all add: proxy_header_def ProxyMagic_def)
  have l: "1 \<le> length d" "length d \<le> 4096" using assms by (simp_all add: proxy_data_ok_def MaxProxyMessage_def)
  then show u: "unat (word_of_nat (length d) :: 32 word) = length d" by (simp add: unat_word32)
  then show "(word_of_nat (length d) :: 32 word) \<noteq> 0" using l by auto
  show "\<not> (word_of_nat (length d) :: 32 word) > word_of_nat MaxProxyMessage"
    using l u by (simp add: word_less_nat_alt MaxProxyMessage_def)
qed

lemma read_proxy_frame:
  assumes "proxy_data_ok d" "stream r = proxy_frame d @ rest"
  shows "\<exists>r'. read_proxy_data r = (Inr d, r') \<and> stream r' = rest \<and> r_end r' = r_end r"
proof -
  have s: "stream r = proxy_header d @ d @ rest" using assms(2) by (simp add: proxy_frame_def)
  obtain r1 where 1: "ReadFull 12 r = (Inr (take 12 (stream r)), r1)" "stream r1 = drop 12 (stream r)"
    "r_end r1 = r_end r" by (rule ReadFull_ok [of 12 r]) (simp add: s length_proxy_header)
  have h: "take 12 (stream r) = proxy_header d" "stream r1 = d @ rest"
    using s 1(2) length_proxy_header [of d] by simp_all
  obtain r2 where "ReadFull (length d) r1 = (Inr (take (length d) (stream r1)), r2)"
    "stream r2 = drop (length d) (stream r1)" "r_end r2 = r_end r1"
    by (rule ReadFull_ok [of "length d" r1]) (simp add: h)
  then have "ReadFull (length d) r1 = (Inr d, r2)" "stream r2 = rest" "r_end r2 = r_end r"
    using h(2) 1(3) by simp_all
  then show ?thesis using 1(1) [unfolded h(1)] proxy_header_fields [OF assms(1)]
    by (simp add: read_proxy_data_def Let_def)
qed

lemma read_proxy_sound:
  assumes "read_proxy_data r = (Inr d, r')"
  shows "proxy_data_ok d \<and> stream r = proxy_frame d @ stream r' \<and> r_end r' = r_end r"
proof -
  from assms obtain h r1 where h: "ReadFull 12 r = (Inr h, r1)" and m: "take 8 h = ProxyMagic"
    and z: "Uint32 (drop 8 h) \<noteq> 0" "\<not> Uint32 (drop 8 h) > word_of_nat MaxProxyMessage"
    and d: "ReadFull (unat (Uint32 (drop 8 h))) r1 = (Inr d, r')"
    by (auto simp: read_proxy_data_def Let_def split: prod.splits sum.splits if_splits)
  note H = ReadFull_InrD [OF h] and D = ReadFull_InrD [OF d]
  have lh: "length h = 12" using H by simp
  have ld: "length d = unat (Uint32 (drop 8 h))" using D by simp
  moreover have "unat (Uint32 (drop 8 h)) \<noteq> 0" using z(1) by (simp add: unat_eq_0)
  moreover have "unat (Uint32 (drop 8 h)) \<le> 4096"
    using z(2) by (simp add: word_less_nat_alt MaxProxyMessage_def)
  ultimately have ok: "proxy_data_ok d" by (simp add: proxy_data_ok_def MaxProxyMessage_def)
  have "h = take 8 h @ drop 8 h" by simp
  also have "drop 8 h = PutUint32 (Uint32 (drop 8 h))" using lh by (simp add: PutUint32_Uint32)
  also have "Uint32 (drop 8 h) = word_of_nat (length d)" using ld by simp
  finally have "h = proxy_header d" using m by (simp add: proxy_header_def)
  moreover have "stream r = h @ d @ stream r'"
  proof -
    have "stream r = h @ stream r1" using append_take_drop_id [of 12 "stream r"] H(2,3) by simp
    moreover have "stream r1 = d @ stream r'"
      unfolding D(2,3) by (rule append_take_drop_id [symmetric])
    ultimately show ?thesis by simp
  qed
  ultimately show ?thesis using H(4) D(4) ok by (simp add: proxy_frame_def)
qed

interpretation proxy_wire: message_codec proxy_frame read_proxy_data proxy_data_ok
  by unfold_locales (rule read_proxy_frame, assumption+, rule read_proxy_sound)

definition proxy_request_good :: "ProxyRequest \<Rightarrow> bool" where
  "proxy_request_good q \<longleftrightarrow> int64_ok (pq_Version q) \<and> utf8_valid (pq_Operation q) \<and>
     utf8_valid (pq_Authority q) \<and> utf8_valid (pq_PinSHA256 q)"

definition proxy_response_good :: "ProxyResponse \<Rightarrow> bool" where
  "proxy_response_good p \<longleftrightarrow> int64_ok (pp_Version p) \<and> utf8_valid (pp_PinSHA256 p) \<and> utf8_valid (pp_Error p)"

lemmas proxy_structs = proxy_request_good_def proxy_request_members_def proxy_request_table_def
  proxy_request_shape_def proxy_request_zero_def proxy_response_good_def proxy_response_members_def
  proxy_response_table_def proxy_response_shape_def proxy_response_zero_def omitempty_def

interpretation proxy_request: config_struct proxy_request_shape proxy_request_table proxy_request_zero
    proxy_request_members proxy_request_good
  by unfold_locales
    (auto simp: proxy_structs config_tree_Object conforms_kinds find_field_exact utf8_literal)

interpretation proxy_response: config_struct proxy_response_shape proxy_response_table proxy_response_zero
    proxy_response_members proxy_response_good
  by unfold_locales
    (auto simp: proxy_structs config_tree_Object conforms_kinds find_field_exact utf8_literal set_bool_def)

lemma WriteProxyMessage_ok:
  assumes "WriteProxyMessage ms w = (Inr (), w')"
  shows "proxy_data_ok (json_print (JObject ms))" "w_out w' = w_out w @ proxy_frame (json_print (JObject ms))"
proof -
  define data where "data = json_print (JObject ms)"
  note a = assms [unfolded WriteProxyMessage_def Let_def, folded data_def]
  from a obtain w1 where "proxy_data_ok data" "writeAll (proxy_header data) w = (Inr (), w1)"
    "writeAll data w1 = (Inr (), w')"
    by (auto simp: proxy_data_ok_def Suc_le_eq not_less split: if_splits prod.splits sum.splits)
  then show "proxy_data_ok (json_print (JObject ms))" "w_out w' = w_out w @ proxy_frame (json_print (JObject ms))"
    using writeAll_ok by (fastforce simp: proxy_frame_def data_def)+
qed

lemma WriteProxyMessage_clean:
  assumes "proxy_data_ok (json_print (JObject ms))" "w_script w = []"
  shows "WriteProxyMessage ms w = (Inr (), w\<lparr>w_out := w_out w @ proxy_frame (json_print (JObject ms))\<rparr>)"
  using assms by (auto simp: WriteProxyMessage_def Let_def proxy_data_ok_def proxy_frame_def writeAll_clean
      simp del: json_print.simps)

text \<open>
  A proxy message that was written is read back as the same request, and reading it
  consumes exactly its own bytes, so that the TLS bytes behind it are intact.
\<close>

theorem proxy_message_roundtrip:
  assumes "WriteProxyMessage (proxy_request_members q) w = (Inr (), w')" "proxy_request_good q"
    "stream r = drop (length (w_out w)) (w_out w') @ rest"
  shows "\<exists>r'. ReadProxyMessage proxy_request_shape proxy_request_table proxy_request_zero r = (Inr q, r') \<and>
     stream r' = rest"
proof -
  note W = WriteProxyMessage_ok [OF assms(1)]
  from assms(3) W(2) have "stream r = proxy_frame (json_print (JObject (proxy_request_members q))) @ rest"
    by (simp del: json_print.simps)
  from proxy_wire.dec_enc [OF W(1) this] obtain r' where
    "read_proxy_data r = (Inr (json_print (JObject (proxy_request_members q))), r')" "stream r' = rest" by blast
  moreover have "DecodeConfigJSON proxy_request_shape proxy_request_table proxy_request_zero
      (json_print (JObject (proxy_request_members q))) = Inr q"
    using W(1) by (intro proxy_request.decode_print assms(2))
      (simp add: proxy_data_ok_def MaxProxyMessage_def del: json_print.simps)
  ultimately show ?thesis by (simp add: ReadProxyMessage_def del: json_print.simps)
qed

definition sample_proxy_request :: ProxyRequest where
  "sample_proxy_request = \<lparr>pq_Version = 1, pq_Operation = ''resolve'', pq_Authority = ''n.alpha'', pq_PinSHA256 = []\<rparr>"

lemma sample_proxy_ok:
  "proxy_request_good sample_proxy_request" "proxy_data_ok (json_print (JObject (proxy_request_members sample_proxy_request)))"
proof -
  show "proxy_request_good sample_proxy_request"
    by (simp add: proxy_request_good_def sample_proxy_request_def int64_ok_def utf8_literal)
  have "length (Itoa 1) \<le> 20" by (rule Itoa_length) (simp add: int64_ok_def)
  then show "proxy_data_ok (json_print (JObject (proxy_request_members sample_proxy_request)))"
    by (simp add: proxy_data_ok_def proxy_request_members_def sample_proxy_request_def omitempty_def json_quote_def
        escape_body_plain MaxProxyMessage_def)
qed

text \<open>
  Property C15: A proxy handshake succeeds only against a literal loopback address and leaves
  the stream at the first byte behind the proxy's single answer, having sent nothing but the
  request; the answer carries a 64-digit pin, and for a connection it is the pin that was
  asked for.
\<close>

theorem proxyHandshake_sound:
  assumes "proxyHandshake dial parent now address timeout request = Inr (c, response)"
  shows "\<exists>c0 data host port i. dial address = Inr c0 \<and>
     SplitHostPort address = Inr (host, port) \<and> ParseIP host = Some i \<and> IsLoopback i \<and>
     w_out (c_out c) = w_out (c_out c0) @ proxy_frame (json_print (JObject (proxy_request_members request))) \<and>
     stream (c_in c0) = proxy_frame data @ stream (c_in c) \<and>
     pp_OK response \<and> length (pp_PinSHA256 response) = 64 \<and> DecodeString (pp_PinSHA256 response) \<noteq> None \<and>
     (pq_Operation request = ''connect'' \<longrightarrow> EqualFold (pq_PinSHA256 request) (pp_PinSHA256 response))"
proof -
  from assms obtain c0 deadline where a: "ValidateProxyAddress address = Inr ()" and d: "dial address = Inr c0"
    and x: "proxy_exchange deadline request c0 = (Inr response, c)"
    by (auto simp: proxyHandshake_def Let_def split: sum.splits if_splits prod.splits)
  from a obtain host port i where h: "SplitHostPort address = Inr (host, port)" "ParseIP host = Some i" "IsLoopback i"
    by (auto simp: ValidateProxyAddress_def split: sum.splits prod.splits option.splits if_splits)
  from x obtain u1 c1 c2 c3 c4 where s: "SetDeadline deadline c0 = (Inr u1, c1)"
    and w: "proxy_send (proxy_request_members request) c1 = (Inr (), c2)"
    and r: "proxy_receive c2 = (Inr response, c3)" and k: "check_response request response = Inr ()"
    and e: "ctx_Err c3 = (Inr (), c4)" and z: "SetDeadline None c4 = (Inr (), c)"
    unfolding proxy_exchange_def by (auto simp: res_simps)
  have f: "c_in c1 = c_in c0" "c_out c1 = c_out c0" "c_in c = c_in c3" "c_out c = c_out c3"
    using s z e by (auto simp: SetDeadline_def andThen_def next_set_def ctx_Err_def
        split: prod.splits sum.splits list.splits option.splits)
  from w have w': "w_out (c_out c2) = w_out (c_out c1) @ proxy_frame (json_print (JObject (proxy_request_members request)))"
    "c_in c2 = c_in c1"
    using WriteProxyMessage_ok(2) by (auto simp: proxy_send_def split: prod.splits simp del: json_print.simps)
  from r obtain data where "stream (c_in c2) = proxy_frame data @ stream (c_in c3)" "c_out c3 = c_out c2"
    using read_proxy_sound
    by (auto simp: proxy_receive_def ReadProxyMessage_def split: prod.splits sum.splits)
  then show ?thesis using d h f w' k
    by (auto simp: check_response_def split: if_splits option.splits simp del: json_print.simps)
qed

definition sample_proxy_response :: ProxyResponse where
  "sample_proxy_response = \<lparr>pp_Version = 1, pp_OK = True, pp_PinSHA256 = sample_pin, pp_Error = []\<rparr>"

lemma sample_pin_plain: "\<forall>c\<in>set sample_pin. 48 \<le> ord c \<and> ord c < 128"
  by (simp add: sample_pin_def EncodeToString_def hex_digit_def)

lemma sample_response_ok:
  "proxy_response_good sample_proxy_response"
  "proxy_data_ok (json_print (JObject (proxy_response_members sample_proxy_response)))"
proof -
  show "proxy_response_good sample_proxy_response"
    using sample_pin_plain
    by (simp add: proxy_response_good_def sample_proxy_response_def int64_ok_def utf8_valid_ascii)
  have p: "length sample_pin = 64" by (simp add: sample_pin_def)
  then have ne: "sample_pin \<noteq> []" by auto
  have e: "escape_body sample_pin = sample_pin"
    by (rule escape_body_plain) (simp add: sample_pin_def EncodeToString_def hex_digit_def)
  have "length (Itoa 1) \<le> 20" by (rule Itoa_length) (simp add: int64_ok_def)
  then show "proxy_data_ok (json_print (JObject (proxy_response_members sample_proxy_response)))"
    using p ne
    by (simp add: e proxy_data_ok_def proxy_response_members_def sample_proxy_response_def omitempty_def json_quote_def
        escape_body_plain MaxProxyMessage_def)
qed

lemma loopback_address:
  assumes "b \<le> 255" "c \<le> 255" "d \<le> 255" "1 \<le> n" "n \<le> 65535"
  shows "ValidateProxyAddress (dotted [127, b, c, d] @ CHR '':'' # Itoa (int n)) = Inr ()"
proof -
  have "\<forall>x\<in>set (dotted [127, b, c, d]) \<union> set (Itoa (int n)). x \<noteq> CHR '':'' \<and> x \<noteq> CHR ''['' \<and> x \<noteq> CHR '']''"
  proof
    fix x assume "x \<in> set (dotted [127, b, c, d]) \<union> set (Itoa (int n))"
    then have "x = CHR ''.'' \<or> (48 \<le> ord x \<and> ord x \<le> 57)"
      using dotted_chars [of x "[127, b, c, d]"] nat_dec_chars [of x n] by (auto simp: Itoa_def)
    then show "x \<noteq> CHR '':'' \<and> x \<noteq> CHR ''['' \<and> x \<noteq> CHR '']''" by auto
  qed
  note SplitHostPort_plain [OF this]
  moreover have "ParseIP (dotted [127, b, c, d]) = Some (v4_prefix @ [127, b, c, d])"
    by (rule ParseIP_dotted) (use assms in simp_all)
  moreover have "Atoi (Itoa (int n)) = Some (int n)"
    unfolding Atoi_def by (rule ParseInt10_Itoa) (use assms in simp_all)
  ultimately show ?thesis
    using assms by (simp add: ValidateProxyAddress_def IsLoopback_def To4_def v4_prefix_def)
qed

definition sample_proxy :: string where
  "sample_proxy = dotted [127, 0, 0, 1] @ CHR '':'' # Itoa (int 9000)"

lemma sample_proxy_ok_address: "ValidateProxyAddress sample_proxy = Inr ()"
  unfolding sample_proxy_def by (rule loopback_address) simp_all

lemma sample_handshake_runs:
  assumes "pq_Operation request \<noteq> ''connect''" "proxy_data_ok (json_print (JObject (proxy_request_members request)))"
  shows "\<exists>c. proxyHandshake
     (\<lambda>_. Inr (sample_conn (proxy_frame (json_print (JObject (proxy_response_members sample_proxy_response))) @ ''tls'')))
     None 0 sample_proxy 0 request = Inr (c, sample_proxy_response)"
proof -
  define data where "data = json_print (JObject (proxy_response_members sample_proxy_response))"
  define c0 where "c0 = sample_conn (proxy_frame data @ ''tls'')"
  define c1 where "c1 = c0\<lparr>c_readDeadline := WithTimeout None (5 * Second) 0, c_writeDeadline := WithTimeout None (5 * Second) 0\<rparr>"
  have set: "SetDeadline (WithTimeout None (5 * Second) 0) c0 = (Inr (), c1)"
    unfolding c1_def by (rule SetDeadline_clean) (simp add: c0_def)
  obtain c2 where w: "proxy_send (proxy_request_members request) c1 = (Inr (), c2)"
    and c2: "c_in c2 = c_in c0" "c_ctx c2 = []" "c_set c2 = []"
    using WriteProxyMessage_clean [OF assms(2), of "c_out c1"]
    by (simp add: proxy_send_def c1_def c0_def del: json_print.simps)
  obtain r where r: "read_proxy_data (c_in c2) = (Inr data, r)"
    using read_proxy_frame [of data "c_in c2" "''tls''"] sample_response_ok(2) c2(1) by (auto simp: data_def c0_def)
  have "length data \<le> 1024 * 1024"
    using sample_response_ok(2) by (simp add: data_def proxy_data_ok_def MaxProxyMessage_def del: json_print.simps)
  from proxy_response.decode_print [OF sample_response_ok(1) this [unfolded data_def]] r
  have p: "proxy_receive c2 = (Inr sample_proxy_response, c2\<lparr>c_in := r\<rparr>)"
    by (simp add: proxy_receive_def ReadProxyMessage_def data_def del: json_print.simps)
  have k: "check_response request sample_proxy_response = Inr ()"
    using assms(1) sample_pin_decodes
    by (simp add: check_response_def sample_proxy_response_def decodeIdentityPin_iff) (simp add: sample_pin_def)
  have e: "ctx_Err (c2\<lparr>c_in := r\<rparr>) = (Inr (), c2\<lparr>c_in := r\<rparr>)" using c2 by (simp add: ctx_Err_def)
  have "c_set (c2\<lparr>c_in := r\<rparr>) = []" using c2 by simp
  note z = SetDeadline_clean [OF this]
  show ?thesis
    unfolding data_def [symmetric] c0_def [symmetric] proxyHandshake_def proxy_exchange_def
    by (simp add: sample_proxy_ok_address set w p k e z andThen_def lift_def ret_def)
qed

theorem proxyHandshake_sound_witness:
  "\<exists>c. proxyHandshake
     (\<lambda>_. Inr (sample_conn (proxy_frame (json_print (JObject (proxy_response_members sample_proxy_response))) @ ''tls'')))
     None 0 sample_proxy 0 sample_proxy_request = Inr (c, sample_proxy_response) \<and>
     w_out (c_out c) = proxy_frame (json_print (JObject (proxy_request_members sample_proxy_request)))"
proof -
  define data where "data = json_print (JObject (proxy_response_members sample_proxy_response))"
  obtain c where c: "proxyHandshake (\<lambda>_. Inr (sample_conn (proxy_frame data @ ''tls''))) None 0 sample_proxy 0
      sample_proxy_request = Inr (c, sample_proxy_response)"
    using sample_handshake_runs [OF _ sample_proxy_ok(2)] by (auto simp: data_def sample_proxy_request_def)
  have "w_out (c_out c) = proxy_frame (json_print (JObject (proxy_request_members sample_proxy_request)))"
    using proxyHandshake_sound [OF c] by (auto simp del: json_print.simps)
  with c show ?thesis unfolding data_def by blast
qed

text \<open>
  Property C16: Resolution and dialling through a proxy agree: an endpoint that the registry
  resolved with a proxy set is one that the proxy dialer takes apart into the same proxy
  address and the same authority, and the connection it then opens was confirmed by the
  proxy for the pin that was resolved. What is taken from \<open>net/url\<close> is that parsing a printed
  URL gives back its parts.
\<close>

theorem proxy_route:
  assumes "rg_proxy registry = Some (ProxyAdapter_Resolve dial parent now a)"
    and r: "Resolve registry ctx authority = (Inr endpoint, ctx')"
    and parse: "parse (proxyEndpointAddress (pa_Address a) authority) =
      Some \<lparr>url_Scheme = ProxyTransport, url_Opaque = [], url_HasUser = False, url_Host = pa_Address a,
            url_Path = CHR ''/'' # authority, url_RawPath = [], url_ForceQuery = False, url_RawQuery = [],
            url_Fragment = [], url_RawFragment = []\<rparr>"
  shows "parseProxyEndpoint parse endpoint = Inr (pa_Address a, authority) \<and>
     (\<forall>dial' parent' now' c. DialProxy parse dial' parent' now' endpoint = Inr c \<longrightarrow>
        (\<exists>response. proxyHandshake dial' parent' now' (pa_Address a) 0
           \<lparr>pq_Version = 1, pq_Operation = ''connect'', pq_Authority = authority,
            pq_PinSHA256 = ToLower (ep_PinSHA256 endpoint)\<rparr> = Inr (c, response) \<and>
         EqualFold (ToLower (ep_PinSHA256 endpoint)) (pp_PinSHA256 response)))"
proof -
  from r obtain ctx1 ctx2 where p: "ProxyAdapter_Resolve dial parent now a ctx1 authority = (Inr endpoint, ctx2)"
    and v: "ValidateEndpoint endpoint = Inr ()" "is_ok (ValidateAuthority authority)"
    by (rule Resolve_Inr) (use assms(1) in \<open>auto simp: adapter_for_def\<close>)
  from p obtain c response where
    h: "proxyHandshake dial parent now (pa_Address a) (pa_Timeout a)
      \<lparr>pq_Version = 1, pq_Operation = ''resolve'', pq_Authority = authority, pq_PinSHA256 = []\<rparr> = Inr (c, response)"
    and e: "endpoint = \<lparr>ep_Address = proxyEndpointAddress (pa_Address a) authority,
      ep_PinSHA256 = pp_PinSHA256 response, ep_Transport = ProxyTransport\<rparr>"
    by (auto simp: ProxyAdapter_Resolve_def split: if_splits sum.splits prod.splits)
  have l: "ValidateProxyAddress (pa_Address a) = Inr ()"
    using h by (auto simp: proxyHandshake_def split: sum.splits)
  have t: "TrimPrefix (CHR ''/'' # authority) ''/'' = authority" by (simp add: TrimPrefix_def HasPrefix_def)
  have q: "parseProxyEndpoint parse endpoint = Inr (pa_Address a, authority)"
    using v l parse t e by (simp add: parseProxyEndpoint_def is_ok_unit Let_def)
  have "EqualFold (pq_PinSHA256 request) (pp_PinSHA256 response)"
    if "proxyHandshake dial' parent' now' (pa_Address a) 0 request = Inr (c, response)" "pq_Operation request = ''connect''"
    for dial' parent' now' request and c :: "'b conn" and response
  proof -
    from that(1) obtain d c0 where "proxy_exchange d request c0 = (Inr response, c)"
      by (auto simp: proxyHandshake_def Let_def split: sum.splits if_splits prod.splits)
    then have "check_response request response = Inr ()" unfolding proxy_exchange_def by (auto simp: res_simps)
    with that(2) show ?thesis by (auto simp: check_response_def split: if_splits option.splits)
  qed
  with q show ?thesis
    by (fastforce simp: DialProxy_def split: sum.splits prod.splits)
qed

lemma url_escape_plain: "\<forall>c\<in>set s. url_plain c \<or> c \<in> set keep \<Longrightarrow> url_escape keep s = s"
  unfolding url_escape_def by (induction s) auto

lemma sample_proxy_text: "sample_proxy = ''127.0.0.1:9000''"
  by (simp add: sample_proxy_def dotted_def Itoa_def nat_dec.simps digit_char_def)
    code_simp

lemma sample_proxy_url: "proxyEndpointAddress sample_proxy ''n.alpha'' = ''deep-proxy://127.0.0.1:9000/n.alpha''"
proof -
  have "url_escape host_keep ''127.0.0.1:9000'' = ''127.0.0.1:9000''"
    by (rule url_escape_plain) (simp add: url_plain_def host_keep_def)
  moreover have "url_escape path_keep ''/n.alpha'' = ''/n.alpha''"
    by (rule url_escape_plain) (simp add: url_plain_def path_keep_def)
  ultimately show ?thesis by (simp add: proxyEndpointAddress_def sample_proxy_text ProxyTransport_def)
qed

theorem proxy_route_witness:
  "\<exists>dial :: string \<Rightarrow> unit conn res. \<exists>registry parse endpoint.
     rg_proxy registry = Some (ProxyAdapter_Resolve dial None 0 \<lparr>pa_Address = sample_proxy, pa_Timeout = 0\<rparr>) \<and>
     Resolve registry [] ''n.alpha'' = (Inr endpoint, []) \<and>
     parseProxyEndpoint parse endpoint = Inr (sample_proxy, ''n.alpha'')"
proof -
  define dial :: "string \<Rightarrow> unit conn res" where "dial = (\<lambda>_. Inr (sample_conn
     (proxy_frame (json_print (JObject (proxy_response_members sample_proxy_response))) @ ''tls'')))"
  define a where "a = \<lparr>pa_Address = sample_proxy, pa_Timeout = 0\<rparr>"
  define registry where "registry = \<lparr>rg_networks = Map.empty, rg_proxy = Some (ProxyAdapter_Resolve dial None 0 a)\<rparr>"
  define parse where "parse = (\<lambda>_ :: string. Some \<lparr>url_Scheme = ProxyTransport, url_Opaque = [], url_HasUser = False,
      url_Host = pa_Address a, url_Path = ''/n.alpha'', url_RawPath = [], url_ForceQuery = False, url_RawQuery = [],
      url_Fragment = [], url_RawFragment = []\<rparr>)"
  let ?e = "\<lparr>ep_Address = ''deep-proxy://127.0.0.1:9000/n.alpha'', ep_PinSHA256 = sample_pin,
     ep_Transport = ProxyTransport\<rparr>"
  have v: "ValidateEndpoint ?e = Inr ()"
    using sample_endpoint_ok sample_pin_decodes
    by (simp add: ValidateEndpoint_def ProxyTransport_def validTransportName_def isLowerAlnum_def sample_pin_def
        decodeIdentityPin_iff)
  obtain c where "proxyHandshake dial None 0 sample_proxy 0 sample_proxy_request = Inr (c, sample_proxy_response)"
    using sample_handshake_runs [OF _ sample_proxy_ok(2)] by (auto simp: dial_def sample_proxy_request_def)
  then have "ProxyAdapter_Resolve dial None 0 a [] ''n.alpha'' = (Inr ?e, [])"
    by (simp add: ProxyAdapter_Resolve_def a_def sample_authority sample_proxy_request_def sample_proxy_url
        sample_proxy_response_def) (simp add: sample_proxy_text)
  then have r: "Resolve registry [] ''n.alpha'' = (Inr ?e, [])"
    using v by (simp add: Resolve_def Err_def adapter_for_def registry_def sample_authority)
  have "parseProxyEndpoint parse ?e = Inr (pa_Address a, ''n.alpha'')"
    by (rule conjunct1 [OF proxy_route [of registry dial None 0 a "[]" "''n.alpha''" ?e "[]" parse, OF _ r]])
      (simp_all add: registry_def parse_def)
  moreover have "rg_proxy registry = Some (ProxyAdapter_Resolve dial None 0 \<lparr>pa_Address = sample_proxy, pa_Timeout = 0\<rparr>)"
    by (simp add: registry_def a_def)
  ultimately show ?thesis using r by (intro exI conjI) (simp_all add: a_def)
qed

end
