(* ===== verification/Paths.thy ===== *)
theory Paths
  imports GoLib
begin

text \<open>
  File names as \<open>path/filepath\<close> treats them on Unix: \<open>Clean\<close>, \<open>Join\<close>, \<open>Dir\<close>, \<open>Ext\<close>, \<open>IsAbs\<close> and
  \<open>Rel\<close>, all purely lexical.
\<close>

definition IsAbs :: "string \<Rightarrow> bool" where
  "IsAbs p \<longleftrightarrow> HasPrefix p ''/''"

text \<open>The elements that \<open>Clean\<close> keeps: no empty ones, no dots, inner dot-dots resolved.\<close>

fun clean_parts :: "bool \<Rightarrow> string list \<Rightarrow> string list \<Rightarrow> string list" where
  "clean_parts rooted [] acc = rev acc"
| "clean_parts rooted (p # ps) acc =
     (if p = [] \<or> p = ''.'' then clean_parts rooted ps acc
      else if p = ''..'' then
        (case acc of
           [] \<Rightarrow> clean_parts rooted ps (if rooted then [] else [p])
         | a # as \<Rightarrow> if a = ''..'' then clean_parts rooted ps (p # acc) else clean_parts rooted ps as)
      else clean_parts rooted ps (p # acc))"

definition path_parts :: "string \<Rightarrow> string list" where
  "path_parts p = clean_parts (IsAbs p) (Split p (CHR ''/'')) []"

definition Clean :: "string \<Rightarrow> string" where
  "Clean p =
     (if IsAbs p then CHR ''/'' # join (CHR ''/'') (path_parts p)
      else if path_parts p = [] then ''.'' else join (CHR ''/'') (path_parts p))"

definition Join :: "string list \<Rightarrow> string" where
  "Join elems =
     (case filter (\<lambda>e. e \<noteq> []) elems of [] \<Rightarrow> [] | es \<Rightarrow> Clean (join (CHR ''/'') es))"

definition LastSlash :: "string \<Rightarrow> nat" where
  "LastSlash p = length (rev (dropWhile (\<lambda>c. c \<noteq> CHR ''/'') (rev p)))"

text \<open>Everything up to the last slash, cleaned.\<close>

definition Dir :: "string \<Rightarrow> string" where
  "Dir p = Clean (take (LastSlash p) p)"

text \<open>The suffix from the last dot of the last element.\<close>

definition Ext :: "string \<Rightarrow> string" where
  "Ext p =
     (let base = drop (LastSlash p) p
      in if CHR ''.'' \<in> set base
         then CHR ''.'' # rev (takeWhile (\<lambda>c. c \<noteq> CHR ''.'') (rev base)) else [])"

fun strip_common :: "string list \<Rightarrow> string list \<Rightarrow> string list \<times> string list" where
  "strip_common (a # as) (b # bs) = (if a = b then strip_common as bs else (a # as, b # bs))"
| "strip_common as bs = (as, bs)"

text \<open>\<open>Rel\<close> of two absolute paths.\<close>

definition Rel :: "string \<Rightarrow> string \<Rightarrow> string option" where
  "Rel base targ =
     (if IsAbs base \<noteq> IsAbs targ then None
      else if path_parts base = path_parts targ then Some ''.''
      else case strip_common (path_parts base) (path_parts targ) of (up, down) \<Rightarrow>
        if up \<noteq> [] \<and> hd up = ''..'' then None
        else Some (join (CHR ''/'') (replicate (length up) ''..'' @ down)))"

subsection \<open>Cleaned elements\<close>

lemma clean_parts_set: "set (clean_parts rooted ps acc) \<subseteq> set acc \<union> {p \<in> set ps. p \<noteq> [] \<and> p \<noteq> ''.''}"
proof (induction ps arbitrary: acc)
  case (Cons p ps)
  consider (skip) "p = [] \<or> p = ''.''" | (up) "p = ''..''" | (elem) "p \<noteq> []" "p \<noteq> ''.''" "p \<noteq> ''..''" by blast
  then show ?case
  proof cases
    case skip
    with Cons.IH [of acc] show ?thesis by auto
  next
    case up
    then show ?thesis
      using Cons.IH [of "if rooted then [] else [p]"] Cons.IH [of "p # acc"] Cons.IH [of "tl acc"]
      by (cases acc) (auto split: if_splits)
  next
    case elem
    with Cons.IH [of "p # acc"] show ?thesis by auto
  qed
qed simp

lemma clean_parts_rooted: "''..'' \<notin> set acc \<Longrightarrow> ''..'' \<notin> set (clean_parts True ps acc)"
proof (induction ps arbitrary: acc)
  case (Cons p ps)
  then show ?case by (cases acc) auto
qed simp

lemma path_parts_ok:
  assumes "p \<in> set (path_parts s)"
  shows "p \<noteq> []" "p \<noteq> ''.''" "CHR ''/'' \<notin> set p" "IsAbs s \<Longrightarrow> p \<noteq> ''..''"
proof -
  from assms clean_parts_set [of "IsAbs s" "Split s (CHR ''/'')" "[]"]
  have m: "p \<in> {p \<in> set (Split s (CHR ''/'')). p \<noteq> [] \<and> p \<noteq> ''.''}" by (auto simp: path_parts_def)
  then show "p \<noteq> []" "p \<noteq> ''.''" by simp_all
  from m show "CHR ''/'' \<notin> set p" using Split_parts_no_sep by blast
  show "p \<noteq> ''..''" if "IsAbs s"
    using assms clean_parts_rooted [of "[]" "Split s (CHR ''/'')"] that by (auto simp: path_parts_def)
qed

lemma strip_common_prefix:
  "strip_common as bs = (up, down) \<Longrightarrow> \<exists>c. as = c @ up \<and> bs = c @ down"
  by (induction as bs rule: strip_common.induct) (fastforce split: if_splits)+

lemma strip_common_ext: "strip_common as (as @ bs) = ([], bs)"
  by (induction as) (cases bs, simp_all)

end
