(* ===== verification/Serving.thy ===== *)
theory Serving
  imports Conn Security
begin

text \<open>
  The serving side: \<open>transfer\<close> and \<open>serveConnection\<close> of \<open>src/server.go\<close>, and \<open>exchange\<close> with
  its header checks of \<open>src/application.go\<close>.
\<close>

subsection \<open>Application requests\<close>

definition ApplicationProfile :: string where
  "ApplicationProfile = ''app/1''"

definition MaxApplicationRequestBytes :: int where
  "MaxApplicationRequestBytes = 2 ^ 20"

definition MaxApplicationResponseBytes :: int where
  "MaxApplicationResponseBytes = 16 * 2 ^ 20"

record ApplicationRequest =
  ar_Method :: string
  ar_Headers :: "Header list option"
  ar_Body :: bytes

record ApplicationResponse =
  ap_Status :: int
  ap_Headers :: "Header list option"
  ap_Resource :: Resource

definition ValidApplicationMethod :: "string \<Rightarrow> bool" where
  "ValidApplicationMethod method \<longleftrightarrow>
     method \<in> {''GET'', ''HEAD'', ''POST'', ''PUT'', ''PATCH'', ''DELETE'', ''OPTIONS''}"

definition header_name_rune :: "nat \<Rightarrow> bool" where
  "header_name_rune c \<longleftrightarrow> (97 \<le> c \<and> c \<le> 122) \<or> (48 \<le> c \<and> c \<le> 57) \<or>
     c \<in> ord ` set (''!#$%&'' @ [CHR 0x27] @ ''*+-.^_'' @ [CHR 0x60] @ ''|~'')"

fun check_headers :: "Header list \<Rightarrow> nat \<Rightarrow> nat res" where
  "check_headers [] acc = Inr acc"
| "check_headers (h # hs) acc =
     (if length (h_Name h) = 0 \<or> length (h_Name h) > 64 \<or> length (h_Value h) > 4096
        then Inl (protocolError ''invalid application header size'')
      else if list_ex (\<lambda>(c, _). \<not> header_name_rune c) (runes (h_Name h))
        then Inl (protocolError ''invalid application header name'')
      else if list_ex (\<lambda>(c, _). c < 32 \<or> c > 126) (runes (h_Value h))
        then Inl (protocolError ''invalid application header value'')
      else check_headers hs (acc + length (h_Name h) + length (h_Value h)))"

text \<open>A nil header list is \<open>None\<close>.\<close>

definition ValidateApplicationHeaders :: "Header list option \<Rightarrow> check" where
  "ValidateApplicationHeaders headers =
     (case headers of
        None \<Rightarrow> Inl (protocolError ''invalid application header count'')
      | Some hs \<Rightarrow>
          if length hs > 64 then Inl (protocolError ''invalid application header count'')
          else (case check_headers hs 0 of
              Inl e \<Rightarrow> Inl e
            | Inr acc \<Rightarrow> if acc > 6144 then Inl (protocolError ''application headers exceed limit'')
                else Inr ()))"

subsection \<open>Resource providers\<close>

text \<open>
  A \<open>Handler\<close>, and its \<open>ApplicationHandler\<close> side when it has one: functions of their own
  state and the arguments of the call.
\<close>

record 'h handler =
  hd_Open :: "'h \<Rightarrow> string \<Rightarrow> string \<Rightarrow> Resource res \<times> 'h"
  hd_Exchange :: "('h \<Rightarrow> string \<Rightarrow> string \<Rightarrow> ApplicationRequest \<Rightarrow> ApplicationResponse res \<times> 'h) option"

definition call_Open :: "'h handler \<Rightarrow> string \<Rightarrow> string \<Rightarrow> (Resource, 'h) io" where
  "call_Open h path query c =
     (case hd_Open h (c_app c) path query of (r, a) \<Rightarrow> (r, c\<lparr>c_app := a\<rparr>))"

definition call_Exchange ::
    "('h \<Rightarrow> string \<Rightarrow> string \<Rightarrow> ApplicationRequest \<Rightarrow> ApplicationResponse res \<times> 'h) \<Rightarrow>
     string \<Rightarrow> string \<Rightarrow> ApplicationRequest \<Rightarrow> (ApplicationResponse, 'h) io" where
  "call_Exchange f path query request c =
     (case f (c_app c) path query request of (r, a) \<Rightarrow> (r, c\<lparr>c_app := a\<rparr>))"

subsection \<open>FETCH\<close>

definition transfer ::
    "(bytes \<Rightarrow> bytes) \<Rightarrow> Server \<Rightarrow> 'h handler \<Rightarrow> 32 word \<Rightarrow> requestMetadata \<Rightarrow> (unit, 'h) io" where
  "transfer sha s h rid request =
     andThen (call_Open h (rm_Path request) (rm_Query request)) (\<lambda>resource.
       case rs_Body resource of
         None \<Rightarrow> fail (Errorf ''provider returned no body'')
       | Some body \<Rightarrow>
           if rs_Size resource < 0 \<or> rs_Size resource > MaxResourceSize \<or>
              \<not> validateMediaType (rs_MediaType resource)
             then fail (Errorf ''invalid resource from provider'')
           else if rs_Size resource > s_MaxBytes s
             then fail (Remote ''TOO_LARGE'' ''resource exceeds the server limit'')
           else andThen (conn_send Response rid (response_members
                    \<lparr>sm_MediaType = rs_MediaType resource, sm_Size = rs_Size resource\<rparr>) [])
             (\<lambda>_. andThen (chunk_loop ''resource ended before its announced size'' rid
                              (rs_Size resource) 0 [] body)
               (finish_body sha ''resource size changed during transfer'' rid)))"

subsection \<open>EXCHANGE\<close>

definition not_allowed_text :: string where
  "not_allowed_text = ''This service only supports GET and HEAD.''"

definition app_response ::
    "'h handler \<Rightarrow> requestMetadata \<Rightarrow> ApplicationRequest \<Rightarrow> (ApplicationResponse, 'h) io" where
  "app_response h target request =
     (case hd_Exchange h of
        Some f \<Rightarrow> call_Exchange f (rm_Path target) (rm_Query target) request
      | None \<Rightarrow>
          if ar_Method request = ''GET'' \<or> ar_Method request = ''HEAD'' then
            andThen (call_Open h (rm_Path target) (rm_Query target))
              (\<lambda>resource. ret \<lparr>ap_Status = 200, ap_Headers = Some [], ap_Resource = resource\<rparr>)
          else ret \<lparr>ap_Status = 405,
                    ap_Headers = Some [\<lparr>h_Name = ''allow'', h_Value = ''GET, HEAD''\<rparr>],
                    ap_Resource = \<lparr>rs_Body = Some (whole not_allowed_text),
                       rs_MediaType = ''text/plain; charset=utf-8'',
                       rs_Size = int (length not_allowed_text)\<rparr>\<rparr>)"

text \<open>The reply: from the checks on the provider's response to the end of the body.\<close>

definition send_response ::
    "(bytes \<Rightarrow> bytes) \<Rightarrow> Server \<Rightarrow> 32 word \<Rightarrow> string \<Rightarrow> ApplicationResponse \<Rightarrow> (unit, 'h) io" where
  "send_response sha s rid method response =
     (case rs_Body (ap_Resource response) of
        None \<Rightarrow> fail (Errorf ''application provider returned no body'')
      | Some body \<Rightarrow>
          (let headers = (case ap_Headers response of None \<Rightarrow> Some [] | Some hs \<Rightarrow> Some hs);
               resource = ap_Resource response
           in andThen (lift (ValidateApplicationHeaders headers)) (\<lambda>_.
                if ap_Status response < 200 \<or> ap_Status response > 599 \<or>
                   \<not> validateMediaType (rs_MediaType resource) \<or> rs_Size resource < 0 \<or>
                   rs_Size resource > min (s_MaxBytes s) MaxApplicationResponseBytes
                  then fail (Errorf ''invalid application provider response'')
                else let payload = (if method = ''HEAD'' then whole [] else body);
                         sz = (if method = ''HEAD'' then 0 else rs_Size resource)
                     in andThen (conn_send Response rid (app_response_members
                            \<lparr>as_Status = ap_Status response, as_Headers = headers,
                             as_MediaType = rs_MediaType resource, as_Size = sz\<rparr>) [])
                          (\<lambda>_. sendBody sha rid payload sz))))"

text \<open>The request body is collected in a fresh \<open>bytes.Buffer\<close>.\<close>

definition new_buffer :: "(unit, 'h) io" where
  "new_buffer c = (Inr (), c\<lparr>c_dest := fresh_writer\<rparr>)"

definition buffer_Bytes :: "(bytes, 'h) io" where
  "buffer_Bytes c = (Inr (w_out (c_dest c)), c)"

definition exchange ::
    "(bytes \<Rightarrow> bytes) \<Rightarrow> Server \<Rightarrow> 'h handler \<Rightarrow> 32 word \<Rightarrow> requestMetadata \<Rightarrow> (unit, 'h) io" where
  "exchange sha s h rid target =
     andThen (conn_send Continue rid (continue_members
          \<lparr>ac_Profile = ApplicationProfile, ac_MaxBody = MaxApplicationRequestBytes\<rparr>) []) (\<lambda>_.
     andThen conn_read (\<lambda>frame.
     andThen (lift (expect frame Request rid)) (\<lambda>_.
     andThen (lift (DecodeMetadata frame app_request_table app_request_zero
          [''method'', ''headers'', ''size''])) (\<lambda>metadata.
       if \<not> ValidApplicationMethod (aq_Method metadata) \<or> aq_Size metadata < 0 \<or>
          aq_Size metadata > MaxApplicationRequestBytes
         then fail (protocolError ''invalid application request'')
       else if (aq_Method metadata = ''GET'' \<or> aq_Method metadata = ''HEAD'') \<and> aq_Size metadata \<noteq> 0
         then fail (protocolError ''GET and HEAD must not carry a body'')
       else andThen (lift (ValidateApplicationHeaders (aq_Headers metadata))) (\<lambda>_.
         andThen new_buffer (\<lambda>_.
         andThen (receiveBody sha rid (aq_Size metadata)) (\<lambda>_.
         andThen buffer_Bytes (\<lambda>body.
         andThen (app_response h target \<lparr>ar_Method = aq_Method metadata,
                      ar_Headers = aq_Headers metadata, ar_Body = body\<rparr>)
             (send_response sha s rid (aq_Method metadata))))))))))"

subsection \<open>A session\<close>

fun check_versions :: "int list \<Rightarrow> int list \<Rightarrow> int list option" where
  "check_versions [] seen = Some seen"
| "check_versions (v # vs) seen =
     (if v < 1 \<or> v > 65535 \<or> v \<in> set seen then None else check_versions vs (v # seen))"

definition check_hello :: "Frame \<Rightarrow> check" where
  "check_hello frame =
     (if f_Type frame \<noteq> Hello then Inl (protocolError ''expected HELLO'')
      else case DecodeMetadata frame hello_table hello_zero [''versions''] of
        Inl e \<Rightarrow> Inl e
      | Inr hello \<Rightarrow>
          (let versions = (case hm_Versions hello of None \<Rightarrow> [] | Some vs \<Rightarrow> vs)
           in if length versions = 0 \<or> length versions > 16
                then Inl (protocolError ''invalid version offer'')
              else case check_versions versions [] of
                None \<Rightarrow> Inl (protocolError ''invalid version offer'')
              | Some seen \<Rightarrow>
                  if int ProtocolVersion \<notin> set seen
                    then Inl (Remote ''UNSUPPORTED_VERSION'' ''no common application version'')
                  else Inr ()))"

text \<open>The checks on a REQUEST frame, up to the session limit.\<close>

definition check_request :: "Server \<Rightarrow> 32 word \<Rightarrow> Frame \<Rightarrow> requestMetadata res" where
  "check_request s requestCount frame =
     (case DecodeMetadata frame request_table request_zero
             [''authority'', ''path'', ''query'', ''operation''] of
        Inl e \<Rightarrow> Inl e
      | Inr request \<Rightarrow>
          if \<not> is_ok (ValidateAuthority (rm_Authority request))
            then Inl (protocolError ''invalid authority'')
          else if rm_Authority request \<noteq> s_Authority s
            then Inl (Remote ''UNKNOWN_AUTHORITY'' ''this server does not serve that authority'')
          else if rm_Operation request \<noteq> ''FETCH'' \<and> rm_Operation request \<noteq> ''EXCHANGE''
            then Inl (Remote ''UNSUPPORTED_OPERATION'' ''this operation is not supported'')
          else if \<not> is_ok (ValidateResource (rm_Path request) (rm_Query request))
            then Inl (protocolError ''invalid resource'')
          else if requestCount \<ge> s_MaxRequestsPerSession s
            then Inl (Remote ''SESSION_LIMIT'' ''session request limit reached; open a new connection'')
          else Inr request)"

text \<open>
  The request loop. Besides the final state of the connection it yields the requests that
  were handed to \<open>transfer\<close> or \<open>exchange\<close>, in order, each with its ID.
\<close>

definition step_request ::
    "(bytes \<Rightarrow> bytes) \<Rightarrow> Server \<Rightarrow> 'h handler \<Rightarrow> 32 word \<Rightarrow> requestMetadata \<Rightarrow> (unit, 'h) io" where
  "step_request sha s h rid request =
     (if rm_Operation request = ''EXCHANGE'' then exchange sha s h rid request
      else transfer sha s h rid request)"

lemma conn_len_set: "setDeadline d t c = (x, c') \<Longrightarrow> c_in c' = c_in c"
  by (auto simp: setDeadline_def Now_def SetDeadline_def andThen_def next_set_def Let_def
      split: prod.splits sum.splits list.splits option.splits)

lemma conn_len_now: "Now c = (t, c') \<Longrightarrow> c_in c' = c_in c"
  by (auto simp: Now_def split: list.splits)

lemma conn_read_len: "conn_read c = (x, c') \<Longrightarrow> length (stream (c_in c')) \<le> length (stream (c_in c))"
  by (auto simp: conn_read_def split: prod.splits dest: ReadFrame_len_le)

lemma conn_read_len_lt: "conn_read c = (Inr f, c') \<Longrightarrow> length (stream (c_in c')) < length (stream (c_in c))"
  by (auto simp: conn_read_def split: prod.splits dest: ReadFrame_len)

text \<open>Operations that never put bytes back on the input.\<close>

definition shrinks :: "('a, 'h) io \<Rightarrow> bool" where
  "shrinks m \<longleftrightarrow> (\<forall>c. length (stream (c_in (snd (m c)))) \<le> length (stream (c_in c)))"

named_theorems shrink

lemma shrinks_andThen [shrink]: "shrinks m \<Longrightarrow> (\<And>x. shrinks (k x)) \<Longrightarrow> shrinks (andThen m k)"
  unfolding shrinks_def
proof (intro allI)
  fix c
  assume m: "\<forall>c. length (stream (c_in (snd (m c)))) \<le> length (stream (c_in c))"
    and k: "\<And>x. \<forall>c. length (stream (c_in (snd (k x c)))) \<le> length (stream (c_in c))"
  obtain r c1 where r: "m c = (r, c1)" by fastforce
  with m [rule_format, of c] have "length (stream (c_in c1)) \<le> length (stream (c_in c))" by simp
  with k [rule_format, of _ c1] show "length (stream (c_in (snd (andThen m k c)))) \<le> length (stream (c_in c))"
    by (cases r) (auto simp: andThen_def r intro: le_trans)
qed

lemma shrinks_basic [shrink]:
  "shrinks (ret x)" "shrinks (fail e)" "shrinks (lift r)" "shrinks conn_read"
  "shrinks (conn_send kind rid ms body)" "shrinks ctx_Err" "shrinks (write_dest b)"
  "shrinks (call_Open h p q)" "shrinks (call_Exchange f p q rq)"
  by (auto simp: shrinks_def ret_def fail_def lift_def call_Open_def call_Exchange_def conn_send_def
      ctx_Err_def write_dest_def conn_read_def split: prod.splits list.splits option.splits
      dest: ReadFrame_len_le)

lemma shrinks_receive: "length (stream (c_in (snd (receive_loop a b sha rid sz received acc c)))) \<le>
    length (stream (c_in c))"
proof (induction a b sha rid sz received acc c rule: receive_loop.induct)
  case (1 a b sha rid sz received acc c)
  obtain x c1 where r: "conn_read c = (x, c1)" by fastforce
  show ?case
  proof (cases x)
    case (Inl e)
    with r show ?thesis
      using conn_read_len [OF r] by (subst receive_loop.simps) (simp add: andThen_def)
  next
    case (Inr f)
    obtain y c3 where w: "write_dest (f_Body f) c1 = (y, c3)" by fastforce
    have c3: "c_in c3 = c_in c1" using w by (rule write_dest_fields)
    have ih: "length (stream (c_in (snd (receive_loop a b sha rid sz
        (received + int (length (f_Body f))) (acc @ f_Body f) c3)))) \<le> length (stream (c_in c3))"
      if "f_RequestID f = rid" "f_Type f = Data" "DecodeMetadata f [] () [] = Inr u"
        "\<not> int (length (f_Body f)) > sz - received" "y = Inr v" for u v
      using 1 [OF r [unfolded Inr], of u c1 v c3] that w by (simp add: lift_def)
    have e: "length (stream (c_in (snd (ctx_Err c1)))) \<le> length (stream (c_in c1))"
      using shrinks_basic(6) by (auto simp: shrinks_def)
    show ?thesis
      using conn_read_len [OF r] c3 ih e w
      by (subst receive_loop.simps)
        (auto simp: andThen_def r Inr lift_def fail_def ret_def Let_def split: sum.splits prod.splits
          intro: le_trans)
  qed
qed

lemma shrinks_receiveBody [shrink]: "shrinks (receiveBody sha rid sz)"
  by (simp add: shrinks_def receiveBody_def shrinks_receive)

lemma chunk_loop_in: "c_in (snd (chunk_loop short rid sz sent acc body c)) = c_in c"
proof (induction short rid sz sent acc body c rule: chunk_loop.induct)
  case (1 short rid sz sent acc body c)
  obtain x c1 where e: "ctx_Err c = (x, c1)" by fastforce
  let ?n = "if sz - sent < int MaxChunkSize then sz - sent else int MaxChunkSize"
  obtain y b where b: "ReadFull (nat ?n) body = (y, b)" by fastforce
  have ih: "c_in (snd (chunk_loop short rid sz (sent + int (length ch)) (acc @ ch) b c2)) = c_in c2"
    if "sent < sz" "x = Inr u" "y = Inr ch" "conn_send Data rid [] ch c1 = (Inr v, c2)" for u ch v c2
    using 1 [OF that(1) e [unfolded that(2)] refl refl b [unfolded that(3), symmetric] refl that(4)] .
  show ?case
    using e b ctx_Err_fields(1) [OF e] ih
    by (subst chunk_loop.simps)
      (auto simp: andThen_def Let_def split: prod.splits sum.splits dest: conn_send_fields(1))
qed

lemma shrinks_chunks [shrink]: "shrinks (chunk_loop short rid sz sent acc body)"
  by (simp add: shrinks_def chunk_loop_in)

lemma shrinks_if [shrink]: "shrinks m \<Longrightarrow> shrinks m' \<Longrightarrow> shrinks (if b then m else m')"
  by simp

lemma shrinks_finish [shrink]: "shrinks (finish_body sha changed rid t)"
  by (cases t) (auto simp: finish_body_def intro!: shrink)

lemma shrinks_sendBody [shrink]: "shrinks (sendBody sha rid body sz)"
  by (auto simp: sendBody_def intro!: shrink)

lemma shrinks_transfer [shrink]: "shrinks (transfer sha s h rid request)"
  by (auto simp: transfer_def intro!: shrink split: option.splits)

lemma shrinks_response [shrink]: "shrinks (send_response sha s rid method response)"
  by (auto simp: send_response_def Let_def intro!: shrink split: option.splits)

lemma shrinks_app [shrink]: "shrinks (app_response h target request)"
  by (auto simp: app_response_def intro!: shrink split: option.splits)

lemma shrinks_buffer [shrink]: "shrinks new_buffer" "shrinks buffer_Bytes"
  by (simp_all add: shrinks_def new_buffer_def buffer_Bytes_def)

lemma shrinks_exchange [shrink]: "shrinks (exchange sha s h rid target)"
  unfolding exchange_def by (intro shrink)

lemma shrinks_step [shrink]: "shrinks (step_request sha s h rid request)"
  by (auto simp: step_request_def intro: shrink)

function serve_loop ::
    "(bytes \<Rightarrow> bytes) \<Rightarrow> Server \<Rightarrow> 'h handler \<Rightarrow> int option \<Rightarrow> string \<Rightarrow> 32 word \<Rightarrow> 32 word \<Rightarrow>
     'h conn \<Rightarrow> (32 word \<times> requestMetadata) list \<times> 'h conn" where
  "serve_loop sha s h ctx peer lastID requestCount c =
     (case setDeadline ctx (s_IdleTimeout s) c of
        (Inl e, c1) \<Rightarrow> ([], c1)
      | (Inr _, c1) \<Rightarrow>
     (case conn_read c1 of
        (Inl e, c2) \<Rightarrow> ([], c2)
      | (Inr frame, c2) \<Rightarrow>
          if f_Type frame = Close then
            (case DecodeMetadata frame [] () [] of
               Inl e \<Rightarrow> ([], sendError 0 e c2) | Inr _ \<Rightarrow> ([], c2))
          else if f_Type frame \<noteq> Request \<or> f_RequestID frame \<le> lastID then
            ([], sendError (f_RequestID frame)
                   (protocolError ''expected a new, increasing request ID'') c2)
          else (case check_request s requestCount frame of
              Inl e \<Rightarrow> ([], sendError (f_RequestID frame) e c2)
            | Inr request \<Rightarrow>
                (case Now c2 of (now, c3) \<Rightarrow>
                (case allowRequest (c_peers c3) peer now of (allowed, peers) \<Rightarrow>
                   if \<not> allowed then
                     ([], sendError (f_RequestID frame)
                            (Remote ''RATE_LIMITED'' ''peer request rate limit reached'')
                            (c3\<lparr>c_peers := peers\<rparr>))
                   else
                (case Now (c3\<lparr>c_peers := peers\<rparr>) of (start, c4) \<Rightarrow>
                (case setDeadline (WithTimeout ctx (s_Timeout s) start) (s_Timeout s) c4 of
                   (Inl e, c5) \<Rightarrow> ([], c5)
                 | (Inr _, c5) \<Rightarrow>
                (case step_request sha s h (f_RequestID frame) request c5 of
                   (Inl e, c6) \<Rightarrow> ([(f_RequestID frame, request)], sendError (f_RequestID frame) e c6)
                 | (Inr _, c6) \<Rightarrow>
                     (case serve_loop sha s h ctx peer (f_RequestID frame) (requestCount + 1) c6 of
                        (served, c7) \<Rightarrow> ((f_RequestID frame, request) # served, c7))))))))))"
  by pat_completeness auto
termination
proof (relation "measure (\<lambda>(sha, s, h, ctx, peer, lastID, cnt, c). length (stream (c_in c)))", goal_cases)
  case 1
  then show ?case by simp
next
  case (2 sha s h ctx peer lastID cnt c x c1 u y c2 frame request now c3 ok peers start c4 z c5 v w c6 q)
  have "c_in c1 = c_in c" using conn_len_set 2(1) [symmetric] by blast
  moreover have "length (stream (c_in c2)) < length (stream (c_in c1))"
    using conn_read_len_lt [of c1 frame c2] 2(3,4) by simp
  moreover have "c_in c3 = c_in c2" using conn_len_now 2(8) [symmetric] by blast
  moreover have "c_in c4 = c_in c3" using conn_len_now [OF 2(11) [symmetric]] by simp
  moreover have "c_in c5 = c_in c4" using conn_len_set 2(12) [symmetric] by blast
  moreover have "length (stream (c_in c6)) \<le> length (stream (c_in c5))"
    using shrinks_step [of sha s h "f_RequestID frame" request] 2(14)
    by (metis shrinks_def snd_conv)
  ultimately show ?case by simp
qed

declare serve_loop.simps [simp del]

text \<open>
  \<open>serveConnection\<close>: the argument \<open>handshake\<close> is what the TLS handshake ends with, the
  connection state or an error.
\<close>

definition serveConnection ::
    "crypto \<Rightarrow> Server \<Rightarrow> 'h handler \<Rightarrow> int option \<Rightarrow> string \<Rightarrow> ConnectionState res \<Rightarrow>
     'h conn \<Rightarrow> (32 word \<times> requestMetadata) list \<times> 'h conn" where
  "serveConnection k s h parent peer handshake c =
     map_prod id close_conn
    (case Now c of (begin, c1) \<Rightarrow>
    (let ctx = WithTimeout parent (s_SessionTimeout s) begin
     in case Now c1 of (t, c2) \<Rightarrow>
       (case setDeadline (WithTimeout ctx (s_HandshakeTimeout s) t) (s_HandshakeTimeout s) c2 of
          (Inl e, c3) \<Rightarrow> ([], c3)
        | (Inr _, c3) \<Rightarrow>
       (case handshake of
          Inl e \<Rightarrow> ([], c3)
        | Inr state \<Rightarrow>
       (case InspectSecurity k state of
          Inl e \<Rightarrow> ([], c3)
        | Inr _ \<Rightarrow>
       (case setDeadline ctx (s_IdleTimeout s) c3 of
          (Inl e, c4) \<Rightarrow> ([], c4)
        | (Inr _, c4) \<Rightarrow>
       (case conn_read c4 of
          (Inl e, c5) \<Rightarrow> ([], c5)
        | (Inr frame, c5) \<Rightarrow>
       (case check_hello frame of
          Inl e \<Rightarrow> ([], sendError 0 e c5)
        | Inr _ \<Rightarrow>
       (case conn_send Welcome 0 (welcome_members
               \<lparr>wm_Version = int ProtocolVersion, wm_MaxChunk = int MaxChunkSize\<rparr>) [] c5 of
          (Inl e, c6) \<Rightarrow> ([], c6)
        | (Inr _, c6) \<Rightarrow> serve_loop (k_Sum256 k) s h ctx peer 0 0 c6)))))))))"

subsection \<open>What a session serves\<close>

lemma check_request_ok:
  assumes "check_request s cnt frame = Inr request"
  shows "rm_Authority request = s_Authority s" "is_ok (ValidateAuthority (rm_Authority request))"
    "rm_Operation request = ''FETCH'' \<or> rm_Operation request = ''EXCHANGE''"
    "is_ok (ValidateResource (rm_Path request) (rm_Query request))"
    "cnt < s_MaxRequestsPerSession s"
  using assms by (auto simp: check_request_def res_simps not_le)

definition served_ok :: "Server \<Rightarrow> 32 word \<times> requestMetadata \<Rightarrow> bool" where
  "served_ok s x \<longleftrightarrow> rm_Authority (snd x) = s_Authority s \<and>
     (rm_Operation (snd x) = ''FETCH'' \<or> rm_Operation (snd x) = ''EXCHANGE'') \<and>
     is_ok (ValidateResource (rm_Path (snd x)) (rm_Query (snd x)))"

lemma serve_loop_served:
  "serve_loop sha s h ctx peer lastID cnt c = (served, c') \<Longrightarrow>
     (\<forall>x\<in>set served. served_ok s x \<and> lastID < fst x) \<and> sorted_wrt (<) (map fst served) \<and>
     length served + unat cnt \<le> max (unat cnt) (unat (s_MaxRequestsPerSession s))"
proof (induction sha s h ctx peer lastID cnt c arbitrary: served c' rule: serve_loop.induct)
  case (1 sha s h ctx peer lastID cnt c)
  show ?case
  proof (cases served)
    case Nil
    then show ?thesis by simp
  next
    case (Cons x rest)
    from 1(2) Cons obtain u c1 frame c2 request now c3 peers start c4 v c5 y c6 where
      s: "setDeadline ctx (s_IdleTimeout s) c = (Inr u, c1)" "conn_read c1 = (Inr frame, c2)"
        "f_Type frame \<noteq> Close" "\<not> (f_Type frame \<noteq> Request \<or> f_RequestID frame \<le> lastID)"
        "check_request s cnt frame = Inr request" "Now c2 = (now, c3)"
        "allowRequest (c_peers c3) peer now = (True, peers)" "Now (c3\<lparr>c_peers := peers\<rparr>) = (start, c4)"
        "setDeadline (WithTimeout ctx (s_Timeout s) start) (s_Timeout s) c4 = (Inr v, c5)"
        "step_request sha s h (f_RequestID frame) request c5 = (y, c6)"
      and x: "x = (f_RequestID frame, request)"
      and r: "(case y of Inl e \<Rightarrow> rest = [] | Inr w \<Rightarrow> \<exists>c7.
          serve_loop sha s h ctx peer (f_RequestID frame) (cnt + 1) c6 = (rest, c7))"
      by (subst (asm) serve_loop.simps)
        (auto split: prod.splits sum.splits if_splits)
    note ok = check_request_ok [OF s(5)]
    have lim: "unat cnt < unat (s_MaxRequestsPerSession s)" using ok(5) by (simp add: word_less_nat_alt)
    have suc: "unat (cnt + 1) = Suc (unat cnt)"
      using lim unat32_lt [of "s_MaxRequestsPerSession s"]
      by (simp add: unat_word_ariths)
    have id: "lastID < f_RequestID frame" using s(4) by auto
    have sok: "served_ok s x" using ok x by (simp add: served_ok_def)
    show ?thesis
    proof (cases y)
      case (Inl e)
      with r Cons id sok x lim show ?thesis by simp
    next
      case (Inr w)
      with r obtain c7 where l: "serve_loop sha s h ctx peer (f_RequestID frame) (cnt + 1) c6 = (rest, c7)"
        by auto
      have "(\<forall>x\<in>set rest. served_ok s x \<and> f_RequestID frame < fst x) \<and> sorted_wrt (<) (map fst rest) \<and>
          length rest + unat (cnt + 1) \<le> max (unat (cnt + 1)) (unat (s_MaxRequestsPerSession s))"
        by (rule 1(1) [OF s(1) [symmetric] refl s(2) [symmetric] refl s(3,4,5) s(6) [symmetric]
              s(7) [symmetric] _ s(8) [symmetric] s(9) [symmetric] refl s(10) [symmetric] Inr l]) simp
      with Cons id sok x suc lim show ?thesis by (auto intro: less_trans)
    qed
  qed
qed

lemma InspectSecurity_strong:
  "InspectSecurity k state = Inr info \<Longrightarrow> strong_channel state \<and> t_HandshakeComplete state"
  by (auto simp: InspectSecurity_def res_simps verifySecurityProfile_iff)


subsection \<open>Errors that reach the peer\<close>

lemma escape_unit_length: "raw \<noteq> [] \<Longrightarrow> length (escape_unit (r, raw)) \<le> 6 * length raw"
  by (cases raw) (auto simp: escape_unit_def u_escape_def hex4_def)

lemma runes_nonempty: "(r, raw) \<in> set (runes s) \<Longrightarrow> raw \<noteq> []"
proof (induction s rule: runes.induct)
  case (2 b bs)
  show ?case
  proof (cases "decode_rune (b # bs)")
    case None
    with 2 show ?thesis by (auto simp: runes.simps(2))
  next
    case (Some p)
    obtain r' n where p: "p = (r', n)" by fastforce
    with decode_rune_width [of "b # bs" r' n] Some have "take n (b # bs) \<noteq> []" by simp
    moreover from 2(3) Some p have "(r, raw) = (r', take n (b # bs)) \<or> (r, raw) \<in> set (runes (drop n (b # bs)))"
      by (simp add: runes.simps(2))
    ultimately show ?thesis using 2(2) [OF Some p [symmetric]] by (metis prod.inject)
  qed
qed simp

lemma escape_body_length: "length (escape_body s) \<le> 6 * length s"
proof -
  have "length (concat (map escape_unit us)) \<le> 6 * length (concat (map snd us))"
    if "\<forall>u\<in>set us. snd u \<noteq> []" for us
    using that
  proof (induction us)
    case (Cons u us)
    with escape_unit_length [of "snd u" "fst u"] show ?case by simp
  qed simp
  moreover have "\<forall>u\<in>set (runes s). snd u \<noteq> []" using runes_nonempty by force
  ultimately show ?thesis using runes_concat [of s] unfolding escape_body_def by metis
qed

lemma error_members_length:
  "length (json_print (JObject (error_members e))) \<le> 6 * (length (re_Code e) + length (re_Message e)) + 50"
proof -
  have l: "length (escape_body ''code'') \<le> 24" "length (escape_body ''message'') \<le> 42"
    using escape_body_length [of "''code''"] escape_body_length [of "''message''"] by simp_all
  have k: "escape_body ''code'' = ''code''" "escape_body ''message'' = ''message''"
    by (simp_all add: escape_body_def runes_ascii escape_unit_def)
  show ?thesis
    using escape_body_length [of "re_Code e"] escape_body_length [of "re_Message e"]
    by (simp add: error_members_def json_quote_def k)
qed

lemma literal_errors_valid:
  "ValidateRemoteError (Some \<lparr>re_Code = ''PROTOCOL_ERROR'', re_Message = ''invalid DEEP message''\<rparr>) = Inr ()"
  "ValidateRemoteError (Some \<lparr>re_Code = ''INTERNAL_ERROR'', re_Message = ''resource provider failed''\<rparr>) = Inr ()"
  by (simp_all add: ValidateRemoteError_def runes_ascii IsControl_def In_Cf_Zl_Zp_def In_Cf_def
      Cf_table_def)

lemma error_reply_valid: "ValidateRemoteError (Some (error_reply cause)) = Inr ()"
  by (auto simp: error_reply_def Let_def literal_errors_valid split: option.splits)

lemma error_reply_sendable:
  "validateJSON (json_print (JObject (error_members (error_reply cause)))) = Inr ()"
proof (rule error_msg.print_valid)
  show "error_good (error_reply cause)" by (rule ValidateRemoteError_good [OF error_reply_valid])
  have "length (re_Code (error_reply cause)) \<le> 64" "length (re_Message (error_reply cause)) \<le> 1024"
    using error_reply_valid [of cause] by (simp_all add: ValidateRemoteError_def split: if_splits)
  with error_members_length [of "error_reply cause"]
  show "length (json_print (JObject (error_members (error_reply cause)))) \<le> MaxMetadataSize"
    by (simp add: MaxMetadataSize_def)
qed

lemma error_frame_ok:
  assumes "validateJSON m = Inr ()"
  shows "frame_ok \<lparr>f_Type = Error, f_RequestID = rid, f_Metadata = m, f_Body = []\<rparr>"
proof -
  from assms have "length m \<le> 8192" "2 \<le> length m" by (simp_all add: validateJSON_iff MaxMetadataSize_def)
  then show ?thesis
    using assms by (auto simp: frame_ok_def is_ok_unit validateHeader_def MaxMetadataSize_def
        MaxChunkSize_def word_less_nat_alt unat_word32)
qed

text \<open>
  Property C22: Every error reported to a peer arrives as one: on a working connection
  \<open>sendError\<close> always puts one valid ERROR frame on the wire, whatever the cause, and the
  peer that reads it for the same request gets exactly the code and message sent, never a
  protocol error; only a cause that carries a valid remote error shows more than a
  generic text.
\<close>

theorem sendError_expect:
  assumes "c_set c = []" "w_script (c_out c) = []"
    "stream r = drop (length (w_out (c_out c))) (w_out (c_out (sendError rid cause c))) @ rest"
  shows "\<exists>f r'. ReadFrame r = (Inr f, r') \<and> stream r' = rest \<and>
     (\<forall>kind. expect f kind rid = Inl (Remote (re_Code (error_reply cause)) (re_Message (error_reply cause)))) \<and>
     (errors_as_remote cause = None \<longrightarrow> re_Code (error_reply cause) \<in> {''PROTOCOL_ERROR'', ''INTERNAL_ERROR''})"
proof -
  let ?e = "error_reply cause"
  let ?f = "\<lparr>f_Type = Error, f_RequestID = rid, f_Metadata = json_print (JObject (error_members ?e)), f_Body = []\<rparr>"
  note v = error_reply_sendable [of cause]
  have ok: "frame_ok ?f" using error_frame_ok [OF v] .
  obtain now c1 where n: "Now c = (now, c1)" by fastforce
  have c1: "c_out c1 = c_out c" "c_set c1 = []"
    using n assms(1) by (auto simp: Now_def split: list.splits)
  have "w_out (c_out (sendError rid cause c)) = w_out (c_out c) @ encode_frame ?f"
    using WriteFrame_clean [OF ok, of "c_out c"] assms(2) c1
    by (simp add: sendError_def n SetWriteDeadline_def andThen_def next_set_def conn_send_def send_def)
  with assms(3) have "stream r = encode_frame ?f @ rest" by simp
  with ok obtain r' where r: "ReadFrame r = (Inr ?f, r')" "stream r' = rest" by (rule ReadFrame_encode)
  have "DecodeMetadata ?f error_table error_zero [''code'', ''message''] = Inr ?e"
    by (rule error_msg.decode_print [OF ValidateRemoteError_good [OF error_reply_valid] v]) simp
  then have "\<forall>kind. expect ?f kind rid = Inl (Remote (re_Code ?e) (re_Message ?e))"
    by (simp add: expect_def error_reply_valid)
  moreover have "errors_as_remote cause = None \<longrightarrow> re_Code ?e \<in> {''PROTOCOL_ERROR'', ''INTERNAL_ERROR''}"
    by (simp add: error_reply_def Let_def)
  ultimately show ?thesis using r by (intro exI conjI)
qed

theorem sendError_expect_witness:
  "\<exists>f r'. ReadFrame (whole (w_out (c_out (sendError 3 (Errorf ''disk on fire'') (sample_conn []))))) = (Inr f, r') \<and>
     expect f Response 3 = Inl (Remote ''INTERNAL_ERROR'' ''resource provider failed'')"
  using sendError_expect [of "sample_conn []" "whole (w_out (c_out (sendError 3 (Errorf ''disk on fire'')
      (sample_conn []))))" 3 "Errorf ''disk on fire''" "[]"]
  by (auto simp: sample_conn_def fresh_writer_def error_reply_def)


subsection \<open>Application headers\<close>

lemma check_headers_ok:
  "check_headers hs n = Inr m \<Longrightarrow>
     m = n + (\<Sum>h\<leftarrow>hs. length (h_Name h) + length (h_Value h)) \<and>
     (\<forall>h\<in>set hs. 0 < length (h_Name h) \<and> length (h_Name h) \<le> 64 \<and> length (h_Value h) \<le> 4096 \<and>
        list_all (\<lambda>(c, _). header_name_rune c) (runes (h_Name h)) \<and>
        list_all (\<lambda>(c, _). 32 \<le> c \<and> c \<le> 126) (runes (h_Value h)))"
proof (induction hs arbitrary: n)
  case (Cons h hs)
  from Cons.prems have h: "0 < length (h_Name h)" "length (h_Name h) \<le> 64" "length (h_Value h) \<le> 4096"
    "list_all (\<lambda>(c, _). header_name_rune c) (runes (h_Name h))"
    "list_all (\<lambda>(c, _). 32 \<le> c \<and> c \<le> 126) (runes (h_Value h))"
    and r: "check_headers hs (n + length (h_Name h) + length (h_Value h)) = Inr m"
    by (auto simp: list_ex_iff list_all_iff not_less split: if_splits)
  from Cons.IH [OF r] h show ?case by simp
qed simp

lemma header_name_rune_ascii: "header_name_rune c \<Longrightarrow> c < 128 \<and> 32 < c"
  by (auto simp: header_name_rune_def)

text \<open>
  Header lists that pass validation cannot smuggle anything: at most 64 headers
  and 6144 bytes in all, names of lowercase token characters, values of printable ASCII,
  so neither holds a control character, a line break or a byte above 126.
\<close>

theorem headers_safe:
  assumes "ValidateApplicationHeaders headers = Inr ()"
  shows "\<exists>hs. headers = Some hs \<and> length hs \<le> 64 \<and>
     (\<Sum>h\<leftarrow>hs. length (h_Name h) + length (h_Value h)) \<le> 6144 \<and>
     (\<forall>h\<in>set hs. h_Name h \<noteq> [] \<and> (\<forall>c\<in>set (h_Name h). header_name_rune (ord c)) \<and>
        (\<forall>c\<in>set (h_Name h) \<union> set (h_Value h). 32 \<le> ord c \<and> ord c \<le> 126))"
proof -
  from assms obtain hs m where hs: "headers = Some hs" "length hs \<le> 64" "check_headers hs 0 = Inr m" "m \<le> 6144"
    by (auto simp: ValidateApplicationHeaders_def res_simps split: option.splits)
  note ok = check_headers_ok [OF hs(3)]
  have "h_Name h \<noteq> [] \<and> (\<forall>c\<in>set (h_Name h). header_name_rune (ord c)) \<and>
      (\<forall>c\<in>set (h_Name h) \<union> set (h_Value h). 32 \<le> ord c \<and> ord c \<le> 126)" if "h \<in> set hs" for h
  proof -
    from ok that have n: "h_Name h \<noteq> []" "list_all (\<lambda>(c, _). header_name_rune c) (runes (h_Name h))"
      and v: "list_all (\<lambda>(c, _). 32 \<le> c \<and> c \<le> 126) (runes (h_Value h))" by auto
    have an: "\<forall>c\<in>set (h_Name h). ord c < 128"
      using n(2) header_name_rune_ascii by (intro runes_small) (auto simp: list_all_iff)
    have av: "\<forall>c\<in>set (h_Value h). ord c < 128"
      using v by (intro runes_small) (auto simp: list_all_iff)
    have rn: "\<forall>c\<in>set (h_Name h). header_name_rune (ord c)"
      using n(2) unfolding runes_ascii [OF an] by (simp add: list_all_iff)
    moreover have "\<forall>c\<in>set (h_Value h). 32 \<le> ord c \<and> ord c \<le> 126"
      using v unfolding runes_ascii [OF av] by (simp add: list_all_iff)
    moreover have "header_name_rune c \<Longrightarrow> 32 \<le> c \<and> c \<le> 126" for c
      by (auto simp: header_name_rune_def)
    ultimately show ?thesis using n(1) by blast
  qed
  with hs ok show ?thesis by auto
qed

end
