(* ===== verification/Client.thy ===== *)
theory Client
  imports Serving Adapters
begin

text \<open>
  The client: \<open>Dial\<close>, \<open>Fetch\<close>, \<open>Close\<close> of \<open>src/client.go\<close> and \<open>Session.Exchange\<close> of
  \<open>src/application.go\<close>.
\<close>

subsection \<open>Clients and sessions\<close>

record 'h Client =
  cl_Registry :: "Registry option"
  cl_Dialers :: "string \<rightharpoonup> (Endpoint \<Rightarrow> 'h conn res)"
  cl_Timeout :: int
  cl_MaxBytes :: int
  cl_Identity :: "TLSCertificate option"

record Result =
  re_MediaType :: string
  re_Size :: int
  re_SHA256 :: string
  re_Security :: SecurityInfo

text \<open>\<open>se_busy\<close> says whether another call holds the session's mutex.\<close>

record Session =
  se_Security :: SecurityInfo
  se_authority :: string
  se_timeout :: int
  se_maxBytes :: int
  se_nextID :: "32 word"
  se_busy :: bool
  se_closed :: bool

definition tls_handshake ::
    "(tlsConfig \<Rightarrow> 'h conn \<Rightarrow> ConnectionState res \<times> 'h conn) \<Rightarrow> tlsConfig \<Rightarrow> (ConnectionState, 'h) io" where
  "tls_handshake handshake config c =
     (case handshake config c of
        (Inl e, c') \<Rightarrow> (Inl (Wrapf ''DEEP TLS handshake'' e), c') | (Inr state, c') \<Rightarrow> (Inr state, c'))"

text \<open>\<open>Dial\<close> from the moment the raw connection is open.\<close>

definition dial_session ::
    "crypto \<Rightarrow> (tlsConfig \<Rightarrow> 'h conn \<Rightarrow> ConnectionState res \<times> 'h conn) \<Rightarrow> tlsConfig \<Rightarrow>
     int option \<Rightarrow> int \<Rightarrow> int \<Rightarrow> string \<Rightarrow> (Session, 'h) io" where
  "dial_session k handshake config ctx timeout maxBytes0 authority =
     andThen (setDeadline ctx timeout) (\<lambda>_.
     andThen (tls_handshake handshake config) (\<lambda>state.
     andThen (lift (InspectSecurity k state)) (\<lambda>security.
     andThen (conn_send Hello 0 (hello_members \<lparr>hm_Versions = Some [int ProtocolVersion]\<rparr>) []) (\<lambda>_.
     andThen conn_read (\<lambda>frame.
     andThen (lift (expect frame Welcome 0)) (\<lambda>_.
     andThen (lift (DecodeMetadata frame welcome_table welcome_zero [''version'', ''max_chunk''])) (\<lambda>welcome.
       if wm_Version welcome \<noteq> int ProtocolVersion \<or> wm_MaxChunk welcome \<noteq> int MaxChunkSize
         then fail (protocolError ''unsupported protocol version or chunk size'')
       else andThen ctx_Err (\<lambda>_.
         let maxBytes = (if maxBytes0 = 0 then DefaultMaxBytes else maxBytes0)
         in if maxBytes < 0 \<or> maxBytes > MaxResourceSize
              then fail (Errorf ''invalid resource byte limit'')
            else andThen (SetDeadline None) (\<lambda>_.
              ret \<lparr>se_Security = security, se_authority = authority, se_timeout = timeout,
                   se_maxBytes = maxBytes, se_nextID = 1, se_busy = False, se_closed = False\<rparr>)))))))))"

definition with_identity :: "crypto \<Rightarrow> int \<Rightarrow> TLSCertificate option \<Rightarrow> tlsConfig \<Rightarrow> tlsConfig res" where
  "with_identity k now identity config =
     (case identity of
        None \<Rightarrow> Inr config
      | Some cert \<Rightarrow> (case ValidateClientIdentity k now cert of
          Inl e \<Rightarrow> Inl (Wrapf ''client identity'' e)
        | Inr _ \<Rightarrow> Inr (config\<lparr>g_Certificates := [cert]\<rparr>)))"

lemma with_identity_verify:
  "with_identity k now identity config0 = Inr config \<Longrightarrow> g_VerifyConnection config = g_VerifyConnection config0"
  by (auto simp: with_identity_def split: option.splits sum.splits)

definition Dial ::
    "crypto \<Rightarrow> 'h Client \<Rightarrow> (tlsConfig \<Rightarrow> 'h conn \<Rightarrow> ConnectionState res \<times> 'h conn) \<Rightarrow>
     int \<Rightarrow> int option \<Rightarrow> ctx \<Rightarrow> string \<Rightarrow> (Session \<times> 'h conn) res" where
  "Dial k cl handshake now parent ctx uriText =
     (case ParseURI uriText of
        Inl e \<Rightarrow> Inl e
      | Inr uri \<Rightarrow>
     (case cl_Registry cl of
        None \<Rightarrow> Inl (Errorf ''no network adapter registry'')
      | Some registry \<Rightarrow>
     (let timeout = (if cl_Timeout cl \<le> 0 then 30 * Second else cl_Timeout cl);
          deadline = WithTimeout parent timeout now
      in case Resolve registry ctx (u_Authority uri) of
        (Inl e, ctx1) \<Rightarrow> Inl e
      | (Inr endpoint, ctx1) \<Rightarrow>
     (let transport = (if ep_Transport endpoint = [] then ''tcp'' else ep_Transport endpoint)
      in case cl_Dialers cl transport of
        None \<Rightarrow> Inl (Errorf ''no transport registered'')
      | Some dial \<Rightarrow>
     (case ClientTLSConfig k (u_Authority uri) (ep_PinSHA256 endpoint) of
        Inl e \<Rightarrow> Inl e
      | Inr config0 \<Rightarrow>
     (case with_identity k now (cl_Identity cl) config0 of
        Inl e \<Rightarrow> Inl e
      | Inr config \<Rightarrow>
     (case dial endpoint of
        Inl e \<Rightarrow> Inl e
      | Inr raw \<Rightarrow>
     (case dial_session k handshake config deadline timeout (cl_MaxBytes cl) (u_Authority uri) raw of
        (Inl e, c) \<Rightarrow> Inl e
      | (Inr session, c) \<Rightarrow> Inr (session, c)))))))))"

subsection \<open>Calls on a session\<close>

text \<open>
  What \<open>Fetch\<close> and \<open>Exchange\<close> share: the checks before a request is made, the request ID,
  and that any error from then on closes the session.
\<close>

definition session_call ::
    "string \<Rightarrow> string \<Rightarrow> int option \<Rightarrow> string \<Rightarrow> (URI \<Rightarrow> 32 word \<Rightarrow> ('a, 'h) io) \<Rightarrow> Session \<Rightarrow>
     'h conn \<Rightarrow> 'a res \<times> Session \<times> 'h conn" where
  "session_call busy exhausted parent uriText body s c =
     (case ParseURI uriText of
        Inl e \<Rightarrow> (Inl e, s, c)
      | Inr uri \<Rightarrow>
          if u_Authority uri \<noteq> se_authority s
            then (Inl (Errorf ''session belongs to a different authority''), s, c)
          else if se_busy s then (Inl (Errorf busy), s, c)
          else if se_closed s then (Inl ErrClosed, s, c)
          else (case ctx_Err c of
              (Inl e, c1) \<Rightarrow> (Inl e, s, c1)
            | (Inr _, c1) \<Rightarrow>
                if se_nextID s = 0 then (Inl (Errorf exhausted), s, c1)
                else (case Now c1 of (t, c2) \<Rightarrow>
                  (case setDeadline (WithTimeout parent (se_timeout s) t) (se_timeout s) c2 of
                     (Inl e, c3) \<Rightarrow> (Inl e, s\<lparr>se_closed := True\<rparr>, close_conn c3)
                   | (Inr _, c3) \<Rightarrow>
                       (let s' = s\<lparr>se_nextID := se_nextID s + 1\<rparr>
                        in case body uri (se_nextID s) c3 of
                             (Inl e, c4) \<Rightarrow> (Inl e, s'\<lparr>se_closed := True\<rparr>, close_conn c4)
                           | (Inr x, c4) \<Rightarrow> (Inr x, s', c4))))))"

definition fetch_body :: "(bytes \<Rightarrow> bytes) \<Rightarrow> Session \<Rightarrow> URI \<Rightarrow> 32 word \<Rightarrow> (Result, 'h) io" where
  "fetch_body sha s uri rid =
     andThen (conn_send Request rid (request_members
        \<lparr>rm_Authority = u_Authority uri, rm_Path = u_Path uri, rm_Query = u_Query uri,
         rm_Operation = ''FETCH''\<rparr>) []) (\<lambda>_.
     andThen conn_read (\<lambda>frame.
     andThen (lift (expect frame Response rid)) (\<lambda>_.
     andThen (lift (DecodeMetadata frame response_table response_zero [''media_type'', ''size''])) (\<lambda>metadata.
       if \<not> validateMediaType (sm_MediaType metadata) \<or> sm_Size metadata < 0 \<or>
          sm_Size metadata > MaxResourceSize
         then fail (protocolError ''invalid resource metadata'')
       else if sm_Size metadata > se_maxBytes s
         then fail (Errorf ''resource exceeds client limit'')
       else andThen (receive_loop ''response request ID mismatch'' ''resource size or SHA-256 mismatch''
                       sha rid (sm_Size metadata) 0 []) (\<lambda>digest.
         andThen (SetDeadline None) (\<lambda>_.
         ret \<lparr>re_MediaType = sm_MediaType metadata, re_Size = sm_Size metadata, re_SHA256 = digest,
              re_Security = se_Security s\<rparr>))))))"

text \<open>\<open>hasDestination\<close> is false for a nil destination.\<close>

definition Session_Fetch ::
    "(bytes \<Rightarrow> bytes) \<Rightarrow> int option \<Rightarrow> string \<Rightarrow> bool \<Rightarrow> Session \<Rightarrow> 'h conn \<Rightarrow> Result res \<times> Session \<times> 'h conn" where
  "Session_Fetch sha parent uriText hasDestination s c =
     (if \<not> hasDestination then (Inl (Errorf ''nil resource destination''), s, c)
      else session_call ''session is busy; wait for FETCH to finish or open another session''
             ''request IDs exhausted; open a new session'' parent uriText (fetch_body sha s) s c)"

record ApplicationResult =
  ax_Result :: Result
  ax_Status :: int
  ax_Headers :: "Header list option"

definition exchange_body ::
    "(bytes \<Rightarrow> bytes) \<Rightarrow> ApplicationRequest \<Rightarrow> Session \<Rightarrow> URI \<Rightarrow> 32 word \<Rightarrow> (ApplicationResult, 'h) io" where
  "exchange_body sha request s uri rid =
     andThen (conn_send Request rid (request_members
        \<lparr>rm_Authority = u_Authority uri, rm_Path = u_Path uri, rm_Query = u_Query uri,
         rm_Operation = ''EXCHANGE''\<rparr>) []) (\<lambda>_.
     andThen conn_read (\<lambda>frame.
     andThen (lift (expect frame Continue rid)) (\<lambda>_.
     andThen (lift (DecodeMetadata frame continue_table continue_zero [''profile'', ''max_body''])) (\<lambda>ready.
       if ac_Profile ready \<noteq> ApplicationProfile \<or> ac_MaxBody ready \<noteq> MaxApplicationRequestBytes
         then fail (protocolError ''unsupported application profile'')
       else andThen (conn_send Request rid (app_request_members
              \<lparr>aq_Method = ar_Method request, aq_Headers = ar_Headers request,
               aq_Size = int (length (ar_Body request))\<rparr>) []) (\<lambda>_.
         andThen (sendBody sha rid (whole (ar_Body request)) (int (length (ar_Body request)))) (\<lambda>_.
         andThen conn_read (\<lambda>frame.
         andThen (lift (expect frame Response rid)) (\<lambda>_.
         andThen (lift (DecodeMetadata frame app_response_table app_response_zero
              [''status'', ''headers'', ''media_type'', ''size''])) (\<lambda>response.
           if as_Status response < 200 \<or> as_Status response > 599 \<or>
              \<not> validateMediaType (as_MediaType response) \<or> as_Size response < 0 \<or>
              as_Size response > min (se_maxBytes s) MaxApplicationResponseBytes
             then fail (protocolError ''invalid application response'')
           else if ar_Method request = ''HEAD'' \<and> as_Size response \<noteq> 0
             then fail (protocolError ''HEAD response has a body'')
           else andThen (lift (ValidateApplicationHeaders (as_Headers response))) (\<lambda>_.
             andThen (receiveBody sha rid (as_Size response)) (\<lambda>digest.
             andThen (SetDeadline None) (\<lambda>_.
             ret \<lparr>ax_Result = \<lparr>re_MediaType = as_MediaType response, re_Size = as_Size response,
                                re_SHA256 = digest, re_Security = se_Security s\<rparr>,
                  ax_Status = as_Status response, ax_Headers = as_Headers response\<rparr>))))))))))))"

definition Session_Exchange ::
    "(bytes \<Rightarrow> bytes) \<Rightarrow> int option \<Rightarrow> string \<Rightarrow> ApplicationRequest \<Rightarrow> bool \<Rightarrow> Session \<Rightarrow> 'h conn \<Rightarrow>
     ApplicationResult res \<times> Session \<times> 'h conn" where
  "Session_Exchange sha parent uriText request0 hasDestination s c =
     (if \<not> hasDestination \<or> \<not> ValidApplicationMethod (ar_Method request0) \<or>
         int (length (ar_Body request0)) > MaxApplicationRequestBytes
        then (Inl (Errorf ''invalid application request''), s, c)
      else let request = (if ar_Headers request0 = None then request0\<lparr>ar_Headers := Some []\<rparr> else request0)
       in case ValidateApplicationHeaders (ar_Headers request) of
            Inl e \<Rightarrow> (Inl e, s, c)
          | Inr _ \<Rightarrow>
              if (ar_Method request = ''GET'' \<or> ar_Method request = ''HEAD'') \<and> length (ar_Body request) \<noteq> 0
                then (Inl (Errorf ''GET and HEAD must not carry a body''), s, c)
              else session_call ''session is busy'' ''request IDs exhausted'' parent uriText
                     (exchange_body sha request s) s c)"

definition Session_Close :: "Session \<Rightarrow> 'h conn \<Rightarrow> Session \<times> 'h conn" where
  "Session_Close s c =
     (if se_closed s then (s, c)
      else (s\<lparr>se_closed := True\<rparr>,
            close_conn
              (if se_busy s then c
               else case Now c of (now, c1) \<Rightarrow>
                 (case SetWriteDeadline (Some (now + 200000000)) c1 of
                    (Inl e, c2) \<Rightarrow> c2
                  | (Inr _, c2) \<Rightarrow> snd (conn_send Close 0 [] [] c2)))))"

subsection \<open>The shape of a call\<close>

lemma session_call_cases:
  assumes "session_call busy exhausted parent uriText body s c = (x, s', c')"
  obtains (refused) e where "x = Inl e" "s' = s" "c_out c' = c_out c" "c_in c' = c_in c" "c_dest c' = c_dest c"
    | (broken) e where "x = Inl e" "s' = s\<lparr>se_closed := True\<rparr>" "c_closed c'" "c_out c' = c_out c"
        "c_dest c' = c_dest c"
    | (failed) uri e c3 c4 where "ParseURI uriText = Inr uri" "u_Authority uri = se_authority s" "x = Inl e"
        "se_nextID s \<noteq> 0" "\<not> se_closed s" "\<not> se_busy s" "body uri (se_nextID s) c3 = (Inl e, c4)"
        "c_out c3 = c_out c" "c_in c3 = c_in c" "c_dest c3 = c_dest c"
        "s' = s\<lparr>se_nextID := se_nextID s + 1, se_closed := True\<rparr>" "c' = close_conn c4"
    | (returned) uri y c3 where "ParseURI uriText = Inr uri" "u_Authority uri = se_authority s" "x = Inr y"
        "se_nextID s \<noteq> 0" "\<not> se_closed s" "\<not> se_busy s" "body uri (se_nextID s) c3 = (Inr y, c')"
        "c_out c3 = c_out c" "c_in c3 = c_in c" "c_dest c3 = c_dest c"
        "s' = s\<lparr>se_nextID := se_nextID s + 1\<rparr>"
proof -
  have set: "c_out c3 = c_out c2 \<and> c_in c3 = c_in c2 \<and> c_dest c3 = c_dest c2"
    if "setDeadline d t c2 = (z, c3)" for d t z and c2 c3 :: "'b conn"
    using that by (auto simp: setDeadline_def Now_def SetDeadline_def andThen_def next_set_def Let_def
        split: prod.splits sum.splits list.splits option.splits)
  have now: "c_out c2 = c_out c1 \<and> c_in c2 = c_in c1 \<and> c_dest c2 = c_dest c1"
    if "Now c1 = (t, c2)" for t and c1 c2 :: "'b conn"
    using that by (auto simp: Now_def split: list.splits)
  obtain z c1 where e: "ctx_Err c = (z, c1)" by fastforce
  obtain t c2 where n: "Now c1 = (t, c2)" by fastforce
  obtain w c3 where d: "setDeadline (WithTimeout parent (se_timeout s) t) (se_timeout s) c2 = (w, c3)" by fastforce
  have f: "c_out c1 = c_out c" "c_in c1 = c_in c" "c_dest c1 = c_dest c"
    "c_out c3 = c_out c" "c_in c3 = c_in c" "c_dest c3 = c_dest c"
    using ctx_Err_fields [OF e] now [OF n] set [OF d] by simp_all
  show thesis
  proof (cases "\<exists>uri v u. ParseURI uriText = Inr uri \<and> u_Authority uri = se_authority s \<and> \<not> se_busy s \<and>
      \<not> se_closed s \<and> z = Inr v \<and> se_nextID s \<noteq> 0 \<and> w = Inr u")
    case True
    then obtain uri v u where g: "ParseURI uriText = Inr uri" "u_Authority uri = se_authority s" "\<not> se_busy s"
      "\<not> se_closed s" "z = Inr v" "se_nextID s \<noteq> 0" "w = Inr u" by blast
    obtain y c4 where b: "body uri (se_nextID s) c3 = (y, c4)" by fastforce
    show thesis
    proof (cases y)
      case (Inl er)
      with assms g e n d b have "x = Inl er" "s' = s\<lparr>se_nextID := se_nextID s + 1, se_closed := True\<rparr>"
        "c' = close_conn c4" by (auto simp: session_call_def Let_def)
      with failed [OF g(1,2) _ g(6,4,3) b [unfolded Inl] f(4-6)] show thesis by blast
    next
      case (Inr r)
      with assms g e n d b have "x = Inr r" "s' = s\<lparr>se_nextID := se_nextID s + 1\<rparr>" "c' = c4"
        by (auto simp: session_call_def Let_def)
      with returned [OF g(1,2) _ g(6,4,3) _ f(4-6)] b Inr show thesis by blast
    qed
  next
    case False
    have "(\<exists>er. x = Inl er \<and> s' = s \<and> (c' = c \<or> c' = c1)) \<or>
        (\<exists>er. x = Inl er \<and> s' = s\<lparr>se_closed := True\<rparr> \<and> c' = close_conn c3)"
      using assms False e n d
      by (auto simp: session_call_def Let_def split: sum.splits if_splits)
    with refused broken f show thesis by (auto simp: close_conn_def)
  qed
qed


lemma fetch_body_ok:
  assumes "fetch_body sha s uri rid c = (Inr result, c')"
  obtains u c1 frame c2 metadata digest c3 v where
    "conn_send Request rid (request_members
        \<lparr>rm_Authority = u_Authority uri, rm_Path = u_Path uri, rm_Query = u_Query uri,
         rm_Operation = ''FETCH''\<rparr>) [] c = (Inr u, c1)"
    "conn_read c1 = (Inr frame, c2)" "expect frame Response rid = Inr ()"
    "DecodeMetadata frame response_table response_zero [''media_type'', ''size''] = Inr metadata"
    "validateMediaType (sm_MediaType metadata)" "0 \<le> sm_Size metadata" "sm_Size metadata \<le> MaxResourceSize"
    "sm_Size metadata \<le> se_maxBytes s"
    "receive_loop ''response request ID mismatch'' ''resource size or SHA-256 mismatch''
       sha rid (sm_Size metadata) 0 [] c2 = (Inr digest, c3)"
    "SetDeadline None c3 = (Inr v, c')"
    "result = \<lparr>re_MediaType = sm_MediaType metadata, re_Size = sm_Size metadata, re_SHA256 = digest,
              re_Security = se_Security s\<rparr>"
  using assms by (auto simp: fetch_body_def res_simps not_less)

lemma SetDeadline_fields:
  assumes "SetDeadline t c = (x, c')"
  shows "c_in c' = c_in c" "c_out c' = c_out c" "c_dest c' = c_dest c"
  using assms by (auto simp: SetDeadline_def andThen_def next_set_def
      split: prod.splits sum.splits list.splits option.splits)

lemma Session_Fetch_ok:
  assumes "Session_Fetch sha parent uriText hasDestination s c = (Inr result, s', c')"
  shows "\<exists>got. w_out (c_dest c') = w_out (c_dest c) @ got \<and> int (length got) = re_Size result \<and>
     re_SHA256 result = EncodeToString (sha got) \<and> re_Size result \<le> se_maxBytes s \<and>
     validateMediaType (re_MediaType result) \<and>
     (\<exists>uri. ParseURI uriText = Inr uri \<and> u_Authority uri = se_authority s \<and>
        w_out (c_out c') = w_out (c_out c) @ encode_frame \<lparr>f_Type = Request, f_RequestID = se_nextID s,
          f_Metadata = json_print (JObject (request_members \<lparr>rm_Authority = u_Authority uri,
            rm_Path = u_Path uri, rm_Query = u_Query uri, rm_Operation = ''FETCH''\<rparr>)), f_Body = []\<rparr>) \<and>
     s' = s\<lparr>se_nextID := se_nextID s + 1\<rparr>"
proof -
  from assms have call: "session_call ''session is busy; wait for FETCH to finish or open another session''
      ''request IDs exhausted; open a new session'' parent uriText (fetch_body sha s) s c = (Inr result, s', c')"
    by (auto simp: Session_Fetch_def split: if_splits)
  from call show ?thesis
  proof (cases rule: session_call_cases)
    case (returned uri y c0)
    then have "fetch_body sha s uri (se_nextID s) c0 = (Inr result, c')" by simp
    then show ?thesis
    proof (rule fetch_body_ok)
      fix u c1 frame c2 metadata digest c3 v
      assume 1: "conn_send Request (se_nextID s) (request_members
          \<lparr>rm_Authority = u_Authority uri, rm_Path = u_Path uri, rm_Query = u_Query uri,
           rm_Operation = ''FETCH''\<rparr>) [] c0 = (Inr u, c1)"
        and 2: "conn_read c1 = (Inr frame, c2)"
        and m: "validateMediaType (sm_MediaType metadata)" "sm_Size metadata \<le> se_maxBytes s"
        and 3: "receive_loop ''response request ID mismatch'' ''resource size or SHA-256 mismatch''
          sha (se_nextID s) (sm_Size metadata) 0 [] c2 = (Inr digest, c3)"
        and 4: "SetDeadline None c3 = (Inr v, c')"
        and r: "result = \<lparr>re_MediaType = sm_MediaType metadata, re_Size = sm_Size metadata,
          re_SHA256 = digest, re_Security = se_Security s\<rparr>"
      from receive_loop_sound [OF 3] obtain got where
        g: "w_out (c_dest c3) = w_out (c_dest c2) @ got" "int (length got) = sm_Size metadata"
          "digest = EncodeToString (sha got)" "c_out c3 = c_out c2" by auto
      note w = conn_send_frame [OF 1] and f = conn_send_fields [OF 1] conn_read_fields [OF 2]
        SetDeadline_fields [OF 4]
      have "w_out (c_dest c') = w_out (c_dest c) @ got"
        using g(1) f returned(10) by simp
      moreover have "c_out c' = c_out c1" using g(4) f by simp
      ultimately show ?thesis
        using w g(2,3) m r returned(1,2,8,11) by (intro exI [of _ got]) auto
    qed
  qed simp_all
qed


end
