(* ===== verification/Config.thy ===== *)
theory Config
  imports Proxy Paths Client
begin

text \<open>
  The adapter configuration of \<open>src/adapters.go\<close>: its structs, resolver programs
  (\<open>ExecAdapter\<close>), the registry built from a configuration, and the client that
  \<open>LoadClientConfig\<close> makes of it.
\<close>

subsection \<open>Decoding maps and pointers\<close>

fun decode_entries :: "(jvalue \<Rightarrow> 'e option) \<Rightarrow> (bytes \<times> jvalue) list \<Rightarrow> (string \<times> 'e) list option" where
  "decode_entries f [] = Some []"
| "decode_entries f ((k, v) # ms) =
     (case f v of None \<Rightarrow> None | Some e \<Rightarrow> map_option (Cons (k, e)) (decode_entries f ms))"

text \<open>A map field; \<open>None\<close> is the nil map.\<close>

definition set_map :: "(jvalue \<Rightarrow> 'e option) \<Rightarrow> ((string \<times> 'e) list option \<Rightarrow> 'a \<Rightarrow> 'a) \<Rightarrow> 'a setter" where
  "set_map f upd v x =
     (case v of JObject ms \<Rightarrow> map_option (\<lambda>es. upd (Some es) x) (decode_entries f ms)
      | JNull \<Rightarrow> Some (upd None x) | _ \<Rightarrow> None)"

definition set_ptr :: "(jvalue \<Rightarrow> 'e option) \<Rightarrow> ('e option \<Rightarrow> 'a \<Rightarrow> 'a) \<Rightarrow> 'a setter" where
  "set_ptr f upd v x =
     (case v of JNull \<Rightarrow> Some (upd None x) | _ \<Rightarrow> map_option (\<lambda>e. upd (Some e) x) (f v))"

definition decode_string :: "jvalue \<Rightarrow> string option" where
  "decode_string v = (case v of JString s \<Rightarrow> Some s | JNull \<Rightarrow> Some [] | _ \<Rightarrow> None)"

subsection \<open>Configuration structs\<close>

definition endpoint_shape :: shape where
  "endpoint_shape = Struct
     [(''address'', False, Plain), (''pin_sha256'', False, Plain), (''transport'', True, Plain)]"

definition endpoint_table :: "Endpoint table" where
  "endpoint_table =
     [(''address'', set_string (\<lambda>s e. e\<lparr>ep_Address := s\<rparr>)),
      (''pin_sha256'', set_string (\<lambda>s e. e\<lparr>ep_PinSHA256 := s\<rparr>)),
      (''transport'', set_string (\<lambda>s e. e\<lparr>ep_Transport := s\<rparr>))]"

definition endpoint_members :: "Endpoint \<Rightarrow> (bytes \<times> jvalue) list" where
  "endpoint_members e =
     [(''address'', JString (ep_Address e)), (''pin_sha256'', JString (ep_PinSHA256 e))] @
     omitempty ''transport'' (ep_Transport e)"

record networkFile =
  nf_Adapter :: string
  nf_Endpoints :: "(string \<times> Endpoint) list option"
  nf_Command :: "string list option"

definition network_shape :: shape where
  "network_shape = Struct
     [(''adapter'', False, Plain), (''endpoints'', True, MapOf endpoint_shape),
      (''command'', True, SliceOf Plain)]"

definition network_table :: "networkFile table" where
  "network_table =
     [(''adapter'', set_string (\<lambda>s n. n\<lparr>nf_Adapter := s\<rparr>)),
      (''endpoints'', set_map (\<lambda>v. decode_struct endpoint_table v no_endpoint) (\<lambda>es n. n\<lparr>nf_Endpoints := es\<rparr>)),
      (''command'', set_slice decode_string (\<lambda>cs n. n\<lparr>nf_Command := cs\<rparr>))]"

definition network_zero :: networkFile where
  "network_zero = \<lparr>nf_Adapter = [], nf_Endpoints = None, nf_Command = None\<rparr>"

record proxyFile =
  px_Address :: string

definition proxyFile_shape :: shape where
  "proxyFile_shape = Struct [(''address'', False, Plain)]"

definition proxyFile_table :: "proxyFile table" where
  "proxyFile_table = [(''address'', set_string (\<lambda>s p. p\<lparr>px_Address := s\<rparr>))]"

record clientIdentityFile =
  ci_Certificate :: string
  ci_PrivateKey :: string

definition clientIdentity_shape :: shape where
  "clientIdentity_shape = Struct [(''certificate'', False, Plain), (''private_key'', False, Plain)]"

definition clientIdentity_table :: "clientIdentityFile table" where
  "clientIdentity_table =
     [(''certificate'', set_string (\<lambda>s c. c\<lparr>ci_Certificate := s\<rparr>)),
      (''private_key'', set_string (\<lambda>s c. c\<lparr>ci_PrivateKey := s\<rparr>))]"

record registryFile =
  rf_Version :: int
  rf_Networks :: "(string \<times> networkFile) list option"
  rf_Proxy :: "proxyFile option"
  rf_ClientIdentity :: "clientIdentityFile option"

definition registryFile_shape :: shape where
  "registryFile_shape = Struct
     [(''version'', False, Plain), (''networks'', True, MapOf network_shape),
      (''proxy'', True, Pointer proxyFile_shape),
      (''client_identity'', True, Pointer clientIdentity_shape)]"

definition registryFile_table :: "registryFile table" where
  "registryFile_table =
     [(''version'', set_int (\<lambda>i r. r\<lparr>rf_Version := i\<rparr>)),
      (''networks'', set_map (\<lambda>v. decode_struct network_table v network_zero) (\<lambda>ns r. r\<lparr>rf_Networks := ns\<rparr>)),
      (''proxy'', set_ptr (\<lambda>v. decode_struct proxyFile_table v \<lparr>px_Address = []\<rparr>) (\<lambda>p r. r\<lparr>rf_Proxy := p\<rparr>)),
      (''client_identity'', set_ptr (\<lambda>v. decode_struct clientIdentity_table v \<lparr>ci_Certificate = [], ci_PrivateKey = []\<rparr>)
         (\<lambda>c r. r\<lparr>rf_ClientIdentity := c\<rparr>))]"

definition registryFile_zero :: registryFile where
  "registryFile_zero = \<lparr>rf_Version = 0, rf_Networks = None, rf_Proxy = None, rf_ClientIdentity = None\<rparr>"

subsection \<open>Resolver programs\<close>

definition maxAdapterOutput :: nat where
  "maxAdapterOutput = 64 * 1024"

record ExecAdapter =
  ea_Command :: "string list"
  ea_Timeout :: int
  ea_workDir :: string

text \<open>
  \<open>run\<close> is what starting the program does: for its name, arguments, working directory and
  input, the pieces it writes to standard output and to standard error, and the error it
  ends with.
\<close>

type_synonym program = "string \<Rightarrow> string list \<Rightarrow> string \<Rightarrow> bytes \<Rightarrow> bytes list \<times> bytes list \<times> err option"

text \<open>\<open>os/exec\<close> copies the output to the writer and stops at its first error.\<close>

fun copy_output :: "bytes list \<Rightarrow> limitedBuffer \<Rightarrow> err option \<times> limitedBuffer" where
  "copy_output [] b = (None, b)"
| "copy_output (p # ps) b =
     (case limitedBuffer_Write p b of
        ((n, Some e), b') \<Rightarrow> (Some e, b') | ((n, None), b') \<Rightarrow> copy_output ps b')"

text \<open>\<open>Run\<close> reports how the program ended, or else the first error of the two copies.\<close>

definition Command_Run ::
    "program \<Rightarrow> string \<Rightarrow> string list \<Rightarrow> string \<Rightarrow> bytes \<Rightarrow> limitedBuffer \<Rightarrow> limitedBuffer \<Rightarrow>
     err option \<times> limitedBuffer" where
  "Command_Run run name args dir input stdout stderr =
     (case run name args dir input of (out, diag, ended) \<Rightarrow>
        (case copy_output out stdout of (e1, b) \<Rightarrow>
        (case copy_output diag stderr of (e2, _) \<Rightarrow>
           (case ended of
              Some e \<Rightarrow> (Some e, b)
            | None \<Rightarrow> (case e1 of Some e \<Rightarrow> (Some e, b) | None \<Rightarrow> (e2, b))))))"

definition new_limited :: "nat \<Rightarrow> limitedBuffer" where
  "new_limited limit = \<lparr>lb_buffer = [], lb_limit = limit, lb_exceeded = False\<rparr>"

definition resolver_request :: "string \<Rightarrow> bytes" where
  "resolver_request authority =
     json_print (JObject [(''version'', JNumber (Itoa (int ProtocolVersion))), (''authority'', JString authority)]) @
     [CHR 0x0A]"

definition command_name :: "string \<Rightarrow> string \<Rightarrow> string" where
  "command_name workDir name =
     (if workDir \<noteq> [] \<and> \<not> IsAbs name \<and> ContainsAny name [CHR ''/'', CHR 0x5C] then Join [workDir, name] else name)"

definition ExecAdapter_Resolve :: "program \<Rightarrow> ExecAdapter \<Rightarrow> adapter" where
  "ExecAdapter_Resolve run a ctx authority =
     (case ValidateAuthority authority of
        Inl e \<Rightarrow> (Inl e, ctx)
      | Inr _ \<Rightarrow>
          (case ea_Command a of
             [] \<Rightarrow> (Inl (Errorf ''exec adapter requires a command''), ctx)
           | name # args \<Rightarrow>
               if TrimSpace name = [] then (Inl (Errorf ''exec adapter requires a command''), ctx)
               else if ea_Timeout a < 0 then (Inl (Errorf ''exec adapter timeout must be positive''), ctx)
               else (case Command_Run run (command_name (ea_workDir a) name) args (ea_workDir a)
                            (resolver_request authority) (new_limited maxAdapterOutput) (new_limited 4096) of
                   (Some e, out) \<Rightarrow>
                     (case Err ctx of
                        (Inl e', ctx1) \<Rightarrow> (Inl (Wrapf ''exec adapter'' e'), ctx1)
                      | (Inr _, ctx1) \<Rightarrow>
                          if lb_exceeded out then (Inl (Errorf ''exec adapter output exceeds 65536 bytes''), ctx1)
                          else (Inl (Wrapf ''exec adapter failed'' e), ctx1))
                 | (None, out) \<Rightarrow>
                     if lb_exceeded out then (Inl (Errorf ''exec adapter output exceeds 65536 bytes''), ctx)
                     else (case DecodeConfigJSON endpoint_shape endpoint_table no_endpoint (lb_buffer out) of
                         Inl e \<Rightarrow> (Inl (Wrapf ''invalid exec adapter response'' e), ctx)
                       | Inr endpoint \<Rightarrow>
                           (case ValidateEndpoint endpoint of
                              Inl e \<Rightarrow> (Inl (Wrapf ''invalid exec adapter response'' e), ctx)
                            | Inr _ \<Rightarrow> (Inr endpoint, ctx))))))"

subsection \<open>From a configuration to a registry\<close>

definition validIdentityPath :: "string \<Rightarrow> bool" where
  "validIdentityPath p \<longleftrightarrow>
     TrimSpace p \<noteq> [] \<and> list_all (\<lambda>(c, _). \<not> IsControl c \<and> \<not> In_Cf_Zl_Zp c) (runes p)"

fun check_endpoints :: "string \<Rightarrow> (string \<times> Endpoint) list \<Rightarrow> check" where
  "check_endpoints network [] = Inr ()"
| "check_endpoints network ((authority, endpoint) # es) =
     (if \<not> is_ok (ValidateAuthority authority) \<or> \<not> HasSuffix authority (CHR ''.'' # network)
        then Inl (Errorf ''endpoint does not belong to network'')
      else case ValidateEndpoint endpoint of
        Inl e \<Rightarrow> Inl (Wrapf ''endpoint'' e) | Inr _ \<Rightarrow> check_endpoints network es)"

definition network_adapter :: "program \<Rightarrow> string \<Rightarrow> string \<Rightarrow> networkFile \<Rightarrow> adapter res" where
  "network_adapter run directory network config =
     (if nf_Adapter config = ''static'' then
        (case (nf_Endpoints config, nf_Command config) of
           (Some es, None) \<Rightarrow>
             (case check_endpoints network es of
                Inl e \<Rightarrow> Inl e | Inr _ \<Rightarrow> Inr (StaticAdapter_Resolve (map_of es)))
         | _ \<Rightarrow> Inl (Errorf ''static network requires endpoints and forbids command''))
      else if nf_Adapter config = ''exec'' then
        (case nf_Command config of
           Some (name # args) \<Rightarrow>
             if TrimSpace name = [] \<or> nf_Endpoints config \<noteq> None
               then Inl (Errorf ''exec network requires command and forbids endpoints'')
             else Inr (ExecAdapter_Resolve run
                    \<lparr>ea_Command = name # args, ea_Timeout = 0, ea_workDir = directory\<rparr>)
         | _ \<Rightarrow> Inl (Errorf ''exec network requires command and forbids endpoints''))
      else Inl (Errorf ''unsupported adapter''))"

text \<open>The loop over the networks, in the order in which the map is visited.\<close>

fun add_networks :: "program \<Rightarrow> string \<Rightarrow> (string \<times> networkFile) list \<Rightarrow> Registry \<Rightarrow> Registry res" where
  "add_networks run directory [] registry = Inr registry"
| "add_networks run directory ((network, config) # ns) registry =
     (case network_adapter run directory network config of
        Inl e \<Rightarrow> Inl e
      | Inr a \<Rightarrow>
          (case Register network (Some a) registry of
             (Inl e, _) \<Rightarrow> Inl e
           | (Inr _, registry') \<Rightarrow> add_networks run directory ns registry'))"

definition registryFromConfig ::
    "program \<Rightarrow> (string \<Rightarrow> adapter) \<Rightarrow> registryFile \<Rightarrow> string \<Rightarrow> Registry res" where
  "registryFromConfig run proxy config directory =
     (case add_networks run directory (case rf_Networks config of None \<Rightarrow> [] | Some ns \<Rightarrow> ns) NewRegistry of
        Inl e \<Rightarrow> Inl e
      | Inr registry \<Rightarrow>
          (case rf_Proxy config of
             None \<Rightarrow> Inr registry
           | Some p \<Rightarrow>
               (case SetProxy ValidateProxyAddress proxy (px_Address p) registry of
                  (Inl e, _) \<Rightarrow> Inl e | (Inr _, registry') \<Rightarrow> Inr registry')))"

text \<open>\<open>file\<close> answers \<open>os.Open\<close> and reading; \<open>cwd\<close> is the working directory.\<close>

definition Abs :: "string \<Rightarrow> string \<Rightarrow> string" where
  "Abs cwd p = (if IsAbs p then Clean p else Join [cwd, p])"

definition loadRegistryConfig :: "(string \<Rightarrow> bytes res) \<Rightarrow> string \<Rightarrow> string \<Rightarrow> (registryFile \<times> string) res" where
  "loadRegistryConfig file cwd path =
     (case file path of
        Inl e \<Rightarrow> Inl e
      | Inr content \<Rightarrow>
          (let data = take (1024 * 1024 + 1) content
           in if length data > 1024 * 1024 then Inl (Errorf ''adapter configuration exceeds 1 MiB'')
              else case DecodeConfigJSON registryFile_shape registryFile_table registryFile_zero data of
                Inl e \<Rightarrow> Inl (Wrapf ''invalid adapter configuration'' e)
              | Inr config \<Rightarrow>
                  if rf_Version config \<noteq> int ProtocolVersion
                    then Inl (Errorf ''adapter configuration version must be 2'')
                  else case (case rf_Proxy config of None \<Rightarrow> Inr () | Some p \<Rightarrow> ValidateProxyAddress (px_Address p)) of
                    Inl e \<Rightarrow> Inl e
                  | Inr _ \<Rightarrow>
                      (case rf_ClientIdentity config of
                         Some i \<Rightarrow>
                           if \<not> validIdentityPath (ci_Certificate i) \<or> \<not> validIdentityPath (ci_PrivateKey i)
                             then Inl (Errorf ''client_identity requires certificate and private_key paths'')
                           else Inr (config, Dir (Abs cwd path))
                       | None \<Rightarrow> Inr (config, Dir (Abs cwd path)))))"

definition LoadRegistry ::
    "program \<Rightarrow> (string \<Rightarrow> adapter) \<Rightarrow> (string \<Rightarrow> bytes res) \<Rightarrow> string \<Rightarrow> string \<Rightarrow> Registry res" where
  "LoadRegistry run proxy file cwd path =
     (case loadRegistryConfig file cwd path of
        Inl e \<Rightarrow> Inl e | Inr (config, directory) \<Rightarrow> registryFromConfig run proxy config directory)"

definition NewClient :: "(Endpoint \<Rightarrow> 'h conn res) \<Rightarrow> (Endpoint \<Rightarrow> 'h conn res) \<Rightarrow> Registry option \<Rightarrow> 'h Client" where
  "NewClient dialTCP dialProxy registry =
     \<lparr>cl_Registry = registry, cl_Dialers = [''tcp'' \<mapsto> dialTCP, ProxyTransport \<mapsto> dialProxy],
      cl_Timeout = 30 * Second, cl_MaxBytes = DefaultMaxBytes, cl_Identity = None\<rparr>"

text \<open>\<open>keyPair\<close> is \<open>tls.LoadX509KeyPair\<close>.\<close>

definition LoadClientConfig ::
    "crypto \<Rightarrow> int \<Rightarrow> (string \<Rightarrow> string \<Rightarrow> TLSCertificate res) \<Rightarrow> program \<Rightarrow> (string \<Rightarrow> adapter) \<Rightarrow>
     (Endpoint \<Rightarrow> 'h conn res) \<Rightarrow> (Endpoint \<Rightarrow> 'h conn res) \<Rightarrow> (string \<Rightarrow> bytes res) \<Rightarrow> string \<Rightarrow> string \<Rightarrow>
     'h Client res" where
  "LoadClientConfig k now keyPair run proxy dialTCP dialProxy file cwd path =
     (case loadRegistryConfig file cwd path of
        Inl e \<Rightarrow> Inl e
      | Inr (config, directory) \<Rightarrow>
          (case registryFromConfig run proxy config directory of
             Inl e \<Rightarrow> Inl e
           | Inr registry \<Rightarrow>
               (let client = NewClient dialTCP dialProxy (Some registry);
                    resolve = (\<lambda>p. if IsAbs p then p else Join [directory, p])
                in case rf_ClientIdentity config of
                     None \<Rightarrow> Inr client
                   | Some i \<Rightarrow>
                       (case keyPair (resolve (ci_Certificate i)) (resolve (ci_PrivateKey i)) of
                          Inl e \<Rightarrow> Inl (Errorf ''could not load client certificate/private key'')
                        | Inr identity \<Rightarrow>
                            (case ValidateClientIdentity k now identity of
                               Inl e \<Rightarrow> Inl (Wrapf ''invalid client identity'' e)
                             | Inr _ \<Rightarrow> Inr (client\<lparr>cl_Identity := Some identity\<rparr>))))))"

subsection \<open>Resolver programs: exact behaviour\<close>

lemma copy_output_iff:
  assumes "length (lb_buffer b) \<le> lb_limit b"
  shows "copy_output ps b = (None, b') \<longleftrightarrow>
     length (lb_buffer b @ concat ps) \<le> lb_limit b \<and> b' = b\<lparr>lb_buffer := lb_buffer b @ concat ps\<rparr>"
  using assms
proof (induction ps b rule: copy_output.induct)
  case (2 p ps b)
  show ?case
  proof (cases "length (lb_buffer b) + length p \<le> lb_limit b")
    case True
    then have w: "limitedBuffer_Write p b = ((length p, None), b\<lparr>lb_buffer := lb_buffer b @ p\<rparr>)"
      by (simp add: limitedBuffer_Write_def)
    with 2(1) [OF w [symmetric] refl refl] True show ?thesis by simp
  qed (auto simp: limitedBuffer_Write_def)
qed auto

lemma Command_Run_iff:
  "Command_Run run name args dir input (new_limited m) (new_limited k) = (None, b) \<longleftrightarrow>
     (\<exists>out diag. run name args dir input = (out, diag, None) \<and> length (concat out) \<le> m \<and>
        length (concat diag) \<le> k \<and> b = (new_limited m)\<lparr>lb_buffer := concat out\<rparr>)"
proof -
  have c: "copy_output ps (new_limited j) = (None, b) \<longleftrightarrow>
      length (concat ps) \<le> j \<and> b = (new_limited j)\<lparr>lb_buffer := concat ps\<rparr>" for ps j b
    using copy_output_iff [of "new_limited j" ps b] by (simp add: new_limited_def)
  obtain out diag ended where r: "run name args dir input = (out, diag, ended)" by (cases "run name args dir input")
  obtain e1 b1 where o: "copy_output out (new_limited m) = (e1, b1)" by (cases "copy_output out (new_limited m)")
  obtain e2 b2 where d: "copy_output diag (new_limited k) = (e2, b2)" by (cases "copy_output diag (new_limited k)")
  have "e2 = None \<longleftrightarrow> length (concat diag) \<le> k" using c [of diag k b2] c [of diag k "new_limited k\<lparr>lb_buffer := concat diag\<rparr>"] d by auto
  moreover have "e1 = None \<and> b1 = b \<longleftrightarrow> length (concat out) \<le> m \<and> b = (new_limited m)\<lparr>lb_buffer := concat out\<rparr>"
    using c [of out m b] o by simp
  ultimately show ?thesis by (cases ended; cases e1) (auto simp: Command_Run_def r o d)
qed

lemma ExecAdapter_Resolve_iff:
  "ExecAdapter_Resolve run a ctx authority = (Inr endpoint, ctx') \<longleftrightarrow>
     ctx' = ctx \<and> ValidateAuthority authority = Inr () \<and> 0 \<le> ea_Timeout a \<and>
     (\<exists>name args out diag. ea_Command a = name # args \<and> TrimSpace name \<noteq> [] \<and>
        run (command_name (ea_workDir a) name) args (ea_workDir a) (resolver_request authority) = (out, diag, None) \<and>
        length (concat out) \<le> maxAdapterOutput \<and> length (concat diag) \<le> 4096 \<and>
        DecodeConfigJSON endpoint_shape endpoint_table no_endpoint (concat out) = Inr endpoint \<and>
        ValidateEndpoint endpoint = Inr ())" (is "?l \<longleftrightarrow> ?r")
proof
  assume ?l
  then obtain name args out where v: "ValidateAuthority authority = Inr ()" "ea_Command a = name # args"
      "TrimSpace name \<noteq> []" "0 \<le> ea_Timeout a" "ctx' = ctx" "ValidateEndpoint endpoint = Inr ()"
    and d: "DecodeConfigJSON endpoint_shape endpoint_table no_endpoint (lb_buffer out) = Inr endpoint"
    and r: "Command_Run run (command_name (ea_workDir a) name) args (ea_workDir a)
       (resolver_request authority) (new_limited maxAdapterOutput) (new_limited 4096) = (None, out)"
    unfolding ExecAdapter_Resolve_def
    by (auto simp: not_less split: sum.splits list.splits if_splits prod.splits option.splits)
  from r d v show ?r unfolding Command_Run_iff by auto
next
  assume ?r
  then obtain name args out diag where v: "ValidateAuthority authority = Inr ()" "ea_Command a = name # args"
      "TrimSpace name \<noteq> []" "0 \<le> ea_Timeout a" "ctx' = ctx" "ValidateEndpoint endpoint = Inr ()"
    and r: "run (command_name (ea_workDir a) name) args (ea_workDir a) (resolver_request authority) = (out, diag, None)"
      "length (concat out) \<le> maxAdapterOutput" "length (concat diag) \<le> 4096"
    and d: "DecodeConfigJSON endpoint_shape endpoint_table no_endpoint (concat out) = Inr endpoint" by blast
  from r have "Command_Run run (command_name (ea_workDir a) name) args (ea_workDir a)
       (resolver_request authority) (new_limited maxAdapterOutput) (new_limited 4096) =
       (None, (new_limited maxAdapterOutput)\<lparr>lb_buffer := concat out\<rparr>)" unfolding Command_Run_iff by blast
  with v d show ?l unfolding ExecAdapter_Resolve_def by (simp add: new_limited_def)
qed

interpretation exec: resolver "ExecAdapter_Resolve run a" for run a
  by unfold_locales (auto simp: ExecAdapter_Resolve_iff is_ok_unit)

definition endpoint_good :: "Endpoint \<Rightarrow> bool" where
  "endpoint_good e \<longleftrightarrow> utf8_valid (ep_Address e) \<and> utf8_valid (ep_PinSHA256 e) \<and> utf8_valid (ep_Transport e)"

interpretation endpoint: config_struct endpoint_shape endpoint_table no_endpoint endpoint_members endpoint_good
  by unfold_locales
    (auto simp: endpoint_good_def endpoint_members_def endpoint_table_def endpoint_shape_def no_endpoint_def
      omitempty_def config_tree_Object conforms_kinds find_field_exact utf8_literal)

lemma ValidateEndpoint_ascii:
  assumes "ValidateEndpoint e = Inr ()"
  shows "length (ep_Address e) \<le> 1024" "length (ep_PinSHA256 e) = 64" "length (ep_Transport e) \<le> 32" "endpoint_good e"
proof -
  from assms have a: "length (ep_Address e) \<le> 1024" "\<forall>c\<in>set (ep_Address e). ord c < 127"
    and p: "length (ep_PinSHA256 e) = 64" "DecodeString (ep_PinSHA256 e) \<noteq> None"
    and t: "ep_Transport e = [] \<or> validTransportName (ep_Transport e)"
    by (auto simp: ValidateEndpoint_def res_simps list_ex_iff not_le not_less split: if_splits sum.splits)
  have t': "length (ep_Transport e) \<le> 32 \<and> (\<forall>c\<in>set (ep_Transport e). ord c < 128)"
  proof (cases "ep_Transport e")
    case (Cons c cs)
    with t show ?thesis by (auto simp: validTransportName_def list_all_iff isLowerAlnum_def split: if_splits)
  qed simp
  have "\<forall>c\<in>set (ep_PinSHA256 e). ord c < 128"
    using p(2) DecodeString_Some_iff [of "ep_PinSHA256 e"] by (auto simp: hex_val_def split: if_splits)
  then have "utf8_valid (ep_PinSHA256 e)" by (rule utf8_valid_ascii)
  then show "length (ep_Address e) \<le> 1024" "length (ep_PinSHA256 e) = 64" "length (ep_Transport e) \<le> 32" "endpoint_good e"
    using a p t' by (auto simp: endpoint_good_def intro!: utf8_valid_ascii)
qed

lemma endpoint_print_length:
  assumes "ValidateEndpoint e = Inr ()"
  shows "length (json_print (JObject (endpoint_members e))) \<le> maxAdapterOutput"
proof -
  note v = ValidateEndpoint_ascii [OF assms]
  have "length (escape_body (ep_Address e)) \<le> 6144" "length (escape_body (ep_PinSHA256 e)) \<le> 384"
    "length (escape_body (ep_Transport e)) \<le> 192"
    using v escape_body_length [of "ep_Address e"] escape_body_length [of "ep_PinSHA256 e"]
      escape_body_length [of "ep_Transport e"] by linarith+
  then show ?thesis
    by (simp add: endpoint_members_def omitempty_def json_quote_def escape_body_plain maxAdapterOutput_def)
qed

text \<open>
  A resolver program answers for an authority by writing one endpoint object: when it
  ends without an error and its output, in whatever pieces, is the JSON of a valid endpoint,
  the adapter returns exactly that endpoint; and whatever endpoint the adapter returns is
  valid and was decoded from at most 64 KiB of output.
\<close>

theorem exec_resolver:
  assumes "ea_Command a = name # args" "TrimSpace name \<noteq> []" "0 \<le> ea_Timeout a"
    "ValidateAuthority authority = Inr ()" "ValidateEndpoint endpoint = Inr ()"
    "run (command_name (ea_workDir a) name) args (ea_workDir a) (resolver_request authority) = (out, diag, None)"
    "length (concat diag) \<le> 4096"
  shows "(concat out = json_print (JObject (endpoint_members endpoint)) \<longrightarrow>
       ExecAdapter_Resolve run a ctx authority = (Inr endpoint, ctx)) \<and>
     (\<forall>e ctx'. ExecAdapter_Resolve run a ctx authority = (Inr e, ctx') \<longrightarrow>
        ValidateEndpoint e = Inr () \<and> length (concat out) \<le> 65536 \<and>
        DecodeConfigJSON endpoint_shape endpoint_table no_endpoint (concat out) = Inr e)"
proof -
  note v = endpoint_print_length [OF assms(5)]
  then have "length (json_print (JObject (endpoint_members endpoint))) \<le> 1024 * 1024"
    by (simp add: maxAdapterOutput_def del: json_print.simps)
  note endpoint.decode_print [OF ValidateEndpoint_ascii(4) [OF assms(5)] this]
  with v show ?thesis
    unfolding ExecAdapter_Resolve_iff using assms by (auto simp: maxAdapterOutput_def simp del: json_print.simps)
qed

subsection \<open>What a configuration configures\<close>

lemma check_endpoints_iff:
  "check_endpoints network es = Inr () \<longleftrightarrow>
     (\<forall>(authority, e) \<in> set es. ValidateAuthority authority = Inr () \<and> HasSuffix authority (CHR ''.'' # network) \<and>
        ValidateEndpoint e = Inr ())"
  by (induction network es rule: check_endpoints.induct) (auto simp: is_ok_unit split: sum.splits)

lemma fresh_key:
  "(\<forall>x\<in>S. case x of (m, c) \<Rightarrow> P m \<and> (f(n \<mapsto> a)) m = None \<and> Q m c) \<longleftrightarrow>
     n \<notin> fst ` S \<and> (\<forall>x\<in>S. case x of (m, c) \<Rightarrow> P m \<and> f m = None \<and> Q m c)" (is "?l \<longleftrightarrow> ?r")
proof
  assume l: ?l
  then have "m \<noteq> n" if "(m, c) \<in> S" for m c using that by (auto split: if_splits)
  with l show ?r by (auto simp: split_beta)
next
  assume r: ?r
  have "m \<noteq> n" if "(m, c) \<in> S" for m c using r that by (auto intro: rev_image_eqI)
  with r show ?l by (auto simp: split_beta)
qed

lemma add_networks_iff:
  "add_networks run directory ns registry = Inr registry' \<longleftrightarrow>
     distinct (map fst ns) \<and>
     (\<forall>(n, c) \<in> set ns. validLabel n \<and> rg_networks registry n = None \<and> is_ok (network_adapter run directory n c)) \<and>
     registry' = registry\<lparr>rg_networks := (\<lambda>n. case map_of ns n of
        Some c \<Rightarrow> (case network_adapter run directory n c of Inr a \<Rightarrow> Some a | Inl e \<Rightarrow> None)
      | None \<Rightarrow> rg_networks registry n)\<rparr>"
proof (induction ns arbitrary: registry)
  case (Cons p ns)
  obtain n c where p: "p = (n, c)" by (cases p)
  show ?case
  proof (cases "network_adapter run directory n c")
    case (Inr a)
    show ?thesis
    proof (cases "validLabel n \<and> rg_networks registry n = None")
      case True
      let ?r = "registry\<lparr>rg_networks := (rg_networks registry)(n \<mapsto> a)\<rparr>"
      have r: "Register n (Some a) registry = (Inr (), ?r)" using True by (simp add: Register_def)
      have "add_networks run directory (p # ns) registry = Inr registry' \<longleftrightarrow>
          add_networks run directory ns ?r = Inr registry'" by (simp add: p Inr r)
      also have "\<dots> \<longleftrightarrow> n \<notin> fst ` set ns \<and> distinct (map fst ns) \<and>
          (\<forall>(n, c) \<in> set ns. validLabel n \<and> rg_networks registry n = None \<and> is_ok (network_adapter run directory n c)) \<and>
          registry' = ?r\<lparr>rg_networks := (\<lambda>n. case map_of ns n of
            Some c \<Rightarrow> (case network_adapter run directory n c of Inr a \<Rightarrow> Some a | Inl e \<Rightarrow> None)
          | None \<Rightarrow> rg_networks ?r n)\<rparr>"
      proof -
        have "(\<forall>x\<in>set ns. case x of (m, c) \<Rightarrow> validLabel m \<and> rg_networks ?r m = None \<and> is_ok (network_adapter run directory m c)) \<longleftrightarrow>
            n \<notin> fst ` set ns \<and>
            (\<forall>x\<in>set ns. case x of (m, c) \<Rightarrow> validLabel m \<and> rg_networks registry m = None \<and> is_ok (network_adapter run directory m c))"
          using fresh_key [of "set ns" validLabel "rg_networks registry" n a "\<lambda>m c. is_ok (network_adapter run directory m c)"]
          by simp
        then show ?thesis unfolding Cons.IH by blast
      qed
      also have "\<dots> \<longleftrightarrow> distinct (map fst (p # ns)) \<and>
          (\<forall>(n, c) \<in> set (p # ns). validLabel n \<and> rg_networks registry n = None \<and> is_ok (network_adapter run directory n c)) \<and>
          registry' = registry\<lparr>rg_networks := (\<lambda>n. case map_of (p # ns) n of
            Some c \<Rightarrow> (case network_adapter run directory n c of Inr a \<Rightarrow> Some a | Inl e \<Rightarrow> None)
          | None \<Rightarrow> rg_networks registry n)\<rparr>"
      proof -
        have "n \<notin> fst ` set ns \<Longrightarrow> (\<lambda>m. case map_of ns m of
            Some c \<Rightarrow> (case network_adapter run directory m c of Inr a \<Rightarrow> Some a | Inl e \<Rightarrow> None)
          | None \<Rightarrow> rg_networks ?r m) = (\<lambda>m. case map_of (p # ns) m of
            Some c \<Rightarrow> (case network_adapter run directory m c of Inr a \<Rightarrow> Some a | Inl e \<Rightarrow> None)
          | None \<Rightarrow> rg_networks registry m)"
          using map_of_eq_None_iff [of ns n] by (auto simp: p Inr fun_eq_iff split: option.split)
        then show ?thesis using True by (auto simp: p Inr)
      qed
      finally show ?thesis .
    qed (auto simp: p Inr Register_def)
  qed (simp add: p)
qed auto

text \<open>Decoded maps have distinct keys, because documents with repeated keys are refused.\<close>

lemma find_field_in: "find_field tbl k = Some f \<Longrightarrow> \<exists>n. (n, f) \<in> set tbl"
proof (cases "map_of tbl k")
  case None
  moreover assume "find_field tbl k = Some f"
  ultimately obtain m where "List.find (\<lambda>(n, f). EqualFold n k) tbl = Some m" "f = snd m"
    by (auto simp: find_field_def)
  then have "m \<in> set tbl" "f = snd m" by (auto simp: find_Some_iff simp del: split_paired_Ex) (metis nth_mem)
  then show ?thesis by (intro exI [of _ "fst m"]) simp
qed (auto simp: find_field_def dest: map_of_SomeD)

lemma decode_members_inv:
  assumes "decode_members tbl ms x = Some y" "I x"
    and "\<And>m. m \<in> set ms \<Longrightarrow> config_tree (snd m) k"
    and step: "\<And>n f v x y. (n, f) \<in> set tbl \<Longrightarrow> config_tree v k \<Longrightarrow> f v x = Some y \<Longrightarrow> I x \<Longrightarrow> I y"
  shows "I y"
  using assms(1-3)
proof (induction ms arbitrary: x)
  case (Cons m ms)
  from Cons.prems(1) obtain f z where f: "find_field tbl (fst m) = Some f" "f (snd m) x = Some z"
    "decode_members tbl ms z = Some y" by (cases m) (auto split: option.splits)
  from find_field_in [OF f(1)] obtain n where "(n, f) \<in> set tbl" by blast
  from step [OF this Cons.prems(3) f(2) Cons.prems(2)] have "I z" by simp
  with Cons.IH [OF f(3)] Cons.prems(3) show ?case by simp
qed simp

lemma decode_entries_keys:
  assumes "decode_entries f ms = Some es"
  shows "map fst es = map fst ms" "\<And>k e. (k, e) \<in> set es \<Longrightarrow> \<exists>v. (k, v) \<in> set ms \<and> f v = Some e"
  using assms by (induction f ms arbitrary: es rule: decode_entries.induct) (fastforce split: option.splits)+

definition network_keys :: "networkFile \<Rightarrow> bool" where
  "network_keys c \<longleftrightarrow> (\<forall>es. nf_Endpoints c = Some es \<longrightarrow> distinct (map fst es))"

definition registry_keys :: "registryFile \<Rightarrow> bool" where
  "registry_keys r \<longleftrightarrow> (\<forall>ns. rf_Networks r = Some ns \<longrightarrow>
     distinct (map fst ns) \<and> (\<forall>n\<in>set ns. network_keys (snd n)))"

lemma network_keys_decode:
  assumes "decode_struct network_table v network_zero = Some c" "config_tree v k"
  shows "network_keys c"
proof -
  from assms obtain ms where m: "decode_members network_table ms network_zero = Some c"
    "\<And>m. m \<in> set ms \<Longrightarrow> config_tree (snd m) (Suc k)"
    by (cases v) (auto simp: decode_struct_def config_tree_Object)
  show ?thesis
    by (rule decode_members_inv [OF m(1) _ m(2)])
      (auto simp: network_keys_def network_zero_def network_table_def set_string_def set_map_def set_slice_def
        config_tree_Object decode_entries_keys(1) split: jvalue.splits)
qed

lemma registry_keys_decode:
  assumes "decode_struct registryFile_table v registryFile_zero = Some r" "config_tree v k"
  shows "registry_keys r"
proof -
  from assms obtain ms where m: "decode_members registryFile_table ms registryFile_zero = Some r"
    "\<And>m. m \<in> set ms \<Longrightarrow> config_tree (snd m) (Suc k)"
    by (cases v) (auto simp: decode_struct_def config_tree_Object)
  have n: "registry_keys y" if "set_map (\<lambda>v. decode_struct network_table v network_zero)
      (\<lambda>ns r. r\<lparr>rf_Networks := ns\<rparr>) w x = Some y" "config_tree w (Suc k)" for w x y
  proof -
    from that obtain ms ns where w: "w = JObject ms" "y = x\<lparr>rf_Networks := Some ns\<rparr>"
      "decode_entries (\<lambda>v. decode_struct network_table v network_zero) ms = Some ns"
      by (auto simp: set_map_def split: jvalue.splits)
    note keys = decode_entries_keys [OF w(3)]
    have "network_keys (snd n)" if n: "n \<in> set ns" for n
    proof -
      from n keys(2) [of "fst n" "snd n"] obtain u where u: "(fst n, u) \<in> set ms"
        "decode_struct network_table u network_zero = Some (snd n)" by auto
      have "config_tree u (Suc (Suc k))" using \<open>config_tree w (Suc k)\<close> u(1) w(1) by (auto simp: config_tree_Object)
      with u(2) show ?thesis by (rule network_keys_decode)
    qed
    then show ?thesis using \<open>config_tree w (Suc k)\<close> w keys(1) by (simp add: registry_keys_def config_tree_Object)
  qed
  show ?thesis
  proof (rule decode_members_inv [OF m(1) _ m(2)])
    fix n f w x y
    assume f: "(n, f) \<in> set registryFile_table" "config_tree w (Suc k)" "f w x = Some y" "registry_keys x"
    have "rf_Networks y = rf_Networks x \<or> registry_keys y"
      using f(1-3) n [of w x y] by (auto simp: registryFile_table_def set_int_def set_ptr_def split: jvalue.splits)
    with f(4) show "registry_keys y" by (auto simp only: registry_keys_def)
  qed (simp add: registry_keys_def registryFile_zero_def)
qed

lemma loadRegistryConfig_keys:
  "loadRegistryConfig file cwd path = Inr (config, directory) \<Longrightarrow> registry_keys config"
  by (auto simp: loadRegistryConfig_def Let_def DecodeConfigJSON_iff split: sum.splits if_splits option.splits
      dest: registry_keys_decode)

text \<open>
  Property C17: A loaded configuration without a proxy resolves each static network exactly as its
  file says: for the authorities of that network the registry answers with an endpoint if
  and only if the file lists it for that authority, and every authority listed under a
  network belongs to it.
\<close>

theorem configured_static:
  assumes "loadRegistryConfig file cwd path = Inr (config, directory)"
    "LoadRegistry run proxy file cwd path = Inr registry" "rf_Proxy config = None"
    "rf_Networks config = Some ns" "(network, c) \<in> set ns" "nf_Adapter c = ''static''" "nf_Endpoints c = Some es"
  shows "(\<forall>authority e. network_of authority = network \<longrightarrow>
       (Resolve registry [] authority = (Inr e, []) \<longleftrightarrow> (authority, e) \<in> set es)) \<and>
     (\<forall>(authority, e) \<in> set es. network_of authority = network)"
proof -
  from loadRegistryConfig_keys [OF assms(1)] assms(4,5,7) have d: "distinct (map fst ns)" "distinct (map fst es)"
    by (auto simp: registry_keys_def network_keys_def)
  from assms(1-4) have "add_networks run directory ns NewRegistry = Inr registry"
    by (auto simp: LoadRegistry_def registryFromConfig_def split: sum.splits)
  note reg = this [unfolded add_networks_iff]
  from reg assms(5) have n: "validLabel network" "is_ok (network_adapter run directory network c)" by auto
  from n(2) assms(6,7) have a: "network_adapter run directory network c = Inr (StaticAdapter_Resolve (map_of es))"
    and es: "check_endpoints network es = Inr ()"
    by (auto simp: network_adapter_def is_ok_def split: option.splits sum.splits)
  have dot: "CHR ''.'' \<notin> set network" using n(1) by (auto simp: validLabel_def isLowerAlnum_def list_all_iff)
  have "map_of ns network = Some c" using d(1) assms(5) by simp
  with reg a have f: "adapter_for registry authority = Some (StaticAdapter_Resolve (map_of es))"
    if "network_of authority = network" for authority
    using that by (simp add: adapter_for_def NewRegistry_def)
  show ?thesis
  proof (intro conjI allI impI ballI)
    fix authority e assume "network_of authority = network"
    note f [OF this]
    moreover have "ValidateAuthority authority = Inr () \<and> ValidateEndpoint e = Inr ()" if "(authority, e) \<in> set es"
      using es that by (auto simp: check_endpoints_iff)
    moreover have "(authority, e) \<in> set es \<longleftrightarrow> map_of es authority = Some e" using d(2) by simp
    ultimately show "Resolve registry [] authority = (Inr e, []) \<longleftrightarrow> (authority, e) \<in> set es"
      by (auto simp: Resolve_def StaticAdapter_Resolve_def Err_def split: sum.splits option.splits)
  next
    fix x assume "x \<in> set es"
    with es obtain p where "fst x = p @ CHR ''.'' # network"
      by (auto simp: check_endpoints_iff HasSuffix_iff)
    with network_of_authority [OF dot, of p] show "case x of (authority, e) \<Rightarrow> network_of authority = network"
      by (auto simp: split_beta)
  qed
qed

definition sample_config :: "(bytes \<times> jvalue) list" where
  "sample_config =
     [(''version'', JNumber (Itoa 2)),
      (''networks'', JObject [(''alpha'', JObject [(''adapter'', JString ''static''),
         (''endpoints'', JObject [(''n.alpha'', JObject (endpoint_members sample_endpoint))])])])]"

definition sample_registryFile :: registryFile where
  "sample_registryFile = registryFile_zero\<lparr>rf_Version := 2,
     rf_Networks := Some [(''alpha'', \<lparr>nf_Adapter = ''static'', nf_Endpoints = Some [(''n.alpha'', sample_endpoint)],
       nf_Command = None\<rparr>)]\<rparr>"

lemma sample_endpoint_json:
  "endpoint_good sample_endpoint" "conforms (JObject (endpoint_members sample_endpoint)) endpoint_shape"
  "decode_struct endpoint_table (JObject (endpoint_members sample_endpoint)) no_endpoint = Some sample_endpoint"
  "jwf (JObject (endpoint_members sample_endpoint))"
  "config_tree (JObject (endpoint_members sample_endpoint)) 4"
proof -
  show g: "endpoint_good sample_endpoint" by (rule ValidateEndpoint_ascii(4) [OF sample_endpoint_ok])
  show "conforms (JObject (endpoint_members sample_endpoint)) endpoint_shape" by (rule endpoint.shape [OF g])
  show "decode_struct endpoint_table (JObject (endpoint_members sample_endpoint)) no_endpoint = Some sample_endpoint"
    by (simp add: decode_struct_def endpoint.decode [OF g])
  show "jwf (JObject (endpoint_members sample_endpoint))" by (rule endpoint.wf [OF g])
  show "config_tree (JObject (endpoint_members sample_endpoint)) 4"
    by (auto simp: config_tree_Object endpoint_members_def omitempty_def)
qed

lemma sample_config_decodes:
  "DecodeConfigJSON registryFile_shape registryFile_table registryFile_zero (json_print (JObject sample_config)) =
     Inr sample_registryFile"
  "length (json_print (JObject sample_config)) \<le> 1024 * 1024"
proof -
  note e = sample_endpoint_json
  show l: "length (json_print (JObject sample_config)) \<le> 1024 * 1024"
  proof -
    have "length (json_print (JObject (endpoint_members sample_endpoint))) \<le> 65536"
      using endpoint_print_length [OF sample_endpoint_ok] by (simp add: maxAdapterOutput_def del: json_print.simps)
    moreover have "length (Itoa 2) \<le> 20" by (rule Itoa_length) (simp add: int64_ok_def)
    ultimately show ?thesis
      by (simp add: sample_config_def json_quote_def escape_body_plain)
  qed
  have s: "decode_struct network_table (JObject [(''adapter'', JString ''static''),
         (''endpoints'', JObject [(''n.alpha'', JObject (endpoint_members sample_endpoint))])]) network_zero =
      Some \<lparr>nf_Adapter = ''static'', nf_Endpoints = Some [(''n.alpha'', sample_endpoint)], nf_Command = None\<rparr>"
    by (subst decode_struct_def) (simp add: network_table_def find_field_exact set_string_def set_map_def e(3) network_zero_def)
  show "DecodeConfigJSON registryFile_shape registryFile_table registryFile_zero (json_print (JObject sample_config)) =
     Inr sample_registryFile"
  proof (rule DecodeConfigJSON_print [OF _ _ _ _ l])
    show "config_tree (JObject sample_config) 0" using e(5)
      by (simp add: sample_config_def config_tree_Object numeral_eq_Suc)
    show "jwf (JObject sample_config)" using e(4) by (auto simp: sample_config_def)
    show "conforms (JObject sample_config) registryFile_shape"
      using e(2) by (auto simp: sample_config_def registryFile_shape_def network_shape_def conforms_kinds(1,2,4))
    show "decode_members registryFile_table sample_config registryFile_zero = Some sample_registryFile"
      by (simp add: sample_config_def registryFile_table_def find_field_exact set_int_def set_map_def s
          sample_registryFile_def registryFile_zero_def ParseInt10_Itoa)
  qed
qed

theorem configured_static_witness:
  "\<exists>registry. LoadRegistry (\<lambda>_ _ _ _. ([], [], None)) (\<lambda>_ ctx _. (Inl EOF, ctx))
     (\<lambda>_. Inr (json_print (JObject sample_config))) ''/'' ''/etc/deep.json'' = Inr registry \<and>
     Resolve registry [] ''n.alpha'' = (Inr sample_endpoint, []) \<and>
     Resolve registry [] ''m.alpha'' \<noteq> (Inr sample_endpoint, [])"
proof -
  define data where "data = json_print (JObject sample_config)"
  define disk where "disk = (\<lambda>_ :: string. Inr data :: bytes res)"
  define run :: program where "run = (\<lambda>_ _ _ _. ([], [], None))"
  define proxy where "proxy = (\<lambda>(_ :: string) (ctx :: ctx) (_ :: string). (Inl EOF :: Endpoint res, ctx))"
  note c = sample_config_decodes [folded data_def]
  have l: "loadRegistryConfig disk ''/'' ''/etc/deep.json'' = Inr (sample_registryFile, Dir (Abs ''/'' ''/etc/deep.json''))"
    using c by (simp add: loadRegistryConfig_def disk_def Let_def sample_registryFile_def registryFile_zero_def ProtocolVersion_def)
  have h: "HasSuffix ''n.alpha'' ''.alpha''" by (simp add: HasSuffix_def HasPrefix_def)
  obtain registry where r: "LoadRegistry run proxy disk ''/'' ''/etc/deep.json'' = Inr registry"
    by (simp add: LoadRegistry_def l registryFromConfig_def sample_registryFile_def registryFile_zero_def
        network_adapter_def sample_authority is_ok_unit h sample_endpoint_ok Register_def NewRegistry_def validLabel_def isLowerAlnum_def)
  have n: "network_of ''n.alpha'' = ''alpha''" "network_of ''m.alpha'' = ''alpha''"
    using network_of_authority [of "''alpha''" "''n''"] network_of_authority [of "''alpha''" "''m''"] by simp_all
  note spec = configured_static [OF l r, of "[(''alpha'', \<lparr>nf_Adapter = ''static'',
      nf_Endpoints = Some [(''n.alpha'', sample_endpoint)], nf_Command = None\<rparr>)]" "''alpha''"
      "\<lparr>nf_Adapter = ''static'', nf_Endpoints = Some [(''n.alpha'', sample_endpoint)], nf_Command = None\<rparr>"
      "[(''n.alpha'', sample_endpoint)]"]
  have "Resolve registry [] ''n.alpha'' = (Inr sample_endpoint, [])" "Resolve registry [] ''m.alpha'' \<noteq> (Inr sample_endpoint, [])"
    using spec n by (simp_all add: sample_registryFile_def registryFile_zero_def)
  with r show ?thesis unfolding run_def proxy_def disk_def data_def by blast
qed

text \<open>
  The registry does not depend on the order in which Go visits the map of networks:
  for every two listings of the same networks, either both give the same registry or both
  are refused.
\<close>

theorem registry_order:
  assumes "rf_Networks config = Some ns" "distinct (map fst ns)" "distinct (map fst ns')" "set ns' = set ns"
  shows "registryFromConfig run proxy config directory = Inr registry \<longleftrightarrow>
     registryFromConfig run proxy (config\<lparr>rf_Networks := Some ns'\<rparr>) directory = Inr registry"
proof -
  have "map_of ns' = map_of ns"
    by (rule map_of_inject_set [THEN iffD2]) (use assms in auto)
  then have "add_networks run directory ns' NewRegistry = Inr r \<longleftrightarrow> add_networks run directory ns NewRegistry = Inr r" for r
    unfolding add_networks_iff using assms by simp
  then show ?thesis
    unfolding registryFromConfig_def using assms(1)
    by (auto simp: res_simps split: sum.splits)
qed

end
