(* ===== verification/Files.thy ===== *)
theory Files
  imports Paths Serving Adapters
begin

text \<open>
  \<open>FileHandler\<close> of \<open>src/resources.go\<close>: the provider that serves a directory. The directory
  (\<open>os.Root\<close>) may change while a request is served: each operation on it sees the snapshot
  of its own moment.
\<close>

subsection \<open>The directory\<close>

text \<open>\<open>fi_File\<close> is what \<open>os.SameFile\<close> compares.\<close>

record FileInfo =
  fi_Symlink :: bool
  fi_Dir :: bool
  fi_Regular :: bool
  fi_Size :: int
  fi_File :: nat

text \<open>
  What a snapshot answers for a name relative to the root: \<open>Lstat\<close>, and for \<open>OpenFile\<close> the
  answer of \<open>Stat\<close> on the opened file with its contents.
\<close>

record snapshot =
  sn_Lstat :: "string \<Rightarrow> FileInfo res"
  sn_Open :: "string \<Rightarrow> (FileInfo res \<times> reader) res"

type_synonym directory = "nat \<Rightarrow> snapshot"

record fs_state =
  fs_ctx :: ctx
  fs_time :: nat

definition fs_Err :: "fs_state \<Rightarrow> check \<times> fs_state" where
  "fs_Err st = (case Err (fs_ctx st) of (r, ctx) \<Rightarrow> (r, st\<lparr>fs_ctx := ctx\<rparr>))"

definition Lstat :: "directory \<Rightarrow> string \<Rightarrow> fs_state \<Rightarrow> FileInfo res \<times> fs_state" where
  "Lstat root name st = (sn_Lstat (root (fs_time st)) name, st\<lparr>fs_time := Suc (fs_time st)\<rparr>)"

definition openResourceFile :: "directory \<Rightarrow> string \<Rightarrow> fs_state \<Rightarrow> (FileInfo res \<times> reader) res \<times> fs_state" where
  "openResourceFile root name st = (sn_Open (root (fs_time st)) name, st\<lparr>fs_time := Suc (fs_time st)\<rparr>)"

subsection \<open>url.PathUnescape\<close>

fun PathUnescape :: "string \<Rightarrow> string option" where
  "PathUnescape [] = Some []"
| "PathUnescape (c # cs) =
     (if c = CHR ''%'' then
        (case cs of
           a # b # rest \<Rightarrow>
             (case (hex_val a, hex_val b) of
                (Some x, Some y) \<Rightarrow> map_option (Cons (char_of (x * 16 + y))) (PathUnescape rest)
              | _ \<Rightarrow> None)
         | _ \<Rightarrow> None)
      else map_option (Cons c) (PathUnescape cs))"

lemma PathUnescape_append:
  "PathUnescape a = Some x \<Longrightarrow> PathUnescape (a @ b) = map_option ((@) x) (PathUnescape b)"
proof (induction a arbitrary: x rule: PathUnescape.induct)
  case 1
  then show ?case by (cases "PathUnescape b") auto
next
  case (2 c cs)
  show ?case
  proof (cases "c = CHR ''%''")
    case True
    with 2(3) obtain p q rest u v y where "cs = p # q # rest" "hex_val p = Some u" "hex_val q = Some v"
      "PathUnescape rest = Some y" "x = char_of (u * 16 + v) # y"
      by (auto split: list.splits option.splits)
    with 2(1) [OF True] True show ?thesis by (cases "PathUnescape b") auto
  next
    case False
    with 2(2,3) show ?thesis by (cases "PathUnescape b") auto
  qed
qed

lemma PathUnescape_plain: "CHR ''%'' \<notin> set s \<Longrightarrow> PathUnescape s = Some s"
  by (induction s) auto

subsection \<open>Opening a resource\<close>

definition unsafe_part :: "string \<Rightarrow> bool" where
  "unsafe_part p \<longleftrightarrow> p = [] \<or> HasPrefix p ''.'' \<or> HasSuffix p ''.'' \<or> HasSuffix p '' '' \<or>
     ContainsAny p [CHR 0x5C, CHR '':'', CHR ''*'', CHR ''?'', CHR 0x22, CHR ''<'', CHR ''>'', CHR ''|'', CHR 0x00] \<or>
     list_ex (\<lambda>(c, _). c < 32 \<or> c = 127) (runes p)"

definition not_found :: "string \<Rightarrow> err" where
  "not_found message = Remote ''NOT_FOUND'' message"

text \<open>Every component in turn: no symbolic links, and directories down to the last one.\<close>

fun walk :: "directory \<Rightarrow> string list \<Rightarrow> string list \<Rightarrow> FileInfo option \<Rightarrow> fs_state \<Rightarrow>
    FileInfo option res \<times> fs_state" where
  "walk root pre [] before st = (Inr before, st)"
| "walk root pre (c # cs) before st =
     (case fs_Err st of
        (Inl e, st1) \<Rightarrow> (Inl e, st1)
      | (Inr _, st1) \<Rightarrow>
          (case Lstat root (Join (pre @ [c])) st1 of
             (Inl e, st2) \<Rightarrow> (Inl (not_found ''resource is unavailable''), st2)
           | (Inr info, st2) \<Rightarrow>
               if fi_Symlink info then (Inl (not_found ''resource is unavailable''), st2)
               else if cs \<noteq> [] \<and> \<not> fi_Dir info then (Inl (not_found ''resource is unavailable''), st2)
               else walk root (pre @ [c]) cs (Some info) st2))"

definition media_types :: "(string \<times> string) list" where
  "media_types =
     [(''.html'', ''text/html; charset=utf-8''), (''.htm'', ''text/html; charset=utf-8''),
      (''.css'', ''text/css; charset=utf-8''), (''.js'', ''text/javascript; charset=utf-8''),
      (''.mjs'', ''text/javascript; charset=utf-8''), (''.json'', ''application/json''),
      (''.svg'', ''image/svg+xml''), (''.ttf'', ''font/ttf''), (''.otf'', ''font/otf''), (''.woff'', ''font/woff''),
      (''.woff2'', ''font/woff2'')]"

text \<open>\<open>mime\<close> is \<open>mime.TypeByExtension\<close>, which reads the tables of the host.\<close>

definition media_type :: "(string \<Rightarrow> string) \<Rightarrow> string \<Rightarrow> string" where
  "media_type mime decoded =
     (case map_of media_types (ToLower (Ext decoded)) of
        Some t \<Rightarrow> t
      | None \<Rightarrow> if mime (Ext decoded) \<noteq> [] then mime (Ext decoded) else ''application/octet-stream'')"

text \<open>The rest of \<open>Open\<close> for a path that does not name a directory.\<close>

definition open_file :: "directory \<Rightarrow> (string \<Rightarrow> string) \<Rightarrow> string \<Rightarrow> fs_state \<Rightarrow> Resource res \<times> fs_state" where
  "open_file root mime decoded st =
     (let name = TrimPrefix decoded ''/''; components = Split name (CHR ''/'')
      in if list_ex unsafe_part components then (Inl (Remote ''BAD_RESOURCE'' ''unsafe resource path''), st)
         else case walk root [] components None st of
           (Inl e, st1) \<Rightarrow> (Inl e, st1)
         | (Inr None, st1) \<Rightarrow> (Inl (not_found ''resource is not a regular file''), st1)
         | (Inr (Some before), st1) \<Rightarrow>
             if \<not> fi_Regular before then (Inl (not_found ''resource is not a regular file''), st1)
             else (case openResourceFile root name st1 of
                 (Inl e, st2) \<Rightarrow> (Inl (not_found ''resource is unavailable''), st2)
               | (Inr (Inl e, body), st2) \<Rightarrow> (Inl (not_found ''resource is not a regular file''), st2)
               | (Inr (Inr info, body), st2) \<Rightarrow>
                   if \<not> fi_Regular info \<or> fi_File before \<noteq> fi_File info
                     then (Inl (not_found ''resource is not a regular file''), st2)
                   else if fi_Size info > MaxResourceSize
                     then (Inl (Remote ''TOO_LARGE'' ''resource exceeds the protocol limit''), st2)
                   else (case fs_Err st2 of
                       (Inl e, st3) \<Rightarrow> (Inl e, st3)
                     | (Inr _, st3) \<Rightarrow>
                         (Inr \<lparr>rs_Body = Some body, rs_MediaType = media_type mime decoded,
                               rs_Size = fi_Size info\<rparr>, st3))))"

definition names_directory :: "string \<Rightarrow> bool" where
  "names_directory path \<longleftrightarrow> (case PathUnescape path of None \<Rightarrow> False | Some d \<Rightarrow> HasSuffix d ''/'')"

lemma index_not_directory:
  "PathUnescape path = Some d \<Longrightarrow> \<not> names_directory (path @ ''index.html'')"
  "PathUnescape path = Some d \<Longrightarrow> \<not> names_directory (path @ ''index.txt'')"
  by (simp_all add: names_directory_def PathUnescape_append PathUnescape_plain HasSuffix_iff)

function FileHandler_Open ::
    "directory \<Rightarrow> (string \<Rightarrow> string) \<Rightarrow> string \<Rightarrow> string \<Rightarrow> fs_state \<Rightarrow> Resource res \<times> fs_state" where
  "FileHandler_Open root mime path query st =
     (case fs_Err st of
        (Inl e, st1) \<Rightarrow> (Inl e, st1)
      | (Inr _, st1) \<Rightarrow>
          if \<not> is_ok (ValidateResource path query)
            then (Inl (Remote ''BAD_RESOURCE'' ''invalid resource path''), st1)
          else (case PathUnescape path of
              None \<Rightarrow> (Inl (Remote ''BAD_RESOURCE'' ''invalid escaped path''), st1)
            | Some decoded \<Rightarrow>
                if \<not> utf8_valid decoded then (Inl (Remote ''BAD_RESOURCE'' ''invalid escaped path''), st1)
                else if HasSuffix decoded ''/'' then
                  (case FileHandler_Open root mime (path @ ''index.html'') query st1 of
                     (Inr resource, st2) \<Rightarrow> (Inr resource, st2)
                   | (Inl e, st2) \<Rightarrow>
                       (case errors_as_remote e of
                          Some (code, message) \<Rightarrow>
                            if code \<noteq> ''NOT_FOUND'' then (Inl e, st2)
                            else FileHandler_Open root mime (path @ ''index.txt'') query st2
                        | None \<Rightarrow> (Inl e, st2)))
                else open_file root mime decoded st1))"
  by pat_completeness auto

termination
  by (relation "measure (\<lambda>(root, mime, path, query, st). if names_directory path then 1 else 0)")
    (auto simp: index_not_directory, auto simp: names_directory_def)

declare FileHandler_Open.simps [simp del]

subsection \<open>Safe names\<close>

lemma Split_join:
  "ps \<noteq> [] \<Longrightarrow> \<forall>p\<in>set ps. d \<notin> set p \<Longrightarrow> Split (join d ps) d = ps"
  by (induction d ps rule: join.induct) (auto simp: Split_no_sep Split_append)

definition safe_part :: "string \<Rightarrow> bool" where
  "safe_part p \<longleftrightarrow> \<not> unsafe_part p \<and> CHR ''/'' \<notin> set p"

lemma safe_part_names: "safe_part p \<Longrightarrow> p \<noteq> [] \<and> p \<noteq> ''.'' \<and> p \<noteq> ''..'' \<and> hd p \<noteq> CHR ''.'' \<and> CHR ''/'' \<notin> set p"
  by (cases p) (auto simp: safe_part_def unsafe_part_def HasPrefix_def)

lemma clean_parts_safe: "\<forall>p\<in>set ps. safe_part p \<Longrightarrow> clean_parts rooted ps acc = rev acc @ ps"
proof (induction ps arbitrary: acc)
  case (Cons p ps)
  then show ?case using safe_part_names [of p] by simp
qed simp

lemma Join_safe:
  assumes "ps \<noteq> []" "\<forall>p\<in>set ps. safe_part p"
  shows "Join ps = join (CHR ''/'') ps"
proof -
  have f: "filter (\<lambda>e. e \<noteq> []) ps = ps" using assms(2) safe_part_names by (auto simp: filter_id_conv)
  have s: "Split (join (CHR ''/'') ps) (CHR ''/'') = ps"
    using assms safe_part_names by (intro Split_join) auto
  obtain c q qs where p: "ps = (c # q) # qs" "c \<noteq> CHR ''/''"
    using assms safe_part_names [of "hd ps"] by (cases ps; cases "hd ps") auto
  then have r: "\<not> IsAbs (join (CHR ''/'') ps)" by (cases qs) (simp_all add: IsAbs_def HasPrefix_def)
  have "path_parts (join (CHR ''/'') ps) = ps"
    using assms(2) by (simp add: path_parts_def s clean_parts_safe)
  with f r p show ?thesis by (simp add: Join_def Clean_def)
qed

lemma Split_safe:
  "\<not> list_ex unsafe_part (Split s (CHR ''/'')) \<longleftrightarrow> (\<forall>p\<in>set (Split s (CHR ''/'')). safe_part p)"
  using Split_parts_no_sep by (auto simp: list_ex_iff safe_part_def)

text \<open>What the walk saw of one component: no link, a directory unless it is the last one.\<close>

definition seen :: "directory \<Rightarrow> string list \<Rightarrow> nat \<Rightarrow> nat \<Rightarrow> nat \<Rightarrow> FileInfo \<Rightarrow> bool" where
  "seen root parts i from to info \<longleftrightarrow> (\<exists>t x. from \<le> t \<and> t < to \<and>
     sn_Lstat (root t) (join (CHR ''/'') (take (Suc i) parts)) = Inr x \<and> \<not> fi_Symlink x \<and>
     (if Suc i = length parts then x = info else fi_Dir x))"

lemma seen_mono: "seen root parts i from to info \<Longrightarrow> from' \<le> from \<Longrightarrow> seen root parts i from' to info"
  unfolding seen_def by (elim exE conjE, intro exI conjI) auto

lemma walk_ok:
  assumes "walk root pre cs before st = (Inr (Some info), st')" "\<forall>p\<in>set (pre @ cs). safe_part p" "cs \<noteq> []"
    "length pre \<le> i" "i < length (pre @ cs)"
  shows "seen root (pre @ cs) i (fs_time st) (fs_time st') info \<and> fs_time st < fs_time st'"
  using assms
proof (induction cs arbitrary: pre before st i)
  case (Cons c cs)
  from Cons.prems(1) obtain st1 x where e: "fs_Err st = (Inr (), st1)"
    and l: "sn_Lstat (root (fs_time st1)) (Join (pre @ [c])) = Inr x" "\<not> fi_Symlink x" "cs = [] \<or> fi_Dir x"
    and w: "walk root (pre @ [c]) cs (Some x) (st1\<lparr>fs_time := Suc (fs_time st1)\<rparr>) = (Inr (Some info), st')"
    by (auto simp: Lstat_def split: prod.splits sum.splits if_splits)
  have t: "fs_time st1 = fs_time st" using e by (auto simp: fs_Err_def split: prod.splits)
  have j: "Join (pre @ [c]) = join (CHR ''/'') (pre @ [c])" using Cons.prems(2) by (intro Join_safe) auto
  show ?case
  proof (cases "cs = []")
    case True
    with w l t j Cons.prems(4,5) show ?thesis by (auto simp: seen_def le_antisym intro!: exI [of _ "fs_time st"])
  next
    case False
    have ih: "length (pre @ [c]) \<le> k \<Longrightarrow> k < length ((pre @ [c]) @ cs) \<Longrightarrow>
        seen root ((pre @ [c]) @ cs) k (Suc (fs_time st)) (fs_time st') info \<and> Suc (fs_time st) < fs_time st'" for k
      using Cons.IH [OF w _ False, of k] Cons.prems(2) t by simp
    have later: "fs_time st < fs_time st'" using ih [of "length (pre @ [c])"] False by simp
    show ?thesis
    proof (cases "i = length pre")
      case True
      with l False t j later show ?thesis by (auto simp: seen_def intro!: exI [of _ "fs_time st"])
    next
      case i: False
      with ih [of i] Cons.prems(4,5) have "seen root (pre @ c # cs) i (Suc (fs_time st)) (fs_time st') info" by simp
      with later show ?thesis unfolding seen_def by (meson Suc_leD)
    qed
  qed
qed simp

lemma walk_some: "walk root pre cs before st = (Inr None, st') \<Longrightarrow> before = None \<and> cs = []"
  by (induction root pre cs before st rule: walk.induct) (auto simp: Lstat_def split: prod.splits sum.splits if_splits)

subsection \<open>What is opened\<close>

lemma fs_Err_time: "fs_Err st = (r, st') \<Longrightarrow> fs_time st' = fs_time st"
  by (auto simp: fs_Err_def split: prod.splits)

lemma fs_Err_nil: "fs_ctx st = [] \<Longrightarrow> fs_Err st = (Inr (), st)"
  by (cases st) (simp add: fs_Err_def Err_def)

lemma walk_time: "walk root pre cs before st = (r, st') \<Longrightarrow> fs_time st \<le> fs_time st'"
proof (induction root pre cs before st rule: walk.induct)
  case (2 root pre c cs before st)
  obtain x st1 where e: "fs_Err st = (x, st1)" by fastforce
  note t = fs_Err_time [OF e]
  show ?case
  proof (cases x)
    case (Inr u)
    obtain y where y: "Lstat root (Join (pre @ [c])) st1 = (y, st1\<lparr>fs_time := Suc (fs_time st1)\<rparr>)"
      by (simp add: Lstat_def)
    show ?thesis
    proof (cases y)
      case (Inr info)
      with 2(1) [OF e [symmetric] _ y [symmetric], of u info] 2(2) e y \<open>x = Inr u\<close> t show ?thesis
        by (auto split: if_splits)
    qed (use 2(2) e y \<open>x = Inr u\<close> t in auto)
  qed (use 2(2) e t in auto)
qed simp

lemma open_file_Inr:
  assumes "open_file root mime decoded st = (Inr resource, st')" "HasPrefix decoded ''/''"
  obtains parts before info body t where "decoded = CHR ''/'' # join (CHR ''/'') parts" "parts \<noteq> []"
    "\<forall>p\<in>set parts. safe_part p" "\<forall>i<length parts. seen root parts i (fs_time st) t before"
    "sn_Open (root t) (join (CHR ''/'') parts) = Inr (Inr info, body)"
    "fi_Regular before" "fi_Regular info" "fi_File info = fi_File before" "fi_Size info \<le> MaxResourceSize"
    "resource = \<lparr>rs_Body = Some body, rs_MediaType = media_type mime decoded, rs_Size = fi_Size info\<rparr>"
proof -
  obtain name where d: "decoded = CHR ''/'' # name" using assms(2) by (auto simp: HasPrefix_iff)
  then have n: "TrimPrefix decoded ''/'' = name" by (simp add: TrimPrefix_def HasPrefix_def)
  define parts where "parts = Split name (CHR ''/'')"
  from assms(1) obtain before st1 info body st2 where s: "\<not> list_ex unsafe_part parts"
    and w: "walk root [] parts None st = (Inr (Some before), st1)" and b: "fi_Regular before"
    and o: "openResourceFile root name st1 = (Inr (Inr info, body), st2)"
    and i: "fi_Regular info" "fi_File info = fi_File before" "fi_Size info \<le> MaxResourceSize"
    and r: "resource = \<lparr>rs_Body = Some body, rs_MediaType = media_type mime decoded, rs_Size = fi_Size info\<rparr>"
    unfolding open_file_def Let_def n parts_def [symmetric]
    by (auto split: if_splits prod.splits sum.splits option.splits)
  have safe: "\<forall>p\<in>set parts. safe_part p" using s unfolding parts_def Split_safe .
  have ne: "parts \<noteq> []" by (simp add: parts_def)
  have "join (CHR ''/'') parts = name" by (simp add: parts_def join_Split)
  then show thesis
    using that [of parts "fs_time st1" before info body] walk_ok [OF w _ ne] safe ne b i r o d
    by (auto simp: openResourceFile_def)
qed

lemma ValidateResource_slash: "is_ok (ValidateResource path query) \<Longrightarrow> HasPrefix path ''/''"
  by (cases path) (auto simp: ValidateResource_def HasPrefix_def split: if_splits)

lemma PathUnescape_slash: "HasPrefix path ''/'' \<Longrightarrow> PathUnescape path = Some d \<Longrightarrow> HasPrefix d ''/''"
  by (auto simp: HasPrefix_iff)

lemma open_file_time: "open_file root mime decoded st = (r, st') \<Longrightarrow> fs_time st \<le> fs_time st'"
  unfolding open_file_def Let_def openResourceFile_def
  by (auto split: if_splits prod.splits sum.splits option.splits dest!: walk_time fs_Err_time)

lemma Open_file_Inr:
  assumes "FileHandler_Open root mime path query st = (Inr resource, st')" "\<not> names_directory path"
  obtains decoded st1 where "PathUnescape path = Some decoded" "utf8_valid decoded" "HasPrefix decoded ''/''"
    "is_ok (ValidateResource path query)" "fs_time st1 = fs_time st" "open_file root mime decoded st1 = (Inr resource, st')"
proof -
  from assms obtain st1 decoded where e: "fs_Err st = (Inr (), st1)" and v: "is_ok (ValidateResource path query)"
    "PathUnescape path = Some decoded" "utf8_valid decoded" "open_file root mime decoded st1 = (Inr resource, st')"
    by (subst (asm) FileHandler_Open.simps)
      (auto simp: names_directory_def split: prod.splits sum.splits if_splits option.splits)
  with that PathUnescape_slash [OF ValidateResource_slash [OF v(1)] v(2)] fs_Err_time [OF e] show thesis by blast
qed

lemma Open_file_time:
  assumes "FileHandler_Open root mime path query st = (r, st')" "\<not> names_directory path"
  shows "fs_time st \<le> fs_time st'"
  using assms
  by (subst (asm) FileHandler_Open.simps)
    (auto simp: names_directory_def split: prod.splits sum.splits if_splits option.splits
      dest!: open_file_time fs_Err_time)

lemma Open_directory_Inr:
  assumes "FileHandler_Open root mime path query st = (Inr resource, st')" "names_directory path"
  shows "\<exists>target st1. target \<in> {path @ ''index.html'', path @ ''index.txt''} \<and> fs_time st \<le> fs_time st1 \<and>
     FileHandler_Open root mime target query st1 = (Inr resource, st')"
proof -
  from assms(2) obtain d where d: "PathUnescape path = Some d" "HasSuffix d ''/''"
    by (auto simp: names_directory_def split: option.splits)
  from assms(1) d obtain st1 x st2 where e: "fs_Err st = (Inr (), st1)"
    and h: "FileHandler_Open root mime (path @ ''index.html'') query st1 = (x, st2)"
    and r: "(x = Inr resource \<and> st2 = st') \<or> FileHandler_Open root mime (path @ ''index.txt'') query st2 = (Inr resource, st')"
    by (subst (asm) FileHandler_Open.simps) (auto split: prod.splits sum.splits if_splits option.splits)
  from Open_file_time [OF h index_not_directory(1) [OF d(1)]] fs_Err_time [OF e] h r show ?thesis by (metis insertCI order_refl)
qed


subsection \<open>A directory at rest\<close>

text \<open>
  A tree of regular files, with the number that identifies each, directories, symbolic links
  and special files. What a name denotes does not go through links.
\<close>

datatype tree =
    Regular nat bytes
  | Symlink
  | Special nat
  | Folder "(string \<times> tree) list"

fun lookup :: "tree \<Rightarrow> string list \<Rightarrow> tree option" where
  "lookup t [] = Some t"
| "lookup (Folder ts) (p # ps) = (case map_of ts p of None \<Rightarrow> None | Some t \<Rightarrow> lookup t ps)"
| "lookup t (p # ps) = None"

fun is_folder :: "tree option \<Rightarrow> bool" where
  "is_folder (Some (Folder ts)) = True"
| "is_folder x = False"

fun tree_info :: "tree \<Rightarrow> FileInfo" where
  "tree_info (Regular n content) = \<lparr>fi_Symlink = False, fi_Dir = False, fi_Regular = True,
     fi_Size = int (length content), fi_File = n\<rparr>"
| "tree_info Symlink = \<lparr>fi_Symlink = True, fi_Dir = False, fi_Regular = False, fi_Size = 0, fi_File = 0\<rparr>"
| "tree_info (Special n) = \<lparr>fi_Symlink = False, fi_Dir = False, fi_Regular = False, fi_Size = 0, fi_File = n\<rparr>"
| "tree_info (Folder ts) = \<lparr>fi_Symlink = False, fi_Dir = True, fi_Regular = False, fi_Size = 0, fi_File = 0\<rparr>"

text \<open>
  The directory holds the tree all the time, as far as names go that lead through its own
  directories.
\<close>

definition at_rest :: "directory \<Rightarrow> tree \<Rightarrow> bool" where
  "at_rest root tree \<longleftrightarrow> (\<forall>t parts. (\<forall>p\<in>set parts. safe_part p) \<longrightarrow> parts \<noteq> [] \<longrightarrow>
     is_folder (lookup tree (butlast parts)) \<longrightarrow>
     (case lookup tree parts of
        None \<Rightarrow> \<not> is_ok (sn_Lstat (root t) (join (CHR ''/'') parts))
      | Some x \<Rightarrow> sn_Lstat (root t) (join (CHR ''/'') parts) = Inr (tree_info x) \<and>
          (case x of
             Regular n content \<Rightarrow> (\<exists>body. sn_Open (root t) (join (CHR ''/'') parts) = Inr (Inr (tree_info x), body) \<and>
                stream body = content \<and> r_end body = EOF)
           | _ \<Rightarrow> True)))"

text \<open>What the tree offers under an unescaped path: an error code, or contents and media type.\<close>

definition file_at :: "(string \<Rightarrow> string) \<Rightarrow> tree \<Rightarrow> string \<Rightarrow> string + bytes \<times> string" where
  "file_at mime tree decoded =
     (let parts = Split (TrimPrefix decoded ''/'') (CHR ''/'')
      in if list_ex unsafe_part parts then Inl ''BAD_RESOURCE''
         else case lookup tree parts of
           Some (Regular n content) \<Rightarrow>
             if int (length content) > MaxResourceSize then Inl ''TOO_LARGE'' else Inr (content, media_type mime decoded)
         | _ \<Rightarrow> Inl ''NOT_FOUND'')"

definition serve_tree :: "(string \<Rightarrow> string) \<Rightarrow> tree \<Rightarrow> string \<Rightarrow> string + bytes \<times> string" where
  "serve_tree mime tree decoded =
     (if HasSuffix decoded ''/'' then
        (if file_at mime tree (decoded @ ''index.html'') = Inl ''NOT_FOUND''
         then file_at mime tree (decoded @ ''index.txt'') else file_at mime tree (decoded @ ''index.html''))
      else file_at mime tree decoded)"

definition offers :: "Resource res \<Rightarrow> string + bytes \<times> string \<Rightarrow> bool" where
  "offers r x \<longleftrightarrow> (case r of
      Inl e \<Rightarrow> (\<exists>code message. errors_as_remote e = Some (code, message) \<and> x = Inl code)
    | Inr resource \<Rightarrow> (\<exists>body. rs_Body resource = Some body \<and> x = Inr (stream body, rs_MediaType resource) \<and>
        r_end body = EOF \<and> rs_Size resource = int (length (stream body))))"

lemma walk_rest:
  assumes "at_rest root tree" "\<forall>p\<in>set (pre @ cs). safe_part p" "is_folder (lookup tree pre)" "fs_ctx st = []" "cs \<noteq> []"
  shows "\<exists>r st'. walk root pre cs before st = (r, st') \<and> fs_ctx st' = [] \<and>
     (case lookup tree (pre @ cs) of
        Some x \<Rightarrow> if x = Symlink then r = Inl (not_found ''resource is unavailable'') else r = Inr (Some (tree_info x))
      | None \<Rightarrow> r = Inl (not_found ''resource is unavailable''))"
  using assms(2-)
proof (induction cs arbitrary: pre before st)
  case (Cons c cs)
  note e = fs_Err_nil [OF Cons.prems(3)]
  have j: "Join (pre @ [c]) = join (CHR ''/'') (pre @ [c])" using Cons.prems(1) by (intro Join_safe) auto
  have ext: "lookup tree (pre @ qs) = (case lookup tree pre of None \<Rightarrow> None | Some t \<Rightarrow> lookup t qs)" for qs
  proof (induction tree pre rule: lookup.induct)
    case (2 ts p ps)
    then show ?case by (auto split: option.splits)
  qed auto
  have rest: "case lookup tree (pre @ [c]) of
        None \<Rightarrow> \<not> is_ok (sn_Lstat (root (fs_time st)) (join (CHR ''/'') (pre @ [c])))
      | Some x \<Rightarrow> sn_Lstat (root (fs_time st)) (join (CHR ''/'') (pre @ [c])) = Inr (tree_info x)"
    using assms(1) [unfolded at_rest_def, THEN spec, THEN spec, of "pre @ [c]" "fs_time st"] Cons.prems(1,2)
    by (auto split: option.splits)
  show ?case
  proof (cases "lookup tree (pre @ [c])")
    case None
    then have "lookup tree (pre @ c # cs) = None"
      using ext [of "[c]"] ext [of "c # cs"] Cons.prems(2) by (auto split: option.splits elim!: is_folder.elims)
    with rest None Cons.prems e j show ?thesis
      by (auto simp: Lstat_def not_found_def is_ok_def split: sum.splits)
  next
    case (Some x)
    then have l: "sn_Lstat (root (fs_time st)) (join (CHR ''/'') (pre @ [c])) = Inr (tree_info x)"
      using rest by simp
    have deep: "lookup tree (pre @ c # cs) = lookup x cs"
      using ext [of "[c]"] ext [of "c # cs"] Cons.prems(2) Some by (auto split: option.splits elim!: is_folder.elims)
    show ?thesis
    proof (cases "is_folder (Some x) \<and> cs \<noteq> []")
      case True
      then have "\<not> fi_Symlink (tree_info x)" "fi_Dir (tree_info x)" by (cases x; simp)+
      with Cons.IH [of "pre @ [c]" "st\<lparr>fs_time := Suc (fs_time st)\<rparr>" "Some (tree_info x)"] True Some Cons.prems e j l
      show ?thesis by (auto simp: Lstat_def)
    next
      case False
      with deep e j l Cons.prems(3) show ?thesis
        by (cases x; cases cs) (auto simp: Lstat_def)
    qed
  qed
qed simp

lemma folder_above: "lookup tree (ps @ [p]) = Some x \<Longrightarrow> is_folder (lookup tree ps)"
  by (induction tree ps rule: lookup.induct) (auto split: option.splits elim: lookup.elims)

lemma open_file_rest:
  assumes "at_rest root tree" "is_folder (Some tree)" "fs_ctx st = []"
  shows "\<exists>r st'. open_file root mime decoded st = (r, st') \<and> fs_ctx st' = [] \<and> offers r (file_at mime tree decoded)"
proof -
  define name where "name = TrimPrefix decoded ''/''"
  define parts where "parts = Split name (CHR ''/'')"
  note defs = open_file_def file_at_def Let_def name_def [symmetric] parts_def [symmetric]
  show ?thesis
  proof (cases "list_ex unsafe_part parts")
    case True
    with assms(3) show ?thesis by (simp add: defs offers_def)
  next
    case False
    then have safe: "\<forall>p\<in>set parts. safe_part p" unfolding parts_def Split_safe .
    have ne: "parts \<noteq> []" and j: "join (CHR ''/'') parts = name" by (simp_all add: parts_def join_Split)
    obtain r st1 where w: "walk root [] parts None st = (r, st1)" "fs_ctx st1 = []"
      and k: "case lookup tree parts of
        Some x \<Rightarrow> if x = Symlink then r = Inl (not_found ''resource is unavailable'') else r = Inr (Some (tree_info x))
      | None \<Rightarrow> r = Inl (not_found ''resource is unavailable'')"
      using walk_rest [OF assms(1), of "[]" parts st None] safe ne assms(2,3) by auto
    show ?thesis
    proof (cases "\<exists>n content. lookup tree parts = Some (Regular n content)")
      case True
      then obtain n content where l: "lookup tree parts = Some (Regular n content)" by blast
      obtain q where "parts = q @ [last parts]" using ne by (metis append_butlast_last_id)
      have "is_folder (lookup tree (butlast parts))"
        using l ne folder_above [of tree "butlast parts" "last parts"] by simp
      then obtain body where "sn_Open (root (fs_time st1)) name = Inr (Inr (tree_info (Regular n content)), body)"
        "stream body = content" "r_end body = EOF"
        using assms(1) [unfolded at_rest_def, THEN spec, THEN spec, of parts "fs_time st1"] safe ne l j by auto
      with k l w False show ?thesis
        by (auto simp: defs openResourceFile_def offers_def fs_Err_def Err_def not_found_def)
    next
      case no: False
      then have "file_at mime tree decoded = Inl ''NOT_FOUND''"
        using False by (auto simp: defs split: option.splits tree.splits)
      moreover have "\<exists>m st'. open_file root mime decoded st = (Inl (not_found m), st') \<and> fs_ctx st' = []"
      proof (cases "lookup tree parts")
        case (Some x)
        with no k w False show ?thesis by (cases x) (auto simp: defs)
      qed (use k w False in \<open>auto simp: defs\<close>)
      ultimately show ?thesis by (auto simp: offers_def not_found_def)
    qed
  qed
qed

lemma component_append: "component q a \<Longrightarrow> component q b \<Longrightarrow> component q (a @ b)"
  by (induction rule: component.induct) auto

lemma index_resource:
  assumes "is_ok (ValidateResource path query)" "f = ''index.html'' \<or> f = ''index.txt''"
    "length path + 10 + (if query \<noteq> [] then 1 + length query else 0) \<le> MaxURILength"
  shows "is_ok (ValidateResource (path @ f) query)"
proof -
  have "component False f"
    using assms(2) by (auto intro!: component_chr simp: component_char_def isLowerAlnum_def)
  then show ?thesis using assms by (auto simp: ValidateResource_ok intro: component_append)
qed

lemma Open_file_rest:
  assumes "at_rest root tree" "is_folder (Some tree)" "fs_ctx st = []" "is_ok (ValidateResource path query)"
    "PathUnescape path = Some decoded" "utf8_valid decoded" "\<not> HasSuffix decoded ''/''"
  shows "\<exists>r st'. FileHandler_Open root mime path query st = (r, st') \<and> fs_ctx st' = [] \<and> offers r (file_at mime tree decoded)"
  using open_file_rest [OF assms(1-3), of mime decoded] assms(3-)
  by (subst FileHandler_Open.simps) (simp add: fs_Err_nil)

lemma FileHandler_rest:
  assumes "at_rest root (Folder ts)" "fs_ctx st = []" "is_ok (ValidateResource path query)"
    "length path + 10 + (if query \<noteq> [] then 1 + length query else 0) \<le> MaxURILength"
    "PathUnescape path = Some decoded" "utf8_valid decoded"
  shows "offers (fst (FileHandler_Open root mime path query st)) (serve_tree mime (Folder ts) decoded)"
proof (cases "HasSuffix decoded ''/''")
  case False
  with Open_file_rest [OF assms(1) _ assms(2,3,5,6), of mime] show ?thesis by (auto simp: serve_tree_def)
next
  case True
  have i: "\<exists>r st'. FileHandler_Open root mime (path @ f) query st0 = (r, st') \<and> fs_ctx st' = [] \<and>
      offers r (file_at mime (Folder ts) (decoded @ f))" if "f = ''index.html'' \<or> f = ''index.txt''" "fs_ctx st0 = []" for f st0
  proof (rule Open_file_rest [OF assms(1) _ that(2)])
    show "is_ok (ValidateResource (path @ f) query)" by (rule index_resource [OF assms(3) that(1) assms(4)])
    show "PathUnescape (path @ f) = Some (decoded @ f)"
      using that(1) PathUnescape_append [OF assms(5), of f] by (auto simp: PathUnescape_plain)
    show "utf8_valid (decoded @ f)" using that(1) assms(6) by (auto simp: utf8_valid_append)
    show "\<not> HasSuffix (decoded @ f) ''/''" using that(1) by (auto simp: HasSuffix_iff)
  qed simp
  obtain r1 st1 where h: "FileHandler_Open root mime (path @ ''index.html'') query st = (r1, st1)" "fs_ctx st1 = []"
    "offers r1 (file_at mime (Folder ts) (decoded @ ''index.html''))" using i [of "''index.html''" st] assms(2) by auto
  obtain r2 st2 where t: "FileHandler_Open root mime (path @ ''index.txt'') query st1 = (r2, st2)"
    "offers r2 (file_at mime (Folder ts) (decoded @ ''index.txt''))" using i [of "''index.txt''" st1] h(2) by auto
  note e = fs_Err_nil [OF assms(2)]
  show ?thesis
  proof (cases r1)
    case (Inl e1)
    then obtain code message where c: "errors_as_remote e1 = Some (code, message)"
      "file_at mime (Folder ts) (decoded @ ''index.html'') = Inl code" using h(3) by (auto simp: offers_def)
    show ?thesis
      using e assms(3,5,6) True h t c Inl
      by (subst FileHandler_Open.simps) (auto simp: serve_tree_def)
  next
    case (Inr resource)
    with h(3) have "file_at mime (Folder ts) (decoded @ ''index.html'') \<noteq> Inl ''NOT_FOUND''" by (auto simp: offers_def)
    then show ?thesis
      using e assms(3,5,6) True h Inr by (subst FileHandler_Open.simps) (auto simp: serve_tree_def)
  qed
qed

text \<open>
  Property C24: On a directory that is not being changed, the file provider implements the abstract
  service of its tree: the contents and media type of the regular file that the path names,
  \<open>index.html\<close> and else \<open>index.txt\<close> for a directory path, \<open>NOT_FOUND\<close> for anything else
  (links, special files, missing names) and \<open>BAD_RESOURCE\<close> for unsafe names.
\<close>

theorem FileHandler_refines:
  assumes "at_rest root (Folder ts)" "fs_ctx st = []" "is_ok (ValidateResource path query)"
    "length path + 10 + (if query \<noteq> [] then 1 + length query else 0) \<le> MaxURILength"
    "PathUnescape path = Some decoded" "utf8_valid decoded"
  shows "offers (fst (FileHandler_Open root mime path query st)) (serve_tree mime (Folder ts) decoded)"
  using FileHandler_rest [OF assms] .

text \<open>A tree as a directory that is never changed.\<close>

definition tree_snapshot :: "tree \<Rightarrow> snapshot" where
  "tree_snapshot tree =
     \<lparr>sn_Lstat = (\<lambda>name. case lookup tree (Split name (CHR ''/'')) of None \<Rightarrow> Inl NotExist | Some x \<Rightarrow> Inr (tree_info x)),
      sn_Open = (\<lambda>name. case lookup tree (Split name (CHR ''/'')) of
         Some (Regular n content) \<Rightarrow> Inr (Inr (tree_info (Regular n content)), whole content) | _ \<Rightarrow> Inl NotExist)\<rparr>"

lemma tree_at_rest: "at_rest (\<lambda>_. tree_snapshot tree) tree"
proof -
  have "Split (join (CHR ''/'') parts) (CHR ''/'') = parts" if "\<forall>p\<in>set parts. safe_part p" "parts \<noteq> []" for parts
    using that safe_part_names by (intro Split_join) auto
  then show ?thesis by (auto simp: at_rest_def tree_snapshot_def split: option.splits tree.splits)
qed

definition sample_tree :: tree where
  "sample_tree = Folder [(''link'', Symlink), (''docs'', Folder [(''index.html'', Regular 7 ''hi'')])]"

lemma sample_serve: "serve_tree (\<lambda>_. []) sample_tree ''/docs/'' = Inr (''hi'', ''text/html; charset=utf-8'')"
proof -
  have "media_type (\<lambda>_. []) ''/docs/index.html'' = ''text/html; charset=utf-8''"
    by (simp add: media_type_def media_types_def Ext_def LastSlash_def ToLower_def lower_def Let_def)
  then show ?thesis
    by (simp add: serve_tree_def file_at_def sample_tree_def HasSuffix_def HasPrefix_def TrimPrefix_def unsafe_part_def
        ContainsAny_def MaxResourceSize_def Let_def)
qed

lemma sample_docs: "is_ok (ValidateResource ''/docs/'' [])"
  by (auto simp: ValidateResource_ok MaxURILength_def component_char_def isLowerAlnum_def intro!: component_chr)

theorem FileHandler_refines_witness:
  "offers (fst (FileHandler_Open (\<lambda>_. tree_snapshot sample_tree) (\<lambda>_. []) ''/docs/'' [] \<lparr>fs_ctx = [], fs_time = 0\<rparr>))
     (Inr (''hi'', ''text/html; charset=utf-8''))"
  using FileHandler_refines [OF tree_at_rest [of sample_tree, unfolded sample_tree_def], folded sample_tree_def,
      of "\<lparr>fs_ctx = [], fs_time = 0\<rparr>" "''/docs/''" "[]" "''/docs/''" "\<lambda>_. []"] sample_docs
  by (simp add: sample_serve MaxURILength_def)


end
