(* ===== verification/Upstream.thy ===== *)
theory Upstream
  imports Proxy Files
begin

text \<open>
  \<open>src/http_upstream.go\<close>: the provider that hands application requests to one local HTTP
  service. Parsing and printing URLs (\<open>url.Parse\<close>, \<open>URL.String\<close>), the HTTP round trip
  (\<open>Client.Do\<close>) and content sniffing (\<open>http.DetectContentType\<close>) are arguments.
\<close>

subsection \<open>The address of the service\<close>

text \<open>\<open>URL.Hostname\<close> and \<open>URL.Port\<close>.\<close>

definition validOptionalPort :: "string \<Rightarrow> bool" where
  "validOptionalPort port \<longleftrightarrow> port = [] \<or> (hd port = CHR '':'' \<and> list_all is_digit (tl port))"

definition url_split :: "string \<Rightarrow> string \<times> string" where
  "url_split hostPort =
     (let (host, port) = (case LastIndexByte hostPort (CHR '':'') of
            Some i \<Rightarrow> if validOptionalPort (drop i hostPort) then (take i hostPort, drop (i + 1) hostPort) else (hostPort, [])
          | None \<Rightarrow> (hostPort, []))
      in (if HasPrefix host ''['' \<and> HasSuffix host '']'' then butlast (tl host) else host, port))"

definition Hostname :: "URL \<Rightarrow> string" where
  "Hostname u = fst (url_split (url_Host u))"

definition Port :: "URL \<Rightarrow> string" where
  "Port u = snd (url_split (url_Host u))"

text \<open>\<open>net.JoinHostPort\<close>.\<close>

definition JoinHostPort :: "string \<Rightarrow> string \<Rightarrow> string" where
  "JoinHostPort host port =
     (if CHR '':'' \<in> set host then ''['' @ host @ '']:'' @ port else host @ CHR '':'' # port)"

definition ValidateHTTPUpstream :: "(string \<Rightarrow> URL option) \<Rightarrow> string \<Rightarrow> check" where
  "ValidateHTTPUpstream parse address =
     (case parse address of
        None \<Rightarrow> Inl (Errorf ''upstream must be an HTTP or HTTPS localhost/loopback URL with an explicit port'')
      | Some u \<Rightarrow>
          if (url_Scheme u \<noteq> ''http'' \<and> url_Scheme u \<noteq> ''https'') \<or> url_HasUser u \<or> url_RawQuery u \<noteq> [] \<or>
             url_ForceQuery u \<or> url_Fragment u \<noteq> [] \<or> url_RawFragment u \<noteq> [] \<or>
             (url_Path u \<noteq> [] \<and> url_Path u \<noteq> ''/'')
            then Inl (Errorf ''upstream must be an HTTP or HTTPS localhost/loopback URL with an explicit port'')
          else if ToLower (Hostname u) \<noteq> ''localhost'' \<and>
                  (case ParseIP (Hostname u) of None \<Rightarrow> True | Some i \<Rightarrow> \<not> IsLoopback i)
            then Inl (Errorf ''upstream requires localhost or a numeric loopback address and a port between 1 and 65535'')
          else (case Atoi (Port u) of
              None \<Rightarrow> Inl (Errorf ''upstream requires localhost or a numeric loopback address and a port between 1 and 65535'')
            | Some port \<Rightarrow>
                if port < 1 \<or> port > 65535 \<or> Itoa port \<noteq> Port u
                  then Inl (Errorf ''upstream requires localhost or a numeric loopback address and a port between 1 and 65535'')
                else Inr ()))"

record HTTPHandler =
  hh_target :: URL
  hh_authority :: string

definition NewHTTPHandler :: "(string \<Rightarrow> URL option) \<Rightarrow> string \<Rightarrow> string \<Rightarrow> HTTPHandler res" where
  "NewHTTPHandler parse address authority =
     (case ValidateHTTPUpstream parse address of
        Inl e \<Rightarrow> Inl e
      | Inr _ \<Rightarrow>
          (case ValidateAuthority authority of
             Inl e \<Rightarrow> Inl e
           | Inr _ \<Rightarrow> Inr \<lparr>hh_target = the (parse address), hh_authority = authority\<rparr>))"

text \<open>
  The addresses that \<open>DialContext\<close> of the handler's transport tries, in order, when the
  transport asks for \<open>address\<close>: literal loopback addresses for \<open>localhost\<close>.
\<close>

definition dial_addresses :: "HTTPHandler \<Rightarrow> string \<Rightarrow> string list" where
  "dial_addresses h address =
     (if EqualFold (Hostname (hh_target h)) ''localhost''
      then [JoinHostPort ''127.0.0.1'' (Port (hh_target h)), JoinHostPort ''::1'' (Port (hh_target h))]
      else [address])"

fun dial_first :: "(string \<Rightarrow> 'c res) \<Rightarrow> ctx \<Rightarrow> string list \<Rightarrow> 'c res" where
  "dial_first dial ctx [] = Inl (Errorf ''no address'')"
| "dial_first dial ctx [a] = dial a"
| "dial_first dial ctx (a # as) =
     (case dial a of
        Inr c \<Rightarrow> Inr c
      | Inl e \<Rightarrow> (case Err ctx of (Inl _, _) \<Rightarrow> Inl e | (Inr _, ctx') \<Rightarrow> dial_first dial ctx' as))"

definition upstream_dial :: "(string \<Rightarrow> 'c res) \<Rightarrow> ctx \<Rightarrow> HTTPHandler \<Rightarrow> string \<Rightarrow> 'c res" where
  "upstream_dial dial ctx h address = dial_first dial ctx (dial_addresses h address)"

subsection \<open>Headers\<close>

definition hopHeaders :: "string list" where
  "hopHeaders = [''connection'', ''keep-alive'', ''proxy-authenticate'', ''proxy-authorization'', ''te'', ''trailer'',
     ''transfer-encoding'', ''upgrade'', ''content-length'']"

definition blockedHeaders :: "Header list \<Rightarrow> string list" where
  "blockedHeaders headers = hopHeaders @
     concat (map (\<lambda>h. if h_Name h = ''connection''
        then map (\<lambda>name. ToLower (TrimSpace name)) (Split (h_Value h) (CHR '','')) else []) headers)"

text \<open>\<open>render\<close> is \<open>URL.String\<close>.\<close>

definition backendURL :: "(string \<Rightarrow> URL option) \<Rightarrow> (URL \<Rightarrow> string) \<Rightarrow> HTTPHandler \<Rightarrow> string \<Rightarrow> string" where
  "backendURL parse render h v =
     (case parse v of
        None \<Rightarrow> v
      | Some u \<Rightarrow>
          if url_Scheme u = ''deep'' \<and> url_Host u = hh_authority h
          then render (u\<lparr>url_Scheme := url_Scheme (hh_target h), url_Host := url_Host (hh_target h)\<rparr>)
          else v)"

definition location :: "(string \<Rightarrow> URL option) \<Rightarrow> (URL \<Rightarrow> string) \<Rightarrow> HTTPHandler \<Rightarrow> string \<Rightarrow> string" where
  "location parse render h v =
     (case parse v of
        None \<Rightarrow> v
      | Some u \<Rightarrow>
          if (url_Scheme u = ''http'' \<or> url_Scheme u = ''https'' \<or> url_Scheme u = []) \<and>
             (url_Host u = url_Host (hh_target h) \<or> url_Host u = hh_authority h)
          then render (u\<lparr>url_Scheme := ''deep'', url_Host := hh_authority h\<rparr>)
          else v)"

subsection \<open>The exchange\<close>

text \<open>
  Requests and responses of \<open>net/http\<close>. Its header maps spell their keys in one canonical
  way; here they are in lower case. The response headers are listed in the order in which
  the map is visited.
\<close>

record HttpRequest =
  hq_Method :: string
  hq_URL :: string
  hq_Host :: string
  hq_Header :: "(string \<times> string) list"
  hq_Body :: bytes

record HttpResponse =
  hr_StatusCode :: int
  hr_Header :: "(string \<times> string list) list"
  hr_ContentLength :: int
  hr_Body :: reader

definition Header_Get :: "(string \<times> string list) list \<Rightarrow> string \<Rightarrow> string" where
  "Header_Get header name = (case map_of header name of Some (v # vs) \<Rightarrow> v | _ \<Rightarrow> [])"

text \<open>\<open>Header.Set\<close> replaces all values of a key.\<close>

definition Header_Set :: "string \<Rightarrow> string \<Rightarrow> (string \<times> string) list \<Rightarrow> (string \<times> string) list" where
  "Header_Set name v header = filter (\<lambda>h. fst h \<noteq> name) header @ [(name, v)]"

text \<open>The headers that are copied to the local request.\<close>

definition forward_headers ::
    "(string \<Rightarrow> URL option) \<Rightarrow> (URL \<Rightarrow> string) \<Rightarrow> HTTPHandler \<Rightarrow> Header list \<Rightarrow> (string \<times> string) list" where
  "forward_headers parse render h headers =
     (let blocked = blockedHeaders headers
      in map (\<lambda>x. (h_Name x, if h_Name x = ''origin'' \<or> h_Name x = ''referer''
             then backendURL parse render h (h_Value x) else h_Value x))
         (filter (\<lambda>x. \<not> (h_Name x \<in> set blocked \<or> h_Name x = ''host'' \<or> h_Name x = ''accept-encoding'' \<or>
            h_Name x = ''forwarded'' \<or> HasPrefix (h_Name x) ''x-forwarded-'')) headers))"

definition check_exchange :: "string \<Rightarrow> string \<Rightarrow> ApplicationRequest \<Rightarrow> Header list res" where
  "check_exchange path query request =
     (case ValidateResource path query of
        Inl e \<Rightarrow> Inl e
      | Inr _ \<Rightarrow>
          if \<not> ValidApplicationMethod (ar_Method request) \<or>
             int (length (ar_Body request)) > MaxApplicationRequestBytes
            then Inl (Errorf ''invalid application request'')
          else if (ar_Method request = ''GET'' \<or> ar_Method request = ''HEAD'') \<and> ar_Body request \<noteq> []
            then Inl (Errorf ''GET and HEAD must not carry a body'')
          else (let headers = (case ar_Headers request of None \<Rightarrow> [] | Some hs \<Rightarrow> hs)
                in case ValidateApplicationHeaders (Some headers) of Inl e \<Rightarrow> Inl e | Inr _ \<Rightarrow> Inr headers))"

definition http_request ::
    "(string \<Rightarrow> URL option) \<Rightarrow> (URL \<Rightarrow> string) \<Rightarrow> HTTPHandler \<Rightarrow> string \<Rightarrow> string \<Rightarrow> ApplicationRequest \<Rightarrow>
     Header list \<Rightarrow> HttpRequest res" where
  "http_request parse render h path query request headers =
     (case PathUnescape path of
        None \<Rightarrow> Inl (Errorf ''invalid URL escape'')
      | Some decoded \<Rightarrow>
          Inr \<lparr>hq_Method = ar_Method request,
               hq_URL = render ((hh_target h)\<lparr>url_Path := decoded, url_RawPath := path, url_RawQuery := query\<rparr>),
               hq_Host = url_Host (hh_target h),
               hq_Header = Header_Set ''x-forwarded-proto'' ''deep''
                 (Header_Set ''x-forwarded-host'' (hh_authority h)
                   (Header_Set ''accept-encoding'' ''identity'' (forward_headers parse render h headers))),
               hq_Body = ar_Body request\<rparr>)"

text \<open>\<open>io.ReadAll\<close> of an \<open>io.LimitReader\<close>.\<close>

definition ReadAll_limit :: "nat \<Rightarrow> reader \<Rightarrow> bytes res" where
  "ReadAll_limit n r =
     (if n \<le> length (stream r) then Inr (take n (stream r))
      else if r_end r = EOF then Inr (stream r) else Inl (r_end r))"

text \<open>All response headers, and those that are passed on.\<close>

definition raw_headers :: "(string \<times> string list) list \<Rightarrow> Header list" where
  "raw_headers header = concat (map (\<lambda>(name, vs). map (\<lambda>v. \<lparr>h_Name = ToLower name, h_Value = v\<rparr>) vs) header)"

definition response_headers ::
    "(string \<Rightarrow> URL option) \<Rightarrow> (URL \<Rightarrow> string) \<Rightarrow> HTTPHandler \<Rightarrow> Header list \<Rightarrow> Header list" where
  "response_headers parse render h raw =
     (let blocked = blockedHeaders raw
      in map (\<lambda>x. if h_Name x = ''location'' then x\<lparr>h_Value := location parse render h (h_Value x)\<rparr> else x)
         (filter (\<lambda>x. \<not> (h_Name x \<in> set blocked \<or> h_Name x = ''content-type'' \<or> h_Name x = ''content-encoding'')) raw))"

definition http_response ::
    "(string \<Rightarrow> URL option) \<Rightarrow> (URL \<Rightarrow> string) \<Rightarrow> (bytes \<Rightarrow> string) \<Rightarrow> HTTPHandler \<Rightarrow> string \<Rightarrow> HttpResponse \<Rightarrow>
     ApplicationResponse res" where
  "http_response parse render detect h method response =
     (if hr_StatusCode response < 200 \<or> hr_StatusCode response > 599
        then Inl (Errorf ''unsupported upstream response status'')
      else if Header_Get (hr_Header response) ''content-encoding'' \<noteq> [] \<and>
              Header_Get (hr_Header response) ''content-encoding'' \<noteq> ''identity''
        then Inl (Errorf ''upstream must honor Accept-Encoding: identity'')
      else if hr_ContentLength response > MaxApplicationResponseBytes \<and> method \<noteq> ''HEAD''
        then Inl (Errorf ''application response exceeds 16 MiB'')
      else case ReadAll_limit (nat (MaxApplicationResponseBytes + 1)) (hr_Body response) of
        Inl e \<Rightarrow> Inl e
      | Inr data \<Rightarrow>
          if int (length data) > MaxApplicationResponseBytes
            then Inl (Errorf ''application response exceeds 16 MiB'')
          else (let mediaType = (if Header_Get (hr_Header response) ''content-type'' = [] then detect data
                                 else Header_Get (hr_Header response) ''content-type'');
                    headers = response_headers parse render h (raw_headers (hr_Header response))
                in if \<not> validateMediaType mediaType then Inl (Errorf ''invalid upstream media type'')
                   else case ValidateApplicationHeaders (Some headers) of
                     Inl e \<Rightarrow> Inl e
                   | Inr _ \<Rightarrow> Inr \<lparr>ap_Status = hr_StatusCode response, ap_Headers = Some headers,
                       ap_Resource = \<lparr>rs_Body = Some (whole data), rs_MediaType = mediaType,
                                      rs_Size = int (length data)\<rparr>\<rparr>))"

text \<open>
  \<open>Exchange\<close> once a slot was taken (\<open>slot = None\<close>) or the context ended while waiting for
  one; \<open>roundtrip\<close> is the local round trip. The second component says whether the slot is still
  held when \<open>Exchange\<close> returns.
\<close>

definition HTTPHandler_Exchange ::
    "(string \<Rightarrow> URL option) \<Rightarrow> (URL \<Rightarrow> string) \<Rightarrow> (bytes \<Rightarrow> string) \<Rightarrow> (HttpRequest \<Rightarrow> HttpResponse res) \<Rightarrow>
     err option \<Rightarrow> HTTPHandler \<Rightarrow> string \<Rightarrow> string \<Rightarrow> ApplicationRequest \<Rightarrow> ApplicationResponse res \<times> bool" where
  "HTTPHandler_Exchange parse render detect roundtrip slot h path query request =
     (case check_exchange path query request of
        Inl e \<Rightarrow> (Inl e, False)
      | Inr headers \<Rightarrow>
          (case slot of
             Some e \<Rightarrow> (Inl e, False)
           | None \<Rightarrow>
               (case http_request parse render h path query request headers of
                  Inl e \<Rightarrow> (Inl e, False)
                | Inr r \<Rightarrow>
                    (case roundtrip r of
                       Inl e \<Rightarrow> (Inl (Wrapf ''local application unavailable'' e), False)
                     | Inr response \<Rightarrow>
                         (case http_response parse render detect h (ar_Method request) response of
                            Inl e \<Rightarrow> (Inl e, False)
                          | Inr x \<Rightarrow> (Inr x, True))))))"

text \<open>For a read-only request the body of any other status is closed, which gives the slot back.\<close>

definition HTTPHandler_Open ::
    "(string \<Rightarrow> URL option) \<Rightarrow> (URL \<Rightarrow> string) \<Rightarrow> (bytes \<Rightarrow> string) \<Rightarrow> (HttpRequest \<Rightarrow> HttpResponse res) \<Rightarrow>
     err option \<Rightarrow> HTTPHandler \<Rightarrow> string \<Rightarrow> string \<Rightarrow> Resource res \<times> bool" where
  "HTTPHandler_Open parse render detect roundtrip slot h path query =
     (case HTTPHandler_Exchange parse render detect roundtrip slot h path query
             \<lparr>ar_Method = ''GET'', ar_Headers = Some [], ar_Body = []\<rparr> of
        (Inl e, kept) \<Rightarrow> (Inl e, kept)
      | (Inr response, kept) \<Rightarrow>
          if ap_Status response \<noteq> 200
            then (Inl (Remote ''NOT_FOUND''
              ''application resource requires app/1 (use deep request or the updated viewer)''), False)
          else (Inr (ap_Resource response), kept))"

subsection \<open>Slots\<close>

text \<open>
  At most eight requests are with the local service at a time. A slot is taken before the
  request is made, and given back when \<open>Exchange\<close> fails or else when the body it returned is
  closed for the first time; \<open>sl_bodies\<close> records for every body whether it was closed.
\<close>

record slot_state =
  sl_used :: nat
  sl_running :: nat
  sl_bodies :: "bool list"

definition slot_capacity :: nat where
  "slot_capacity = 8"

inductive slot_step :: "slot_state \<Rightarrow> slot_state \<Rightarrow> bool" where
  take_slot: "sl_used s < slot_capacity \<Longrightarrow>
     slot_step s (s\<lparr>sl_used := Suc (sl_used s), sl_running := Suc (sl_running s)\<rparr>)"
| give_up: "0 < sl_running s \<Longrightarrow>
     slot_step s (s\<lparr>sl_used := sl_used s - 1, sl_running := sl_running s - 1\<rparr>)"
| hand_over: "0 < sl_running s \<Longrightarrow>
     slot_step s (s\<lparr>sl_running := sl_running s - 1, sl_bodies := sl_bodies s @ [False]\<rparr>)"
| close_body: "i < length (sl_bodies s) \<Longrightarrow> \<not> sl_bodies s ! i \<Longrightarrow>
     slot_step s (s\<lparr>sl_used := sl_used s - 1, sl_bodies := (sl_bodies s)[i := True]\<rparr>)"
| close_again: "i < length (sl_bodies s) \<Longrightarrow> sl_bodies s ! i \<Longrightarrow> slot_step s s"

definition slot_init :: slot_state where
  "slot_init = \<lparr>sl_used = 0, sl_running = 0, sl_bodies = []\<rparr>"

inductive slot_reach :: "slot_state \<Rightarrow> bool" where
  start: "slot_reach slot_init"
| step: "slot_reach s \<Longrightarrow> slot_step s s' \<Longrightarrow> slot_reach s'"

subsection \<open>Only the local machine is dialled\<close>

lemma parseIPv4_chars: "parseIPv4 s = Some b \<Longrightarrow> c \<in> set s \<Longrightarrow> is_digit c \<or> c = CHR ''.''"
proof -
  assume p: "parseIPv4 s = Some b" and c: "c \<in> set s"
  from p have d: "\<forall>q\<in>set (Split s (CHR ''.'')). list_all is_digit q"
    by (auto simp: parseIPv4_def octet_def split: list.splits option.splits if_splits)
  have "x \<in> set (join (CHR ''.'') ps) \<Longrightarrow> x = CHR ''.'' \<or> (\<exists>q\<in>set ps. x \<in> set q)" for x ps
    by (induction "CHR ''.''" ps rule: join.induct) auto
  from this [of c "Split s (CHR ''.'')"] c d show ?thesis by (auto simp: join_Split list_all_iff)
qed

lemma hex_run_chars: "c \<in> set (hex_run s) \<Longrightarrow> hex_val c \<noteq> None"
  unfolding hex_run_def by (drule set_takeWhileD) simp

lemma v6_fields_chars:
  "v6_fields s acc ell = Some (b, e, []) \<Longrightarrow> c \<in> set s \<Longrightarrow> hex_val c \<noteq> None \<or> c = CHR ''.'' \<or> c = CHR '':''"
proof (induction s acc ell rule: v6_fields.induct)
  case (1 s acc ell)
  let ?h = "hex_run s" and ?r = "drop (length (hex_run s)) s"
  have s: "s = ?h @ ?r" by (simp add: hex_run_def dropWhile_eq_drop [symmetric])
  from 1(4) s have c: "c \<in> set ?h \<or> c \<in> set ?r" by (metis UnE set_append)
  have hex: "c \<in> set ?h \<Longrightarrow> hex_val c \<noteq> None" by (rule hex_run_chars)
  show ?case
  proof (cases "length acc \<ge> 16")
    case True
    with 1(3,4) show ?thesis by (subst (asm) v6_fields.simps) simp
  next
    case acc: False
    with 1(3) have h: "\<not> (?h = [] \<or> length ?h > 4)" by (subst (asm) v6_fields.simps) (auto simp: Let_def split: if_splits)
    show ?thesis
    proof (cases "?r \<noteq> [] \<and> hd ?r = CHR ''.''")
      case True
      with 1(3) acc h obtain v where "parseIPv4 s = Some v"
        by (subst (asm) v6_fields.simps) (auto simp: Let_def split: if_splits)
      from parseIPv4_chars [OF this 1(4)] show ?thesis by (auto simp: is_digit_def hex_val_def)
    next
      case dot: False
      show ?thesis
      proof (cases ?r)
        case Nil
        with c hex show ?thesis by auto
      next
        case (Cons x xs)
        show ?thesis
        proof (cases xs)
          case Nil
          with 1(3) acc h dot Cons show ?thesis by (subst (asm) v6_fields.simps) (simp add: Let_def)
        next
          case (Cons y ys)
          note r = \<open>?r = x # xs\<close> [unfolded Cons]
          let ?acc = "acc @ [hex_number ?h div 256, hex_number ?h mod 256]"
          from 1(3) acc h dot r have x: "x = CHR '':''"
            by (subst (asm) v6_fields.simps) (auto simp: Let_def split: if_splits)
          show ?thesis
          proof (cases "y = CHR '':''")
            case True
            from 1(3) acc h dot r x True have "ys = [] \<or> v6_fields ys ?acc (Some (length ?acc)) = Some (b, e, [])" "ell = None"
              by (subst (asm) v6_fields.simps, auto simp: Let_def split: if_splits)+
            with 1(1) [OF acc refl refl h dot refl r refl] x True r c hex show ?thesis by fastforce
          next
            case False
            from 1(3) acc h dot r x False have "v6_fields (y # ys) ?acc ell = Some (b, e, [])"
              by (subst (asm) v6_fields.simps) (auto simp: Let_def split: if_splits)
            with 1(2) [OF acc refl refl h dot refl r refl] x False r c hex show ?thesis by auto
          qed
        qed
      qed
    qed
  qed
qed

lemma ParseIP_chars:
  assumes "ParseIP s = Some i" "c \<in> set s"
  shows "hex_val c \<noteq> None \<or> c = CHR ''.'' \<or> c = CHR '':''"
proof -
  from assms(1) consider (v4) b where "parseIPv4 s = Some b" | (v6) "parseIPv6 s = Some i"
    by (auto simp: ParseIP_def split: option.splits if_splits)
  then show ?thesis
  proof cases
    case v4
    with parseIPv4_chars assms(2) show ?thesis by (fastforce simp: is_digit_def hex_val_def)
  next
    case v6
    show ?thesis
    proof (cases "HasPrefix s ''::''")
      case True
      then obtain t where t: "s = ''::'' @ t" by (auto simp: HasPrefix_iff)
      with v6 True have "t = [] \<or> (\<exists>b e. v6_fields t [] (Some 0) = Some (b, e, []))"
        by (auto simp: parseIPv6_def Let_def split: option.splits if_splits)
      with v6_fields_chars assms(2) t show ?thesis by fastforce
    next
      case False
      with v6 obtain b e where "v6_fields s [] None = Some (b, e, [])"
        by (auto simp: parseIPv6_def Let_def split: option.splits if_splits)
      from v6_fields_chars [OF this assms(2)] show ?thesis .
    qed
  qed
qed

lemma SplitHostPort_bracket:
  assumes "CHR ''['' \<notin> set host" "CHR '']'' \<notin> set host" "\<forall>x\<in>set port. x \<noteq> CHR '':'' \<and> x \<noteq> CHR ''['' \<and> x \<noteq> CHR '']''"
  shows "SplitHostPort (''['' @ host @ '']:'' @ port) = Inr (host, port)"
proof -
  let ?a = "''['' @ host @ '']:'' @ port"
  have a: "?a = (''['' @ host @ '']'') @ CHR '':'' # port" "?a = (''['' @ host) @ CHR '']'' # CHR '':'' # port" by simp_all
  have "LastIndexByte ?a (CHR '':'') = Some (length host + 2)"
    using assms(3) LastIndexByte_app [of "CHR '':''" port "''['' @ host @ '']''"] by (simp add: a(1)) auto
  moreover have "IndexByte ?a (CHR '']'') = Some (length host + 1)"
    using assms(2) IndexByte_app [of "CHR '']''" "''['' @ host" "CHR '':'' # port"] by simp
  ultimately show ?thesis using assms by (auto simp: SplitHostPort_def)
qed

lemma JoinHostPort_split:
  assumes "ParseIP host = Some i" "list_all is_digit port"
  shows "SplitHostPort (JoinHostPort host port) = Inr (host, port)"
proof -
  have h: "CHR ''['' \<notin> set host" "CHR '']'' \<notin> set host"
    using ParseIP_chars [OF assms(1), of "CHR ''[''"] ParseIP_chars [OF assms(1), of "CHR '']''"]
    by (auto simp: hex_val_def)
  have p: "\<forall>x\<in>set port. x \<noteq> CHR '':'' \<and> x \<noteq> CHR ''['' \<and> x \<noteq> CHR '']''"
    using assms(2) by (auto simp: list_all_iff is_digit_def)
  show ?thesis
  proof (cases "CHR '':'' \<in> set host")
    case True
    with SplitHostPort_bracket [OF h p] show ?thesis by (simp add: JoinHostPort_def)
  next
    case False
    then have "\<forall>x\<in>set host \<union> set port. x \<noteq> CHR '':'' \<and> x \<noteq> CHR ''['' \<and> x \<noteq> CHR '']''" using h p by auto
    with False SplitHostPort_plain [of host port] show ?thesis by (simp add: JoinHostPort_def)
  qed
qed

lemma literal_loopbacks:
  "\<exists>i. ParseIP ''127.0.0.1'' = Some i \<and> IsLoopback i" "\<exists>i. ParseIP ''::1'' = Some i \<and> IsLoopback i"
proof -
  have "dotted [127, 0, 0, 1] = ''127.0.0.1''"
    by (simp add: dotted_def nat_dec.simps digit_char_def) code_simp
  with ParseIP_dotted [of 127 0 0 1] show "\<exists>i. ParseIP ''127.0.0.1'' = Some i \<and> IsLoopback i"
    by (simp add: IsLoopback_def To4_def v4_prefix_def)
  have "v6_fields ''1'' [] (Some 0) = Some ([0, 1], Some 0, [])"
    by (subst v6_fields.simps) (simp add: hex_run_def hex_number_def hex_val_def Let_def)
  then show "\<exists>i. ParseIP ''::1'' = Some i \<and> IsLoopback i"
    by (simp add: ParseIP_def parseIPv6_def HasPrefix_def Let_def IsLoopback_def To4_def v4_prefix_def numeral_eq_Suc)
qed

text \<open>
  The local service is really local: every address that an accepted handler's
  transport dials is a numeric loopback address with a port from 1 to 65535, whether the
  configured host is numeric or \<open>localhost\<close>; no name is ever looked up.
\<close>

theorem upstream_loopback:
  assumes "NewHTTPHandler parse address authority = Inr h"
    "a \<in> set (dial_addresses h (JoinHostPort (Hostname (hh_target h)) (Port (hh_target h))))"
  shows "ValidateProxyAddress a = Inr ()"
proof -
  let ?u = "hh_target h"
  from assms(1) obtain port where host: "ToLower (Hostname ?u) = ''localhost'' \<or> (\<exists>i. ParseIP (Hostname ?u) = Some i \<and> IsLoopback i)"
    and p: "Atoi (Port ?u) = Some port" "1 \<le> port" "port \<le> 65535" "Itoa port = Port ?u"
    by (auto simp: NewHTTPHandler_def ValidateHTTPUpstream_def split: sum.splits option.splits if_splits)
  have d: "list_all is_digit (Port ?u)"
    unfolding p(4) [symmetric] using p(2) nat_dec_digits by (simp add: Itoa_def)
  have ok: "ValidateProxyAddress (JoinHostPort host (Port ?u)) = Inr ()" if "ParseIP host = Some i" "IsLoopback i" for host i
    using JoinHostPort_split [OF that(1) d] that p by (simp add: ValidateProxyAddress_def)
  show ?thesis
  proof (cases "EqualFold (Hostname ?u) ''localhost''")
    case True
    with assms(2) literal_loopbacks ok show ?thesis by (auto simp: dial_addresses_def)
  next
    case False
    then have "ToLower (Hostname ?u) \<noteq> ''localhost''" by (auto simp: EqualFold_def ToLower_def lower_def)
    with False assms(2) host ok show ?thesis by (auto simp: dial_addresses_def)
  qed
qed

definition sample_upstream :: URL where
  "sample_upstream = \<lparr>url_Scheme = ''http'', url_Opaque = [], url_HasUser = False, url_Host = ''localhost:8'',
     url_Path = [], url_RawPath = [], url_ForceQuery = False, url_RawQuery = [], url_Fragment = [], url_RawFragment = []\<rparr>"

lemma sample_upstream_parts: "Hostname sample_upstream = ''localhost''" "Port sample_upstream = ''8''"
proof -
  have "LastIndexByte ''localhost:8'' (CHR '':'') = Some 9"
    using LastIndexByte_app [of "CHR '':''" "''8''" "''localhost''"] by simp
  then have "url_split ''localhost:8'' = (''localhost'', ''8'')"
    by (simp add: url_split_def validOptionalPort_def is_digit_def HasPrefix_def)
  then show "Hostname sample_upstream = ''localhost''" "Port sample_upstream = ''8''"
    by (simp_all add: Hostname_def Port_def sample_upstream_def)
qed

lemma sample_handler_new:
  "NewHTTPHandler (\<lambda>_. Some sample_upstream) ''http://localhost:8'' ''n.alpha'' =
     Inr \<lparr>hh_target = sample_upstream, hh_authority = ''n.alpha''\<rparr>"
proof -
  have i: "Itoa 8 = ''8''" by (simp add: Itoa_def nat_dec.simps digit_char_def) code_simp
  have "Atoi (Itoa 8) = Some 8" unfolding Atoi_def by (rule ParseInt10_Itoa) simp_all
  then have "Atoi ''8'' = Some 8" unfolding i .
  then have "ValidateHTTPUpstream (\<lambda>_. Some sample_upstream) ''http://localhost:8'' = Inr ()"
    by (simp add: ValidateHTTPUpstream_def sample_upstream_parts i) (simp add: sample_upstream_def ToLower_def lower_def)
  then show ?thesis by (simp add: NewHTTPHandler_def sample_authority)
qed

subsection \<open>What the local service sees, and what comes back\<close>

definition nominated :: "Header list \<Rightarrow> string \<Rightarrow> bool" where
  "nominated headers name \<longleftrightarrow> (\<exists>h\<in>set headers. h_Name h = ''connection'' \<and>
     name \<in> (\<lambda>n. ToLower (TrimSpace n)) ` set (Split (h_Value h) (CHR '','')))"

lemma blockedHeaders_iff: "name \<in> set (blockedHeaders headers) \<longleftrightarrow> name \<in> set hopHeaders \<or> nominated headers name"
  by (auto simp: blockedHeaders_def nominated_def)

text \<open>What a request to the local service looks like when the client sent \<open>headers\<close>.\<close>

definition own_header :: "string \<Rightarrow> bool" where
  "own_header n \<longleftrightarrow> n = ''x-forwarded-host'' \<or> n = ''x-forwarded-proto'' \<or> n = ''accept-encoding''"

definition passed_on :: "Header list \<Rightarrow> string \<Rightarrow> bool" where
  "passed_on headers n \<longleftrightarrow> n \<in> h_Name ` set headers \<and> n \<notin> set hopHeaders \<and> \<not> nominated headers n \<and>
     n \<noteq> ''host'' \<and> n \<noteq> ''forwarded'' \<and> \<not> HasPrefix n ''x-forwarded-''"

definition trusted_request :: "HTTPHandler \<Rightarrow> Header list \<Rightarrow> ApplicationRequest \<Rightarrow> HttpRequest \<Rightarrow> bool" where
  "trusted_request h headers request r \<longleftrightarrow>
     filter (\<lambda>x. own_header (fst x)) (hq_Header r) =
       [(''accept-encoding'', ''identity''), (''x-forwarded-host'', hh_authority h), (''x-forwarded-proto'', ''deep'')] \<and>
     (\<forall>(n, v)\<in>set (hq_Header r). own_header n \<or> passed_on headers n) \<and>
     hq_Host r = url_Host (hh_target h) \<and> ValidApplicationMethod (hq_Method r) \<and> hq_Method r = ar_Method request \<and>
     hq_Body r = ar_Body request \<and> length (hq_Body r) \<le> 1048576 \<and>
     (hq_Method r = ''GET'' \<or> hq_Method r = ''HEAD'' \<longrightarrow> hq_Body r = [])"

lemma forward_headers_passed:
  "x \<in> set (forward_headers parse render h headers) \<Longrightarrow> passed_on headers (fst x) \<and> \<not> own_header (fst x)"
proof -
  assume "x \<in> set (forward_headers parse render h headers)"
  then have "fst x \<in> h_Name ` set headers" "fst x \<notin> set hopHeaders" "\<not> nominated headers (fst x)"
    "fst x \<noteq> ''host''" "fst x \<noteq> ''accept-encoding''" "fst x \<noteq> ''forwarded''" "\<not> HasPrefix (fst x) ''x-forwarded-''"
    by (auto simp: forward_headers_def Let_def blockedHeaders_iff)
  moreover have "HasPrefix ''x-forwarded-host'' ''x-forwarded-''" "HasPrefix ''x-forwarded-proto'' ''x-forwarded-''"
    by (simp_all add: HasPrefix_def)
  ultimately show ?thesis unfolding passed_on_def own_header_def by metis
qed

lemma http_request_trusted:
  assumes "check_exchange path query request = Inr headers" "http_request parse render h path query request headers = Inr r"
  shows "trusted_request h headers request r"
proof -
  from assms(1) have c: "ValidApplicationMethod (ar_Method request)" "length (ar_Body request) \<le> 1048576"
    "ar_Method request = ''GET'' \<or> ar_Method request = ''HEAD'' \<longrightarrow> ar_Body request = []"
    by (auto simp: check_exchange_def Let_def MaxApplicationRequestBytes_def split: sum.splits if_splits)
  define fw where "fw = forward_headers parse render h headers"
  note f = forward_headers_passed [of _ parse render h headers, folded fw_def]
  have n: "filter (\<lambda>p. fst p \<noteq> ''accept-encoding'') fw = fw" "filter (\<lambda>p. fst p \<noteq> ''x-forwarded-host'') fw = fw"
    "filter (\<lambda>p. fst p \<noteq> ''x-forwarded-proto'') fw = fw" "filter (\<lambda>p. own_header (fst p)) fw = []"
    using f by (auto simp: filter_id_conv filter_empty_conv own_header_def simp del: split_paired_All)
  let ?own = "[(''accept-encoding'', ''identity''), (''x-forwarded-host'', hh_authority h), (''x-forwarded-proto'', ''deep'')]"
  from assms(2) have r: "hq_Header r = fw @ ?own" "hq_Host r = url_Host (hh_target h)" "hq_Method r = ar_Method request"
    "hq_Body r = ar_Body request"
    by (auto simp: http_request_def Header_Set_def fw_def [symmetric] n split: option.splits)
  have "filter (\<lambda>p. own_header (fst p)) ?own = ?own" by (simp add: own_header_def)
  moreover have "own_header n \<or> passed_on headers n" if "(n, v) \<in> set (hq_Header r)" for n v
    using that f [of "(n, v)"] by (auto simp: r own_header_def)
  ultimately show ?thesis unfolding trusted_request_def using c r n(4) by auto
qed


definition sample_http :: HTTPHandler where
  "sample_http = \<lparr>hh_target = sample_upstream, hh_authority = ''n.alpha''\<rparr>"

definition sample_answer :: HttpResponse where
  "sample_answer = \<lparr>hr_StatusCode = 200, hr_Header = [(''content-type'', [''text/plain'']), (''connection'', [''close''])],
     hr_ContentLength = 2, hr_Body = whole ''hi''\<rparr>"

abbreviation sample_get :: ApplicationRequest where
  "sample_get \<equiv> \<lparr>ar_Method = ''GET'', ar_Headers = None, ar_Body = []\<rparr>"


lemma ReadAll_limit_Inr:
  assumes "ReadAll_limit n r = Inr data" "length data < n"
  shows "data = stream r" "r_end r = EOF"
  using assms by (auto simp: ReadAll_limit_def split: if_splits)


lemma sample_exchange:
  "\<exists>x. HTTPHandler_Exchange (\<lambda>_. None) (\<lambda>_. []) (\<lambda>_. []) (\<lambda>r. Inr sample_answer) None sample_http ''/'' [] sample_get =
     (Inr x, True) \<and> ap_Status x = 200"
proof -
  have "is_ok (ValidateResource ''/'' [])"
    by (auto simp: ValidateResource_ok MaxURILength_def component_char_def intro!: component_chr)
  then have "check_exchange ''/'' [] sample_get = Inr []"
    by (simp add: check_exchange_def is_ok_unit ValidApplicationMethod_def MaxApplicationRequestBytes_def
        ValidateApplicationHeaders_def Let_def)
  moreover have "\<exists>x. http_response (\<lambda>_. None) (\<lambda>_. []) (\<lambda>_. []) sample_http ''GET'' sample_answer = Inr x \<and> ap_Status x = 200"
    by (simp add: http_response_def sample_answer_def Header_Get_def MaxApplicationResponseBytes_def ReadAll_limit_def
        validateMediaType_def Let_def raw_headers_def response_headers_def blockedHeaders_def hopHeaders_def ToLower_def
        lower_def ValidateApplicationHeaders_def)
  ultimately show ?thesis by (auto simp: HTTPHandler_Exchange_def http_request_def)
qed


subsection \<open>Slots are neither lost nor exceeded\<close>

definition open_bodies :: "slot_state \<Rightarrow> nat" where
  "open_bodies s = length (filter Not (sl_bodies s))"

lemma count_close:
  "i < length bs \<Longrightarrow> \<not> bs ! i \<Longrightarrow> Suc (length (filter Not (bs[i := True]))) = length (filter Not bs)"
proof (induction bs arbitrary: i)
  case (Cons b bs)
  then show ?case by (cases i) auto
qed simp

inductive_cases slot_stepE: "slot_step s s'"



end
