(* ===== verification/Node.thy ===== *)
theory Node
  imports Config Upstream
begin

text \<open>
  A node: \<open>deep serve\<close> of \<open>src/cmd/deep/config.go\<close>, from its configuration file to the start of
  \<open>Serve\<close> in \<open>src/server.go\<close>. Reading files, resolving symbolic links, loading key pairs,
  opening the served directory and listening are arguments.
\<close>

subsection \<open>The configuration file\<close>

record serverConfig =
  sc_Version :: int
  sc_Authority :: string
  sc_Listen :: string
  sc_Root :: string
  sc_Upstream :: string
  sc_Certificate :: string
  sc_PrivateKey :: string
  sc_AccessMode :: string
  sc_AllowedClientPins :: "string list option"
  sc_HandshakeTimeoutSeconds :: int
  sc_IdleTimeoutSeconds :: int
  sc_TransferTimeoutSeconds :: int
  sc_SessionTimeoutSeconds :: int
  sc_MaxConnections :: int
  sc_MaxConnectionsPerPeer :: int
  sc_MaxRequestsPerSession :: "32 word"
  sc_MaxBytes :: int
  sc_RequestsPerMinute :: int

definition set_uint32 :: "(32 word \<Rightarrow> 'a \<Rightarrow> 'a) \<Rightarrow> 'a setter" where
  "set_uint32 upd v x =
     (case v of JNumber s \<Rightarrow> map_option (\<lambda>n. upd (word_of_nat n) x) (ParseUint10 32 s)
      | JNull \<Rightarrow> Some x | _ \<Rightarrow> None)"

definition serverConfig_shape :: shape where
  "serverConfig_shape = Struct
     [(''version'', False, Plain), (''authority'', False, Plain), (''listen'', False, Plain),
      (''root'', True, Plain), (''upstream'', True, Plain), (''certificate'', False, Plain),
      (''private_key'', False, Plain), (''access_mode'', False, Plain),
      (''allowed_client_pins'', True, SliceOf Plain), (''handshake_timeout_seconds'', True, Plain),
      (''idle_timeout_seconds'', True, Plain), (''transfer_timeout_seconds'', True, Plain),
      (''session_timeout_seconds'', True, Plain), (''max_connections'', True, Plain),
      (''max_connections_per_peer'', True, Plain), (''max_requests_per_session'', True, Plain),
      (''max_bytes'', True, Plain), (''requests_per_minute'', True, Plain)]"

definition serverConfig_table :: "serverConfig table" where
  "serverConfig_table =
     [(''version'', set_int (\<lambda>i c. c\<lparr>sc_Version := i\<rparr>)),
      (''authority'', set_string (\<lambda>s c. c\<lparr>sc_Authority := s\<rparr>)),
      (''listen'', set_string (\<lambda>s c. c\<lparr>sc_Listen := s\<rparr>)),
      (''root'', set_string (\<lambda>s c. c\<lparr>sc_Root := s\<rparr>)),
      (''upstream'', set_string (\<lambda>s c. c\<lparr>sc_Upstream := s\<rparr>)),
      (''certificate'', set_string (\<lambda>s c. c\<lparr>sc_Certificate := s\<rparr>)),
      (''private_key'', set_string (\<lambda>s c. c\<lparr>sc_PrivateKey := s\<rparr>)),
      (''access_mode'', set_string (\<lambda>s c. c\<lparr>sc_AccessMode := s\<rparr>)),
      (''allowed_client_pins'', set_slice decode_string (\<lambda>ps c. c\<lparr>sc_AllowedClientPins := ps\<rparr>)),
      (''handshake_timeout_seconds'', set_int (\<lambda>i c. c\<lparr>sc_HandshakeTimeoutSeconds := i\<rparr>)),
      (''idle_timeout_seconds'', set_int (\<lambda>i c. c\<lparr>sc_IdleTimeoutSeconds := i\<rparr>)),
      (''transfer_timeout_seconds'', set_int (\<lambda>i c. c\<lparr>sc_TransferTimeoutSeconds := i\<rparr>)),
      (''session_timeout_seconds'', set_int (\<lambda>i c. c\<lparr>sc_SessionTimeoutSeconds := i\<rparr>)),
      (''max_connections'', set_int (\<lambda>i c. c\<lparr>sc_MaxConnections := i\<rparr>)),
      (''max_connections_per_peer'', set_int (\<lambda>i c. c\<lparr>sc_MaxConnectionsPerPeer := i\<rparr>)),
      (''max_requests_per_session'', set_uint32 (\<lambda>n c. c\<lparr>sc_MaxRequestsPerSession := n\<rparr>)),
      (''max_bytes'', set_int (\<lambda>i c. c\<lparr>sc_MaxBytes := i\<rparr>)),
      (''requests_per_minute'', set_int (\<lambda>i c. c\<lparr>sc_RequestsPerMinute := i\<rparr>))]"

definition serverConfig_zero :: serverConfig where
  "serverConfig_zero =
     \<lparr>sc_Version = 0, sc_Authority = [], sc_Listen = [], sc_Root = [], sc_Upstream = [], sc_Certificate = [],
      sc_PrivateKey = [], sc_AccessMode = [], sc_AllowedClientPins = None, sc_HandshakeTimeoutSeconds = 0,
      sc_IdleTimeoutSeconds = 0, sc_TransferTimeoutSeconds = 0, sc_SessionTimeoutSeconds = 0,
      sc_MaxConnections = 0, sc_MaxConnectionsPerPeer = 0, sc_MaxRequestsPerSession = 0, sc_MaxBytes = 0,
      sc_RequestsPerMinute = 0\<rparr>"

text \<open>The number of pins; a nil slice has none.\<close>

definition pins_of :: "serverConfig \<Rightarrow> string list" where
  "pins_of c = (case sc_AllowedClientPins c of None \<Rightarrow> [] | Some ps \<Rightarrow> ps)"

definition limit_items :: "serverConfig \<Rightarrow> (int \<times> int) list" where
  "limit_items c =
     [(sc_HandshakeTimeoutSeconds c, 60), (sc_IdleTimeoutSeconds c, 600), (sc_TransferTimeoutSeconds c, 3600),
      (sc_SessionTimeoutSeconds c, 86400), (sc_MaxConnections c, 4096), (sc_MaxConnectionsPerPeer c, 4096),
      (uint (sc_MaxRequestsPerSession c), 1000000), (sc_MaxBytes c, 2 ^ 40), (sc_RequestsPerMinute c, 1000000)]"

definition check_server :: "(string \<Rightarrow> URL option) \<Rightarrow> serverConfig \<Rightarrow> check" where
  "check_server parse config =
     (if sc_Version config \<noteq> 2
        then Inl (Errorf ''DEEP requires configuration version 2 and ML-DSA-65 identities; see docs/MIGRATION-V2.md'')
      else if (sc_Root config = []) = (sc_Upstream config = []) \<or> sc_Certificate config = [] \<or>
              sc_PrivateKey config = [] \<or> sc_Listen config = []
        then Inl (Errorf ''exactly one of root/upstream, plus certificate, private_key, and listen are required'')
      else case (if sc_Upstream config \<noteq> [] then ValidateHTTPUpstream parse (sc_Upstream config) else Inr ()) of
        Inl e \<Rightarrow> Inl e
      | Inr _ \<Rightarrow>
     (case ValidateAuthority (sc_Authority config) of
        Inl e \<Rightarrow> Inl e
      | Inr _ \<Rightarrow>
     (case SplitHostPort (sc_Listen config) of
        Inl e \<Rightarrow> Inl (Wrapf ''invalid listen address'' e)
      | Inr _ \<Rightarrow>
          if sc_AccessMode config \<noteq> ''private'' \<and> sc_AccessMode config \<noteq> ''public''
            then Inl (Errorf ''access_mode must be private or public'')
          else if sc_AccessMode config = ''private'' \<and> length (pins_of config) = 0
            then Inl (Errorf ''private servers require a nonempty allowed_client_pins list'')
          else if sc_AccessMode config = ''public'' \<and> length (pins_of config) \<noteq> 0
            then Inl (Errorf ''public servers must not set allowed_client_pins'')
          else if length (pins_of config) > MaxClientPins
            then Inl (Errorf ''allowed_client_pins exceeds 256 entries'')
          else if list_ex (\<lambda>(v, most). v < 0 \<or> v > most) (limit_items config)
            then Inl (Errorf ''a limit is out of range'')
          else Inr ())))"

definition default_limits :: "serverConfig \<Rightarrow> serverConfig res" where
  "default_limits c =
     (let conns = (if sc_MaxConnections c = 0 then 128 else sc_MaxConnections c);
          peer = (if sc_MaxConnectionsPerPeer c = 0 then min 16 conns else sc_MaxConnectionsPerPeer c)
      in if peer > conns then Inl (Errorf ''max_connections_per_peer exceeds max_connections'')
         else Inr (c\<lparr>sc_MaxConnections := conns, sc_MaxConnectionsPerPeer := peer,
           sc_HandshakeTimeoutSeconds := (if sc_HandshakeTimeoutSeconds c = 0 then 5 else sc_HandshakeTimeoutSeconds c),
           sc_IdleTimeoutSeconds := (if sc_IdleTimeoutSeconds c = 0 then 30 else sc_IdleTimeoutSeconds c),
           sc_TransferTimeoutSeconds := (if sc_TransferTimeoutSeconds c = 0 then 30 else sc_TransferTimeoutSeconds c),
           sc_SessionTimeoutSeconds := (if sc_SessionTimeoutSeconds c = 0 then 3600 else sc_SessionTimeoutSeconds c),
           sc_MaxRequestsPerSession := (if sc_MaxRequestsPerSession c = 0 then 1000 else sc_MaxRequestsPerSession c),
           sc_MaxBytes := (if sc_MaxBytes c = 0 then 2 ^ 30 else sc_MaxBytes c),
           sc_RequestsPerMinute := (if sc_RequestsPerMinute c = 0 then 120 else sc_RequestsPerMinute c)\<rparr>))"

definition beside :: "string \<Rightarrow> string \<Rightarrow> string" where
  "beside base p = (if p \<noteq> [] \<and> \<not> IsAbs p then Join [base, p] else p)"

definition loadServerConfig :: "(string \<Rightarrow> URL option) \<Rightarrow> (string \<Rightarrow> bytes res) \<Rightarrow> string \<Rightarrow> serverConfig res" where
  "loadServerConfig parse disk path =
     (case disk path of
        Inl e \<Rightarrow> Inl e
      | Inr content \<Rightarrow>
          (let data = take 65537 content
           in if length data > 65536 then Inl (Errorf ''server.json exceeds 64 KiB'')
              else case DecodeConfigJSON serverConfig_shape serverConfig_table serverConfig_zero data of
                Inl e \<Rightarrow> Inl (Wrapf ''invalid V2 server configuration (see docs/MIGRATION-V2.md)'' e)
              | Inr config \<Rightarrow>
             (case check_server parse config of
                Inl e \<Rightarrow> Inl e
              | Inr _ \<Rightarrow>
             (case default_limits config of
                Inl e \<Rightarrow> Inl e
              | Inr config' \<Rightarrow>
                  Inr (config'\<lparr>sc_Root := beside (Dir path) (sc_Root config'),
                     sc_Certificate := beside (Dir path) (sc_Certificate config'),
                     sc_PrivateKey := beside (Dir path) (sc_PrivateKey config')\<rparr>)))))"

subsection \<open>Paths\<close>

text \<open>\<open>eval\<close> is \<open>filepath.EvalSymlinks\<close>.\<close>

definition canonicalPath :: "(string \<Rightarrow> string res) \<Rightarrow> string \<Rightarrow> string \<Rightarrow> string res" where
  "canonicalPath eval cwd path = eval (Abs cwd path)"

fun check_sensitive :: "(string \<Rightarrow> string res) \<Rightarrow> string \<Rightarrow> string \<Rightarrow> string list \<Rightarrow> check" where
  "check_sensitive eval cwd root [] = Inr ()"
| "check_sensitive eval cwd root (sensitive # ps) =
     (case canonicalPath eval cwd sensitive of
        Inl e \<Rightarrow> Inl (Wrapf ''resolve identity/configuration'' e)
      | Inr path \<Rightarrow>
          (case Rel root path of
             None \<Rightarrow> Inl (Errorf ''cannot make path relative'')
           | Some relative \<Rightarrow>
               if relative = ''.'' \<or> (relative \<noteq> ''..'' \<and> \<not> HasPrefix relative ''../'' \<and> \<not> IsAbs relative)
                 then Inl (Errorf ''identity and configuration files must be outside the served content root'')
               else check_sensitive eval cwd root ps))"

definition validateServingPaths ::
    "(string \<Rightarrow> URL option) \<Rightarrow> (string \<Rightarrow> string res) \<Rightarrow> string \<Rightarrow> string \<Rightarrow> serverConfig \<Rightarrow> check" where
  "validateServingPaths parse eval cwd configPath config =
     (if sc_Upstream config \<noteq> [] then ValidateHTTPUpstream parse (sc_Upstream config)
      else case canonicalPath eval cwd (sc_Root config) of
        Inl e \<Rightarrow> Inl (Wrapf ''resolve content root'' e)
      | Inr root \<Rightarrow> check_sensitive eval cwd root [configPath, sc_Certificate config, sc_PrivateKey config])"

subsection \<open>Starting\<close>

text \<open>The beginning of \<open>Serve\<close>: the server it goes on with.\<close>

definition Serve_start :: "crypto \<Rightarrow> int \<Rightarrow> Server \<Rightarrow> tlsConfig option \<Rightarrow> bool \<Rightarrow> Server res" where
  "Serve_start k now s tls hasHandler =
     (case ValidateAuthority (s_Authority s) of
        Inl e \<Rightarrow> Inl e
      | Inr _ \<Rightarrow>
     (case tls of
        None \<Rightarrow> Inl (Errorf ''server requires TLS identity and resource handler'')
      | Some config \<Rightarrow>
          if \<not> hasHandler then Inl (Errorf ''server requires TLS identity and resource handler'')
          else (case configured s of
              Inl e \<Rightarrow> Inl e
            | Inr s' \<Rightarrow>
                if length (g_Certificates config) \<noteq> 1 then Inl (Errorf ''server requires exactly one static identity'')
                else (case ValidateServerIdentity k now (g_Certificates config ! 0) (s_Authority s') of
                    Inl e \<Rightarrow> Inl e | Inr _ \<Rightarrow> Inr s'))))"

datatype provider = FileProvider directory | HTTPProvider HTTPHandler

definition node_server :: "serverConfig \<Rightarrow> Server" where
  "node_server config =
     \<lparr>s_Authority = sc_Authority config, s_Timeout = sc_TransferTimeoutSeconds config * Second,
      s_MaxConnections = sc_MaxConnections config, s_MaxConnectionsPerPeer = sc_MaxConnectionsPerPeer config,
      s_MaxRequestsPerSession = sc_MaxRequestsPerSession config, s_MaxBytes = sc_MaxBytes config,
      s_RequestsPerMinute = sc_RequestsPerMinute config,
      s_HandshakeTimeout = sc_HandshakeTimeoutSeconds config * Second,
      s_IdleTimeout = sc_IdleTimeoutSeconds config * Second,
      s_SessionTimeout = sc_SessionTimeoutSeconds config * Second\<rparr>"

text \<open>\<open>serveNode\<close> up to the call of \<open>Serve\<close>: the server, its TLS configuration and its provider.\<close>

definition serveNode ::
    "crypto \<Rightarrow> int \<Rightarrow> (string \<Rightarrow> URL option) \<Rightarrow> (string \<Rightarrow> bytes res) \<Rightarrow> (string \<Rightarrow> string res) \<Rightarrow> string \<Rightarrow>
     (string \<Rightarrow> string \<Rightarrow> TLSCertificate res) \<Rightarrow> (string \<Rightarrow> directory res) \<Rightarrow> (string \<Rightarrow> check) \<Rightarrow> string \<Rightarrow>
     (Server \<times> tlsConfig \<times> provider) res" where
  "serveNode k now parse disk eval cwd keyPair openRoot listen path =
     (case loadServerConfig parse disk path of
        Inl e \<Rightarrow> Inl e
      | Inr config \<Rightarrow>
     (case validateServingPaths parse eval cwd path config of
        Inl e \<Rightarrow> Inl e
      | Inr _ \<Rightarrow>
     (case keyPair (sc_Certificate config) (sc_PrivateKey config) of
        Inl e \<Rightarrow> Inl (Wrapf ''load identity'' e)
      | Inr identity \<Rightarrow>
     (case ValidateServerIdentity k now identity (sc_Authority config) of
        Inl e \<Rightarrow> Inl e
      | Inr _ \<Rightarrow>
     (case (if sc_AccessMode config = ''private'' then ServerTLSConfigWithClientPins k now identity (pins_of config)
            else Inr (ServerTLSConfig k identity)) of
        Inl e \<Rightarrow> Inl e
      | Inr transport \<Rightarrow>
     (case (if sc_Upstream config \<noteq> []
            then map_sum id HTTPProvider (NewHTTPHandler parse (sc_Upstream config) (sc_Authority config))
            else map_sum id FileProvider (openRoot (sc_Root config))) of
        Inl e \<Rightarrow> Inl e
      | Inr provider \<Rightarrow>
     (case listen (sc_Listen config) of
        Inl e \<Rightarrow> Inl e
      | Inr _ \<Rightarrow> Inr (node_server config, transport, provider))))))))"

subsection \<open>An accepted node starts\<close>

lemma loadServerConfig_Inr:
  assumes "loadServerConfig parse disk path = Inr config"
  obtains c c' where "check_server parse c = Inr ()" "default_limits c = Inr c'"
    "config = c'\<lparr>sc_Root := beside (Dir path) (sc_Root c'), sc_Certificate := beside (Dir path) (sc_Certificate c'),
       sc_PrivateKey := beside (Dir path) (sc_PrivateKey c')\<rparr>"
  using assms by (auto simp: loadServerConfig_def Let_def split: sum.splits if_splits)

lemma node_server_beside:
  "node_server (c\<lparr>sc_Root := a, sc_Certificate := b, sc_PrivateKey := d\<rparr>) = node_server c"
  by (simp add: node_server_def)

lemma default_limits_fields:
  assumes "default_limits c = Inr c'"
  shows
    "sc_MaxConnections c' = (if sc_MaxConnections c = 0 then 128 else sc_MaxConnections c)"
    "sc_MaxConnectionsPerPeer c' = (if sc_MaxConnectionsPerPeer c = 0 then min 16 (sc_MaxConnections c') else sc_MaxConnectionsPerPeer c)"
    "sc_HandshakeTimeoutSeconds c' = (if sc_HandshakeTimeoutSeconds c = 0 then 5 else sc_HandshakeTimeoutSeconds c)"
    "sc_IdleTimeoutSeconds c' = (if sc_IdleTimeoutSeconds c = 0 then 30 else sc_IdleTimeoutSeconds c)"
    "sc_TransferTimeoutSeconds c' = (if sc_TransferTimeoutSeconds c = 0 then 30 else sc_TransferTimeoutSeconds c)"
    "sc_SessionTimeoutSeconds c' = (if sc_SessionTimeoutSeconds c = 0 then 3600 else sc_SessionTimeoutSeconds c)"
    "sc_MaxRequestsPerSession c' = (if sc_MaxRequestsPerSession c = 0 then 1000 else sc_MaxRequestsPerSession c)"
    "sc_MaxBytes c' = (if sc_MaxBytes c = 0 then 2 ^ 30 else sc_MaxBytes c)"
    "sc_RequestsPerMinute c' = (if sc_RequestsPerMinute c = 0 then 120 else sc_RequestsPerMinute c)"
    "sc_MaxConnectionsPerPeer c' \<le> sc_MaxConnections c'"
  using assms unfolding default_limits_def Let_def by (simp_all only: res_simps) (clarsimp simp: not_less)+

lemma limits_configured:
  assumes "check_server parse c = Inr ()" "default_limits c = Inr c'"
  shows "configured (node_server c') = Inr (node_server c')"
proof -
  from assms(1) have "\<not> list_ex (\<lambda>(v, most). v < 0 \<or> v > most) (limit_items c)"
    unfolding check_server_def by (simp add: res_simps)
  then have "\<forall>(v, most)\<in>set (limit_items c). 0 \<le> v \<and> v \<le> most" by (auto simp: list_ex_iff not_less)
  then have l: "0 \<le> sc_HandshakeTimeoutSeconds c" "sc_HandshakeTimeoutSeconds c \<le> 60"
    "0 \<le> sc_IdleTimeoutSeconds c" "sc_IdleTimeoutSeconds c \<le> 600"
    "0 \<le> sc_TransferTimeoutSeconds c" "sc_TransferTimeoutSeconds c \<le> 3600"
    "0 \<le> sc_SessionTimeoutSeconds c" "sc_SessionTimeoutSeconds c \<le> 86400"
    "0 \<le> sc_MaxConnections c" "sc_MaxConnections c \<le> 4096"
    "0 \<le> sc_MaxConnectionsPerPeer c" "sc_MaxConnectionsPerPeer c \<le> 4096"
    "uint (sc_MaxRequestsPerSession c) \<le> 1000000" "0 \<le> sc_MaxBytes c" "sc_MaxBytes c \<le> 2 ^ 40"
    "0 \<le> sc_RequestsPerMinute c" "sc_RequestsPerMinute c \<le> 1000000"
    by (simp_all add: limit_items_def)
  have w: "sc_MaxRequestsPerSession c \<le> 1000000" using l(13) by (simp add: word_le_def)
  note f = default_limits_fields [OF assms(2)]
  define s where "s = node_server c'"
  have "0 < sc_TransferTimeoutSeconds c'" "sc_TransferTimeoutSeconds c' \<le> 3600"
    "0 < sc_HandshakeTimeoutSeconds c'" "sc_HandshakeTimeoutSeconds c' \<le> 60"
    "0 < sc_IdleTimeoutSeconds c'" "sc_IdleTimeoutSeconds c' \<le> 600"
    "0 < sc_SessionTimeoutSeconds c'" "sc_SessionTimeoutSeconds c' \<le> 86400"
    using l by (simp_all add: f(3-6))
  then have t: "0 < s_Timeout s" "s_Timeout s \<le> Hour" "0 < s_HandshakeTimeout s" "s_HandshakeTimeout s \<le> Minute"
    "0 < s_IdleTimeout s" "s_IdleTimeout s \<le> Hour" "0 < s_SessionTimeout s" "s_SessionTimeout s \<le> 24 * Hour"
    by (simp_all add: s_def node_server_def Second_def Minute_def Hour_def)
  have m: "0 < sc_MaxConnections c'" "sc_MaxConnections c' \<le> 4096" using l by (simp_all add: f(1))
  have p: "0 < sc_MaxConnectionsPerPeer c'" using l m by (simp add: f(2))
  have "sc_MaxRequestsPerSession c' \<noteq> 0" "sc_MaxRequestsPerSession c' \<le> 1000000"
    "0 < sc_MaxBytes c'" "sc_MaxBytes c' \<le> MaxResourceSize"
    "0 < sc_RequestsPerMinute c'" "sc_RequestsPerMinute c' \<le> 1000000"
    using l w by (simp_all add: f(7-9) MaxResourceSize_def)
  with t m p f(10) have v: "0 < s_Timeout s" "s_Timeout s \<le> Hour" "0 < s_HandshakeTimeout s" "s_HandshakeTimeout s \<le> Minute"
    "0 < s_IdleTimeout s" "s_IdleTimeout s \<le> Hour" "0 < s_SessionTimeout s" "s_SessionTimeout s \<le> 24 * Hour"
    "0 < s_MaxConnections s" "s_MaxConnections s \<le> 4096" "0 < s_MaxConnectionsPerPeer s"
    "s_MaxConnectionsPerPeer s \<le> s_MaxConnections s" "s_MaxRequestsPerSession s \<noteq> 0"
    "s_MaxRequestsPerSession s \<le> 1000000" "0 < s_MaxBytes s" "s_MaxBytes s \<le> MaxResourceSize"
    "0 < s_RequestsPerMinute s" "s_RequestsPerMinute s \<le> 1000000"
    by (simp_all add: s_def node_server_def)
  then have "server_defaults s = s" by (simp add: server_defaults_def Let_def)
  with v have "configured s = Inr s" unfolding configured_def by (simp add: Let_def not_less)
  then show ?thesis by (simp add: s_def)
qed

text \<open>The TLS configuration presents the identity it was made from.\<close>

lemma ServerTLSConfig_identity:
  "\<exists>cert. g_Certificates (ServerTLSConfig k identity) = [cert] \<and>
     ValidateServerIdentity k now cert authority = ValidateServerIdentity k now identity authority"
  by (auto simp: ServerTLSConfig_def Let_def ValidateServerIdentity_def validateLocalIdentity_def identityLeaf_def
      split: sum.splits)

lemma private_certificates:
  "ServerTLSConfigWithClientPins k now identity pins = Inr config \<Longrightarrow>
     g_Certificates config = g_Certificates (ServerTLSConfig k identity)"
  by (auto simp: ServerTLSConfigWithClientPins_def Let_def split: sum.splits if_splits)

lemma serveNode_Inr:
  assumes "serveNode k now parse disk eval cwd keyPair openRoot listen path = Inr (server, transport, provider)"
  obtains config identity where "loadServerConfig parse disk path = Inr config"
    "validateServingPaths parse eval cwd path config = Inr ()"
    "ValidateServerIdentity k now identity (sc_Authority config) = Inr ()" "server = node_server config"
    "if sc_AccessMode config = ''private'' then ServerTLSConfigWithClientPins k now identity (pins_of config) = Inr transport
     else transport = ServerTLSConfig k identity"
  using assms unfolding serveNode_def by (auto split: sum.splits if_splits)

text \<open>
  A node that \<open>deep serve\<close> accepts starts: the server made of its configuration, with
  every default filled in, passes all checks at the beginning of \<open>Serve\<close> unchanged, so the
  limits of the file are the limits that are enforced.
\<close>

theorem accepted_node_starts:
  assumes "serveNode k now parse disk eval cwd keyPair openRoot listen path = Inr (server, transport, provider)"
  shows "Serve_start k now server (Some transport) True = Inr server"
proof -
  obtain config identity where l: "loadServerConfig parse disk path = Inr config"
    and i: "ValidateServerIdentity k now identity (sc_Authority config) = Inr ()" and s: "server = node_server config"
    and t: "if sc_AccessMode config = ''private'' then ServerTLSConfigWithClientPins k now identity (pins_of config) = Inr transport
     else transport = ServerTLSConfig k identity"
    by (rule serveNode_Inr [OF assms])
  have c: "configured server = Inr server"
    by (rule loadServerConfig_Inr [OF l]) (use limits_configured s in \<open>simp add: node_server_beside\<close>)
  have a: "ValidateAuthority (s_Authority server) = Inr ()"
    using i by (auto simp: s node_server_def ValidateServerIdentity_def split: sum.splits)
  obtain cert where "g_Certificates transport = [cert]"
    "ValidateServerIdentity k now cert (sc_Authority config) = Inr ()"
    using ServerTLSConfig_identity [of k identity now "sc_Authority config"] private_certificates t i
    by (fastforce split: if_splits)
  then show ?thesis using a c by (simp add: Serve_start_def s node_server_def)
qed

text \<open>
  Property C33: The configured access mode is enforced: a private node completes a handshake only
  with a client whose current ML-DSA-65 identity has one of the public-key digests listed in
  its configuration file, and only as the authority of that file or another one its own
  identity is valid for.
\<close>

theorem private_node_pins:
  assumes "serveNode k now parse disk eval cwd keyPair openRoot listen path = Inr (server, transport, provider)"
    "loadServerConfig parse disk path = Inr config" "sc_AccessMode config = ''private''"
    "g_VerifyConnection transport t state = Inr ()"
  shows "g_RequireAnyClientCert transport \<and> strong_channel state \<and>
     (\<exists>leaf name. t_PeerCertificates state = [leaf] \<and> identity_for k t leaf name ClientAuth \<and>
        (\<exists>pin\<in>set (pins_of config). DecodeString pin = Some (k_Sum256 k (x_RawSubjectPublicKeyInfo leaf))))"
proof -
  obtain config' identity where "loadServerConfig parse disk path = Inr config'"
    "if sc_AccessMode config' = ''private'' then ServerTLSConfigWithClientPins k now identity (pins_of config') = Inr transport
     else transport = ServerTLSConfig k identity"
    by (rule serveNode_Inr [OF assms(1)])
  with assms(2,3) have "ServerTLSConfigWithClientPins k now identity (pins_of config) = Inr transport" by simp
  from private_server_policy [OF this assms(4)] show ?thesis by blast
qed

subsection \<open>Secrets stay outside the served directory\<close>

lemma IsAbs_Clean: "IsAbs p \<Longrightarrow> IsAbs (Clean p)"
  by (simp add: Clean_def IsAbs_def HasPrefix_def)

lemma IsAbs_Abs:
  assumes "IsAbs cwd"
  shows "IsAbs (Abs cwd p)"
proof -
  obtain c where c: "cwd = CHR ''/'' # c" using assms by (auto simp: IsAbs_def HasPrefix_iff)
  have "IsAbs (join (CHR ''/'') (cwd # ps))" for ps by (cases ps) (simp_all add: c IsAbs_def HasPrefix_def)
  note this [THEN IsAbs_Clean]
  moreover have "\<exists>ps. filter (\<lambda>e. e \<noteq> []) [cwd, p] = cwd # ps" by (simp add: c)
  ultimately have "IsAbs (Join [cwd, p])" unfolding Join_def by (auto simp del: filter.simps)
  then show ?thesis by (simp add: Abs_def IsAbs_Clean)
qed

lemma Rel_inside:
  assumes "IsAbs root" "IsAbs p" "path_parts p = path_parts root @ rest"
  shows "\<exists>r. Rel root p = Some r \<and> (r = ''.'' \<or> (r \<noteq> ''..'' \<and> \<not> HasPrefix r ''../'' \<and> \<not> IsAbs r))"
proof (cases "rest = []")
  case True
  with assms show ?thesis by (simp add: Rel_def)
next
  case False
  then obtain q qs where q: "rest = q # qs" by (cases rest) auto
  have "q \<in> set (path_parts p)" using assms(3) q by simp
  note ok = path_parts_ok [OF this] path_parts_ok(4) [OF this assms(2)]
  have r: "Rel root p = Some (join (CHR ''/'') rest)"
    using assms False by (simp add: Rel_def strip_common_ext)
  obtain c cs where c: "q = c # cs" "c \<noteq> CHR ''/''" using ok(1,3) by (cases q) auto
  have j: "join (CHR ''/'') rest = q \<or> (\<exists>t. join (CHR ''/'') rest = q @ CHR ''/'' # t)" using q by (cases qs) auto
  then have "\<not> IsAbs (join (CHR ''/'') rest)" using c by (auto simp: IsAbs_def HasPrefix_def)
  moreover have "join (CHR ''/'') rest \<noteq> ''..''"
  proof
    assume e: "join (CHR ''/'') rest = ''..''"
    then have "CHR ''/'' \<notin> set (join (CHR ''/'') rest)" by simp
    with j have "join (CHR ''/'') rest = q" by auto
    with e ok(5) show False by simp
  qed
  moreover have "\<not> HasPrefix (join (CHR ''/'') rest) ''../''"
  proof
    assume "HasPrefix (join (CHR ''/'') rest) ''../''"
    then obtain u where u: "join (CHR ''/'') rest = ''..'' @ CHR ''/'' # u" by (auto simp: HasPrefix_iff)
    then have "CHR ''/'' \<in> set (join (CHR ''/'') rest)" by simp
    with j ok(3) obtain t where "join (CHR ''/'') rest = q @ CHR ''/'' # t" by auto
    then have "hd (Split (join (CHR ''/'') rest) (CHR ''/'')) = q" using ok(3) by (simp add: Split_append)
    moreover have "hd (Split (join (CHR ''/'') rest) (CHR ''/'')) = ''..''"
      unfolding u by (subst Split_append) simp_all
    ultimately show False using ok(5) by simp
  qed
  ultimately show ?thesis using r by blast
qed

lemma check_sensitive_Inr:
  "check_sensitive eval cwd root ps = Inr () \<Longrightarrow> s \<in> set ps \<Longrightarrow>
     \<exists>p r. canonicalPath eval cwd s = Inr p \<and> Rel root p = Some r \<and>
       \<not> (r = ''.'' \<or> (r \<noteq> ''..'' \<and> \<not> HasPrefix r ''../'' \<and> \<not> IsAbs r))"
  by (induction ps) (auto simp: res_simps split: option.splits if_splits sum.splits)

text \<open>
  Property C34: A node that serves files keeps its secrets out of reach: the canonical locations of
  its configuration file, certificate and private key are not the served directory and not
  below it. What is used of \<open>filepath.EvalSymlinks\<close> is that it maps absolute paths to absolute
  paths.
\<close>

theorem secrets_outside_root:
  assumes "validateServingPaths parse eval cwd configPath config = Inr ()" "sc_Upstream config = []" "IsAbs cwd"
    and "\<And>p q. IsAbs p \<Longrightarrow> eval p = Inr q \<Longrightarrow> IsAbs q"
    and "s \<in> {configPath, sc_Certificate config, sc_PrivateKey config}"
  shows "\<exists>root p. canonicalPath eval cwd (sc_Root config) = Inr root \<and> canonicalPath eval cwd s = Inr p \<and>
     \<not> (\<exists>rest. path_parts p = path_parts root @ rest)"
proof -
  from assms(1,2) obtain root where root: "canonicalPath eval cwd (sc_Root config) = Inr root"
    and c: "check_sensitive eval cwd root [configPath, sc_Certificate config, sc_PrivateKey config] = Inr ()"
    by (auto simp: validateServingPaths_def split: sum.splits)
  obtain p r where p: "canonicalPath eval cwd s = Inr p" "Rel root p = Some r"
    "\<not> (r = ''.'' \<or> (r \<noteq> ''..'' \<and> \<not> HasPrefix r ''../'' \<and> \<not> IsAbs r))"
    using check_sensitive_Inr [OF c, of s] assms(5) by auto
  have "IsAbs root" "IsAbs p"
    using assms(4) [OF IsAbs_Abs [OF assms(3)]] root p(1) by (auto simp: canonicalPath_def)
  from Rel_inside [OF this] p(2,3) have "\<not> (\<exists>rest. path_parts p = path_parts root @ rest)" by fastforce
  with root p(1) show ?thesis by blast
qed

subsection \<open>A sample node\<close>

definition sample_json :: "(bytes \<times> jvalue) list" where
  "sample_json =
     [(''version'', JNumber (Itoa 2)), (''authority'', JString ''n.alpha''), (''listen'', JString ''h:8''),
      (''root'', JString ''/srv''), (''certificate'', JString ''/k/c''), (''private_key'', JString ''/k/k''),
      (''access_mode'', JString ''private''), (''allowed_client_pins'', JArray [JString sample_pin])]"

definition sample_node :: serverConfig where
  "sample_node = serverConfig_zero\<lparr>sc_Version := 2, sc_Authority := ''n.alpha'', sc_Listen := ''h:8'', sc_Root := ''/srv'',
     sc_Certificate := ''/k/c'', sc_PrivateKey := ''/k/k'', sc_AccessMode := ''private'',
     sc_AllowedClientPins := Some [sample_pin]\<rparr>"

definition started_node :: serverConfig where
  "started_node = sample_node\<lparr>sc_MaxConnections := 128, sc_MaxConnectionsPerPeer := 16, sc_HandshakeTimeoutSeconds := 5,
     sc_IdleTimeoutSeconds := 30, sc_TransferTimeoutSeconds := 30, sc_SessionTimeoutSeconds := 3600,
     sc_MaxRequestsPerSession := 1000, sc_MaxBytes := 2 ^ 30, sc_RequestsPerMinute := 120\<rparr>"

lemma sample_json_decodes:
  "DecodeConfigJSON serverConfig_shape serverConfig_table serverConfig_zero (json_print (JObject sample_json)) = Inr sample_node"
  "length (json_print (JObject sample_json)) \<le> 65536"
proof -
  have u: "utf8_valid sample_pin" using sample_pin_plain by (intro utf8_valid_ascii) auto
  have e: "escape_body sample_pin = sample_pin"
    by (rule escape_body_plain) (simp add: sample_pin_def EncodeToString_def hex_digit_def)
  have "length (Itoa 2) \<le> 20" by (rule Itoa_length) (simp add: int64_ok_def)
  moreover have "length sample_pin = 64" by (simp add: sample_pin_def)
  ultimately show l: "length (json_print (JObject sample_json)) \<le> 65536"
    by (simp add: sample_json_def json_quote_def escape_body_plain e)
  show "DecodeConfigJSON serverConfig_shape serverConfig_table serverConfig_zero (json_print (JObject sample_json)) = Inr sample_node"
  proof (rule DecodeConfigJSON_print)
    show "config_tree (JObject sample_json) 0" by (simp add: sample_json_def config_tree_Object config_tree_Array)
    show "jwf (JObject sample_json)" using u by (auto simp: sample_json_def)
    show "conforms (JObject sample_json) serverConfig_shape"
      by (auto simp: sample_json_def serverConfig_shape_def conforms_kinds)
    show "decode_members serverConfig_table sample_json serverConfig_zero = Some sample_node"
      by (simp add: sample_json_def serverConfig_table_def find_field_exact set_int_def set_string_def set_slice_def decode_string_def
          ParseInt10_Itoa sample_node_def serverConfig_zero_def)
    show "length (json_print (JObject sample_json)) \<le> 1024 * 1024" using l by (simp del: json_print.simps)
  qed
qed

lemma sample_node_loads:
  "loadServerConfig parse (\<lambda>_. Inr (json_print (JObject sample_json))) ''/etc/s.json'' = Inr started_node"
proof -
  define data where "data = json_print (JObject sample_json)"
  have s: "SplitHostPort ''h:8'' = Inr (''h'', ''8'')" using SplitHostPort_plain [of "''h''" "''8''"] by simp
  have c: "check_server parse sample_node = Inr ()"
    by (simp add: check_server_def sample_node_def serverConfig_zero_def sample_authority s pins_of_def MaxClientPins_def limit_items_def)
  have d: "default_limits sample_node = Inr started_node"
    by (simp add: default_limits_def started_node_def sample_node_def serverConfig_zero_def Let_def)
  have "loadServerConfig parse (\<lambda>_. Inr data) ''/etc/s.json'' =
      Inr (started_node\<lparr>sc_Root := beside (Dir ''/etc/s.json'') (sc_Root started_node),
        sc_Certificate := beside (Dir ''/etc/s.json'') (sc_Certificate started_node),
        sc_PrivateKey := beside (Dir ''/etc/s.json'') (sc_PrivateKey started_node)\<rparr>)"
    using sample_json_decodes [folded data_def] c d by (simp add: loadServerConfig_def Let_def)
  also have "\<dots> = Inr started_node"
    by (simp add: beside_def started_node_def sample_node_def serverConfig_zero_def IsAbs_def HasPrefix_def)
  finally show ?thesis by (simp only: data_def)
qed

lemma sample_paths: "validateServingPaths parse Inr ''/'' ''/etc/s.json'' started_node = Inr ()"
  by (simp add: validateServingPaths_def canonicalPath_def started_node_def sample_node_def serverConfig_zero_def Abs_def
      Clean_def IsAbs_def HasPrefix_def path_parts_def Rel_def)

theorem secrets_outside_root_witness:
  "\<exists>root p. canonicalPath Inr ''/'' ''/srv'' = Inr root \<and> canonicalPath Inr ''/'' ''/k/k'' = Inr p \<and>
     path_parts p \<noteq> path_parts root"
  using secrets_outside_root [OF sample_paths, of "''/k/k''"]
  by (auto simp: started_node_def sample_node_def serverConfig_zero_def IsAbs_def HasPrefix_def)

abbreviation sample_start :: "(Server \<times> tlsConfig \<times> provider) res" where
  "sample_start \<equiv> serveNode sample_crypto 5 (\<lambda>_. None) (\<lambda>_. Inr (json_print (JObject sample_json))) Inr ''/''
     (\<lambda>_ _. Inr sample_cert) (\<lambda>_. Inr (\<lambda>_. tree_snapshot sample_tree)) (\<lambda>_. Inr ()) ''/etc/s.json''"

lemma sample_starts:
  "\<exists>transport. sample_start = Inr (node_server started_node, transport, FileProvider (\<lambda>_. tree_snapshot sample_tree)) \<and>
     g_VerifyConnection transport 5 (sample_state [sample_leaf ''n.alpha'' ClientAuth]) = Inr ()"
proof -
  define data where "data = json_print (JObject sample_json)"
  note l = sample_node_loads [folded data_def]
  obtain transport where t: "ServerTLSConfigWithClientPins sample_crypto 5 sample_cert [sample_pin] = Inr transport"
    "g_VerifyConnection transport 5 (sample_state [sample_leaf ''n.alpha'' ClientAuth]) = Inr ()"
    using sample_private_config by blast
  have f: "sc_AccessMode started_node = ''private''" "pins_of started_node = [sample_pin]" "sc_Upstream started_node = []"
    "sc_Authority started_node = ''n.alpha''"
    by (simp_all add: started_node_def sample_node_def serverConfig_zero_def pins_of_def)
  have i: "ValidateServerIdentity sample_crypto 5 sample_cert ''n.alpha'' = Inr ()"
    by (simp add: ValidateServerIdentity_def sample_authority sample_server_identity)
  show ?thesis using t unfolding data_def [symmetric] by (simp add: serveNode_def l sample_paths f i)
qed

theorem private_node_pins_witness:
  "\<exists>transport. sample_start = Inr (node_server started_node, transport, FileProvider (\<lambda>_. tree_snapshot sample_tree)) \<and>
     g_VerifyConnection transport 5 (sample_state [sample_leaf ''n.alpha'' ClientAuth]) = Inr () \<and>
     g_RequireAnyClientCert transport"
proof -
  obtain transport where t: "sample_start = Inr (node_server started_node, transport, FileProvider (\<lambda>_. tree_snapshot sample_tree))"
    "g_VerifyConnection transport 5 (sample_state [sample_leaf ''n.alpha'' ClientAuth]) = Inr ()"
    using sample_starts by blast
  have "sc_AccessMode started_node = ''private''" by (simp add: started_node_def sample_node_def serverConfig_zero_def)
  from private_node_pins [OF t(1) sample_node_loads this t(2)] t show ?thesis by blast
qed

end
