(* ===== verification/Terminal.thy ===== *)
theory Terminal
  imports ConfigJson
begin

text \<open>
  \<open>terminalText\<close> of \<open>src/cmd/deep/preview.go\<close>: what the command line prints of text it does not
  control.
\<close>

subsection \<open>Runes and their encodings\<close>

lemma low_bits: "z < 64 \<Longrightarrow> (a * 64 + z) div 64 = a" "z < 64 \<Longrightarrow> (a * 64 + z) mod 64 = z" for a z :: nat
  by simp_all

lemma decode_rune_encode:
  assumes "decode_rune bs = Some (r, n)"
  shows "take n bs = encode_rune r"
  using assms
proof (cases rule: decode_runeE)
  case (one b t)
  then show ?thesis by (simp add: encode_rune_def)
next
  case (two b0 b1 t)
  obtain x y where x: "ord b0 = 192 + x" "ord b1 = 128 + y" "2 \<le> x" "x < 32" "y < 64"
    using two that [of "ord b0 - 192" "ord b1 - 128"] by (auto simp: cont_def)
  then have "r = x * 64 + y" using two by simp
  then have "r div 64 = x" "r mod 64 = y" "128 \<le> r" "r < 2048" using x by auto
  with x two show ?thesis by (auto simp: encode_rune_def ord_eq_iff)
next
  case (three b0 b1 b2 t)
  obtain x y z where x: "ord b0 = 224 + x" "ord b1 = 128 + y" "ord b2 = 128 + z" "x < 16" "y < 64" "z < 64"
    using three that [of "ord b0 - 224" "ord b1 - 128" "ord b2 - 128"] by (auto simp: cont_def)
  have r: "r = x * 4096 + y * 64 + z" using three x by simp
  have "r = (x * 64 + y) * 64 + z" using r by simp
  with low_bits [OF x(6), of "x * 64 + y"] have d: "r div 64 = x * 64 + y" "r mod 64 = z" by simp_all
  then have "r div 64 mod 64 = y" "r div 4096 = x" using x div_mult2_eq [of r 64 64] by auto
  moreover have "\<not> (55296 \<le> r \<and> r \<le> 57343)"
  proof -
    consider "x \<le> 12" | "x = 13" "y \<le> 31" | "14 \<le> x"
      using three(7) x(1,2) by (cases "x = 13"; cases "x \<le> 12") (auto simp: not_le)
    then show ?thesis using x(5,6) r by cases linarith+
  qed
  moreover have "2048 \<le> r" "r < 65536" using three x r by auto
  ultimately show ?thesis using x three d by (auto simp: encode_rune_def ord_eq_iff)
next
  case (four b0 b1 b2 b3 t)
  obtain w x y z where x: "ord b0 = 240 + w" "ord b1 = 128 + x" "ord b2 = 128 + y" "ord b3 = 128 + z"
    "w < 5" "x < 64" "y < 64" "z < 64"
    using four that [of "ord b0 - 240" "ord b1 - 128" "ord b2 - 128" "ord b3 - 128"] by (auto simp: cont_def)
  have r: "r = w * 262144 + x * 4096 + y * 64 + z" using four x by simp
  have "r = ((w * 64 + x) * 64 + y) * 64 + z" using r by simp
  with low_bits [OF x(8), of "(w * 64 + x) * 64 + y"] have d: "r div 64 = (w * 64 + x) * 64 + y" "r mod 64 = z" by simp_all
  have d2: "r div 64 mod 64 = y" "r div 4096 = w * 64 + x"
    using low_bits [OF x(7), of "w * 64 + x"] div_mult2_eq [of r 64 64] unfolding d(1) by simp_all
  have "r div 4096 mod 64 = x" "r div 262144 = w"
    using low_bits [OF x(6), of w] div_mult2_eq [of r 4096 64] unfolding d2(2) by simp_all
  moreover have "65536 \<le> r" "r \<le> 1114111" using four x r by auto
  ultimately show ?thesis using x four d d2 by (auto simp: encode_rune_def ord_eq_iff)
qed

subsection \<open>Printing\<close>

text \<open>\<open>strconv.QuoteRuneToASCII\<close> without its quotes.\<close>

definition quote_rune :: "nat \<Rightarrow> string" where
  "quote_rune r =
     (if r = 39 \<or> r = 92 then [CHR 0x5C, char_of r]
      else if 32 \<le> r \<and> r < 127 then [char_of r]
      else if r = 7 then [CHR 0x5C, CHR ''a''] else if r = 8 then [CHR 0x5C, CHR ''b'']
      else if r = 12 then [CHR 0x5C, CHR ''f''] else if r = 10 then [CHR 0x5C, CHR ''n'']
      else if r = 13 then [CHR 0x5C, CHR ''r''] else if r = 9 then [CHR 0x5C, CHR ''t'']
      else if r = 11 then [CHR 0x5C, CHR ''v'']
      else if r < 32 \<or> r = 127 then [CHR 0x5C, CHR ''x'', hex_digit (r div 16), hex_digit (r mod 16)]
      else if r < 65536 then [CHR 0x5C, CHR ''u''] @ map (\<lambda>i. hex_digit (r div 16 ^ i mod 16)) [3, 2, 1, 0]
      else [CHR 0x5C, CHR ''U''] @ map (\<lambda>i. hex_digit (r div 16 ^ i mod 16)) [7, 6, 5, 4, 3, 2, 1, 0])"

definition printed_rune :: "nat \<Rightarrow> bool" where
  "printed_rune r \<longleftrightarrow> r = 10 \<or> (\<not> IsControl r \<and> \<not> In_Cf r)"

definition terminalText :: "string \<Rightarrow> string" where
  "terminalText text =
     concat (map (\<lambda>(r, _). if printed_rune r then encode_rune r else quote_rune r) (runes text))"

text \<open>\<open>safeWriter.Write\<close>: all of the input counts as written, or nothing.\<close>

definition safe_Write :: "bytes \<Rightarrow> writer \<Rightarrow> (int \<times> err option) \<times> writer" where
  "safe_Write p w =
     (case Write (terminalText p) w of
        (n, Some e, w') \<Rightarrow> ((0, Some e), w')
      | (n, None, w') \<Rightarrow> ((int (length p), None), w'))"

subsection \<open>No terminal control gets through\<close>

definition clean_text :: "bytes \<Rightarrow> bool" where
  "clean_text s \<longleftrightarrow> utf8_valid s \<and> (\<forall>u\<in>set (runes s). printed_rune (fst u))"

lemma clean_append: "clean_text a \<Longrightarrow> clean_text b \<Longrightarrow> clean_text (a @ b)"
  by (auto simp: clean_text_def utf8_valid_append runes_append)

lemma clean_concat: "\<forall>p\<in>set ps. clean_text p \<Longrightarrow> clean_text (concat ps)"
  by (induction ps) (auto simp: clean_append, simp add: clean_text_def)

lemma clean_ascii:
  assumes "\<forall>c\<in>set s. 32 \<le> ord c \<and> ord c < 127"
  shows "clean_text s"
proof -
  have a: "\<forall>c\<in>set s. ord c < 128" using assms by auto
  have "printed_rune (ord c)" if "c \<in> set s" for c
    using assms that by (auto simp: printed_rune_def IsControl_def In_Cf_def Cf_table_def)
  then show ?thesis using a by (auto simp: clean_text_def utf8_valid_ascii runes_ascii)
qed

lemma hex_digit_printable: "d < 16 \<Longrightarrow> 32 \<le> ord (hex_digit d) \<and> ord (hex_digit d) < 127"
  by (auto simp: hex_digit_def)

lemma quote_rune_clean: "clean_text (quote_rune r)"
  by (rule clean_ascii) (auto simp: quote_rune_def hex_digit_printable)

lemma encode_decoded:
  assumes "decode_rune bs = Some (r, n)"
  shows "decode_rune (encode_rune r) = Some (r, length (encode_rune r))"
proof -
  have "n \<le> length bs" using decode_rune_width [OF assms] by simp
  with decode_rune_take [OF assms] show ?thesis by (simp add: decode_rune_encode [OF assms, symmetric])
qed

lemma encode_clean:
  assumes "decode_rune (encode_rune r) = Some (r, length (encode_rune r))" "printed_rune r"
  shows "clean_text (encode_rune r)"
proof (cases "encode_rune r")
  case (Cons b bs)
  with assms show ?thesis by (simp add: clean_text_def runes.simps(2) utf8_valid.simps(2))
qed (use assms in simp)

lemma rune_cases:
  assumes "(r, raw) \<in> set (runes s)"
  shows "decode_rune (encode_rune r) = Some (r, length (encode_rune r))" "utf8_valid s \<Longrightarrow> raw = encode_rune r"
proof -
  have rep: "decode_rune (encode_rune 65533) = Some (65533, length (encode_rune 65533))"
    by (simp add: encode_rune_def decode_rune_def cont_def)
  from assms show "decode_rune (encode_rune r) = Some (r, length (encode_rune r))"
    by (induction s rule: runes.induct) (auto simp: rep runes.simps(2) encode_decoded split: option.splits)
  from assms show "raw = encode_rune r" if "utf8_valid s"
    using that
    by (induction s rule: runes.induct)
      (auto simp: runes.simps(2) utf8_valid.simps(2) decode_rune_encode split: option.splits)
qed

text \<open>
  Text from the network cannot drive the terminal: whatever bytes come in, what is
  printed is valid UTF-8 whose only control character is the line feed, without format
  characters such as bidirectional overrides; and text that has none of these is printed
  unchanged.
\<close>

theorem terminalText_clean:
  "utf8_valid (terminalText s) \<and> (\<forall>(r, raw)\<in>set (runes (terminalText s)). r = 10 \<or> \<not> IsControl r \<and> \<not> In_Cf r) \<and>
   (utf8_valid s \<and> (\<forall>(r, raw)\<in>set (runes s). r = 10 \<or> \<not> IsControl r \<and> \<not> In_Cf r) \<longrightarrow> terminalText s = s)"
proof -
  have "clean_text (terminalText s)"
    unfolding terminalText_def
    by (rule clean_concat) (auto simp: quote_rune_clean intro!: encode_clean dest: rune_cases(1))
  moreover have "terminalText s = s" if "utf8_valid s" "\<forall>u\<in>set (runes s). printed_rune (fst u)"
  proof -
    have "map (\<lambda>(r, _). if printed_rune r then encode_rune r else quote_rune r) (runes s) = map snd (runes s)"
      using that rune_cases(2) [OF _ that(1)] by (auto simp: split_beta)
    then show ?thesis unfolding terminalText_def by (simp only: runes_concat)
  qed
  ultimately show ?thesis by (simp add: clean_text_def printed_rune_def split_beta)
qed

end
