(* ===== verification/Commands.thy ===== *)
theory Commands
  imports Node Terminal
begin

text \<open>
  The commands that fetch: \<open>Client.Fetch\<close> and \<open>Client.Exchange\<close>, and \<open>deep preview\<close> and
  \<open>deep fetch\<close> of \<open>src/cmd/deep\<close> after their flags were parsed.
\<close>

subsection \<open>One call on a fresh session\<close>

text \<open>
  Dialling, the call with the given destination, and closing the session. \<open>env\<close> bundles what
  the outside world contributes: cryptography, the TLS handshake and the time.
\<close>

record 'h env =
  e_crypto :: crypto
  e_handshake :: "tlsConfig \<Rightarrow> 'h conn \<Rightarrow> ConnectionState res \<times> 'h conn"
  e_sha :: "bytes \<Rightarrow> bytes"
  e_now :: int
  e_parent :: "int option"
  e_ctx :: ctx

definition Client_Fetch :: "'h env \<Rightarrow> 'h Client \<Rightarrow> string \<Rightarrow> writer \<Rightarrow> Result res \<times> writer" where
  "Client_Fetch env cl uri destination =
     (case Dial (e_crypto env) cl (e_handshake env) (e_now env) (e_parent env) (e_ctx env) uri of
        Inl e \<Rightarrow> (Inl e, destination)
      | Inr (session, c) \<Rightarrow>
          (case Session_Fetch (e_sha env) (e_parent env) uri True session (c\<lparr>c_dest := destination\<rparr>) of
             (r, s', c') \<Rightarrow> (r, c_dest (snd (Session_Close s' c')))))"

definition Client_Exchange ::
    "'h env \<Rightarrow> 'h Client \<Rightarrow> string \<Rightarrow> ApplicationRequest \<Rightarrow> writer \<Rightarrow> ApplicationResult res \<times> writer" where
  "Client_Exchange env cl uri request destination =
     (case Dial (e_crypto env) cl (e_handshake env) (e_now env) (e_parent env) (e_ctx env) uri of
        Inl e \<Rightarrow> (Inl e, destination)
      | Inr (session, c) \<Rightarrow>
          (case Session_Exchange (e_sha env) (e_parent env) uri request True session (c\<lparr>c_dest := destination\<rparr>) of
             (r, s', c') \<Rightarrow> (r, c_dest (snd (Session_Close s' c')))))"

subsection \<open>deep preview\<close>

definition previewLimit :: int where
  "previewLimit = 2 ^ 20"

text \<open>What is printed, and the result that is reported; \<open>client\<close> is the loaded configuration.\<close>

definition previewURI :: "'h env \<Rightarrow> 'h Client res \<Rightarrow> string \<Rightarrow> (string \<times> Result) res" where
  "previewURI env client uri =
     (case client of
        Inl e \<Rightarrow> Inl e
      | Inr cl \<Rightarrow>
          (case Client_Fetch env (cl\<lparr>cl_MaxBytes := previewLimit\<rparr>) uri fresh_writer of
             (Inl e, w) \<Rightarrow> Inl (Wrapf ''preview is limited to 1 MiB; use deep fetch --output for larger resources'' e)
           | (Inr result, w) \<Rightarrow> Inr (terminalText (w_out w), result)))"

subsection \<open>deep fetch --output\<close>

text \<open>
  Names and contents of the files of a directory, and what the system answers. Other programs
  may change the directory while the transfer runs: \<open>fh_earlier\<close> is its state when the output is
  looked up and \<open>fh_later\<close> what it is, the temporary file apart, when the result is published.
  \<open>fh_temporary\<close> is the answer of \<open>os.CreateTemp\<close>, \<open>fh_writes\<close> the outcomes of the coming writes to
  its file, \<open>fh_flush\<close> the answer of \<open>Sync\<close> and \<open>Close\<close>, and \<open>fh_link\<close> that of \<open>os.Link\<close> for a
  name that is free.
\<close>

type_synonym files = "string \<rightharpoonup> bytes"

record file_host =
  fh_earlier :: files
  fh_lstatErr :: "err option"
  fh_temporary :: "string res"
  fh_writes :: "(int \<times> err option) list"
  fh_flush :: check
  fh_link :: check
  fh_later :: files

definition fetchFile :: "'h env \<Rightarrow> 'h Client \<Rightarrow> string \<Rightarrow> file_host \<Rightarrow> string \<Rightarrow> Result res \<times> files" where
  "fetchFile env cl uri host output =
     (let later = fh_later host;
          publish_failed = Wrapf ''publish file without overwriting (the destination must support hard links, such as NTFS)''
      in case fh_earlier host output of
        Some _ \<Rightarrow> (Inl (Errorf ''output file already exists''), later)
      | None \<Rightarrow>
     (case fh_lstatErr host of
        Some e \<Rightarrow> (Inl e, later)
      | None \<Rightarrow>
     (case fh_temporary host of
        Inl e \<Rightarrow> (Inl e, later)
      | Inr temp \<Rightarrow>
     (case Client_Fetch env cl uri \<lparr>w_out = [], w_script = fh_writes host\<rparr> of
        (Inl e, w) \<Rightarrow> (Inl e, later(temp := None))
      | (Inr result, w) \<Rightarrow>
     (case fh_flush host of
        Inl e \<Rightarrow> (Inl e, later(temp := None))
      | Inr _ \<Rightarrow>
          if later output \<noteq> None then (Inl (publish_failed (Errorf ''file exists'')), later(temp := None))
          else (case fh_link host of
              Inl e \<Rightarrow> (Inl (publish_failed e), later(temp := None))
            | Inr _ \<Rightarrow> (Inr result, later(output \<mapsto> w_out w, temp := None))))))))"

text \<open>\<open>deep fetch\<close> with its parsed options; without \<open>--output\<close> the resource goes to standard output.\<close>

definition fetch_client :: "'h Client res \<Rightarrow> int \<Rightarrow> int \<Rightarrow> 'h Client res" where
  "fetch_client client timeout maxBytes =
     (if timeout \<le> 0 then Inl (Errorf ''--timeout must be positive'')
      else if maxBytes < 0 \<or> maxBytes > 2 ^ 40 then Inl (Errorf ''--max-bytes must be between 0 and 1 TiB'')
      else case client of
        Inl e \<Rightarrow> Inl e
      | Inr cl \<Rightarrow> Inr (if maxBytes > 0 then cl\<lparr>cl_Timeout := timeout, cl_MaxBytes := maxBytes\<rparr> else cl\<lparr>cl_Timeout := timeout\<rparr>))"

subsection \<open>What a call leaves in its destination\<close>

lemma close_dest [simp]: "c_dest (close_conn c) = c_dest c"
  by (simp add: close_conn_def)

lemma Now_dest: "Now c = (t, c') \<Longrightarrow> c_dest c' = c_dest c"
  by (auto simp: Now_def split: list.splits)

lemma Session_Close_dest [simp]: "c_dest (snd (Session_Close s c)) = c_dest c"
proof -
  obtain t c1 where n: "Now c = (t, c1)" by fastforce
  obtain x c2 where w: "SetWriteDeadline (Some (t + 200000000)) c1 = (x, c2)" by fastforce
  obtain y c3 where s: "conn_send Close 0 [] [] c2 = (y, c3)" by fastforce
  have "c_dest c2 = c_dest c1"
    using w by (auto simp: SetWriteDeadline_def andThen_def next_set_def
        split: prod.splits sum.splits list.splits option.splits)
  then show ?thesis
    using n w s Now_dest [OF n] conn_send_fields(2) [OF s]
    by (simp add: Session_Close_def split: sum.splits)
qed

lemma chunk_loop_dest: "c_dest (snd (chunk_loop short rid sz sent acc body c)) = c_dest c"
proof (induction short rid sz sent acc body c rule: chunk_loop.induct)
  case (1 short rid sz sent acc body c)
  obtain x c1 where e: "ctx_Err c = (x, c1)" by fastforce
  let ?n = "if sz - sent < int MaxChunkSize then sz - sent else int MaxChunkSize"
  obtain y b where b: "ReadFull (nat ?n) body = (y, b)" by fastforce
  have ih: "c_dest (snd (chunk_loop short rid sz (sent + int (length ch)) (acc @ ch) b c2)) = c_dest c2"
    if "sent < sz" "x = Inr u" "y = Inr ch" "conn_send Data rid [] ch c1 = (Inr v, c2)" for u ch v c2
    using 1 [OF that(1) e [unfolded that(2)] refl refl b [unfolded that(3), symmetric] refl that(4)] .
  show ?case
    using e b ctx_Err_fields(3) [OF e] ih
    by (subst chunk_loop.simps)
      (auto simp: andThen_def Let_def split: prod.splits sum.splits dest: conn_send_fields(2))
qed

lemma sendBody_dest:
  assumes "sendBody sha rid body sz c = (Inr u, c')"
  shows "c_dest c' = c_dest c"
proof -
  from assms obtain t acc b c1 where l: "chunk_loop ''body ended before its announced size'' rid sz 0 [] body c = (Inr (t, acc, b), c1)"
    and e: "conn_send End rid (end_members \<lparr>em_Size = t, em_SHA256 = EncodeToString (sha acc)\<rparr>) [] c1 = (Inr u, c')"
    by (auto simp: sendBody_def finish_body_def res_simps)
  from chunk_loop_dest [of _ rid sz 0 "[]" body c] l conn_send_fields(2) [OF e] show ?thesis by (metis snd_conv)
qed

text \<open>The byte limit of a session that was dialled.\<close>

definition client_limit :: "'h Client \<Rightarrow> int" where
  "client_limit cl = (if cl_MaxBytes cl = 0 then DefaultMaxBytes else cl_MaxBytes cl)"

lemma Dial_limit:
  assumes "Dial k cl handshake now parent ctx uriText = Inr (session, c)"
  shows "se_maxBytes session = client_limit cl"
  using assms unfolding Dial_def Let_def dial_session_def
  by (auto simp: res_simps client_limit_def Let_def split: sum.splits option.splits prod.splits if_splits)

text \<open>A result and the bytes that were delivered with it.\<close>

definition verified :: "(bytes \<Rightarrow> bytes) \<Rightarrow> int \<Rightarrow> Result \<Rightarrow> bytes \<Rightarrow> bool" where
  "verified sha limit result content \<longleftrightarrow> int (length content) = re_Size result \<and>
     re_SHA256 result = EncodeToString (sha content) \<and> re_Size result \<le> limit \<and> validateMediaType (re_MediaType result)"

lemma Client_Fetch_ok:
  assumes "Client_Fetch env cl uri w = (Inr result, w')"
  shows "\<exists>got. w_out w' = w_out w @ got \<and> verified (e_sha env) (client_limit cl) result got"
proof -
  from assms obtain session c s' c' where
    d: "Dial (e_crypto env) cl (e_handshake env) (e_now env) (e_parent env) (e_ctx env) uri = Inr (session, c)"
    and f: "Session_Fetch (e_sha env) (e_parent env) uri True session (c\<lparr>c_dest := w\<rparr>) = (Inr result, s', c')"
    and w: "w' = c_dest (snd (Session_Close s' c'))"
    by (auto simp: Client_Fetch_def split: sum.splits prod.splits)
  from Session_Fetch_ok [OF f] Dial_limit [OF d] w show ?thesis by (auto simp: verified_def)
qed

lemma exchange_body_ok:
  assumes "exchange_body sha request s uri rid c = (Inr result, c')"
  shows "\<exists>got. w_out (c_dest c') = w_out (c_dest c) @ got \<and>
     verified sha (min (se_maxBytes s) MaxApplicationResponseBytes) (ax_Result result) got \<and>
     200 \<le> ax_Status result \<and> ax_Status result \<le> 599 \<and> ValidateApplicationHeaders (ax_Headers result) = Inr () \<and>
     (ar_Method request = ''HEAD'' \<longrightarrow> got = [])"
proof -
  from assms obtain u1 c1 f1 c2 u2 c3 u3 c4 f2 c5 response digest c6 u4 where
    1: "conn_send Request rid (request_members \<lparr>rm_Authority = u_Authority uri, rm_Path = u_Path uri,
      rm_Query = u_Query uri, rm_Operation = ''EXCHANGE''\<rparr>) [] c = (Inr u1, c1)"
    and 2: "conn_read c1 = (Inr f1, c2)"
    and 3: "conn_send Request rid (app_request_members \<lparr>aq_Method = ar_Method request,
      aq_Headers = ar_Headers request, aq_Size = int (length (ar_Body request))\<rparr>) [] c2 = (Inr u2, c3)"
    and 4: "sendBody sha rid (whole (ar_Body request)) (int (length (ar_Body request))) c3 = (Inr u3, c4)"
    and 5: "conn_read c4 = (Inr f2, c5)"
    and m: "200 \<le> as_Status (response :: applicationResponseMetadata)" "as_Status response \<le> 599" "validateMediaType (as_MediaType response)"
      "as_Size response \<le> min (se_maxBytes s) MaxApplicationResponseBytes"
      "ar_Method request = ''HEAD'' \<longrightarrow> as_Size response = 0"
      "ValidateApplicationHeaders (as_Headers response) = Inr ()"
    and 6: "receiveBody sha rid (as_Size response) c5 = (Inr digest, c6)"
    and 7: "SetDeadline None c6 = (Inr u4, c')"
    and r: "result = \<lparr>ax_Result = \<lparr>re_MediaType = as_MediaType response, re_Size = as_Size response,
        re_SHA256 = digest, re_Security = se_Security s\<rparr>,
      ax_Status = as_Status response, ax_Headers = as_Headers response\<rparr>"
    unfolding exchange_body_def 
    by (auto simp: res_simps not_less)
  from receive_loop_sound [OF 6 [unfolded receiveBody_def]] obtain got where
    g: "w_out (c_dest c6) = w_out (c_dest c5) @ got" "int (length got) = as_Size response"
      "digest = EncodeToString (sha got)" by auto
  have "c_dest c5 = c_dest c"
    using conn_send_fields(2) [OF 1] conn_read_fields(2) [OF 2] conn_send_fields(2) [OF 3] sendBody_dest [OF 4]
      conn_read_fields(2) [OF 5] by simp
  with g SetDeadline_fields(3) [OF 7] m r show ?thesis
    by (intro exI [of _ got]) (auto simp: verified_def)
qed

lemma Client_Exchange_ok:
  assumes "Client_Exchange env cl uri request w = (Inr result, w')"
  shows "\<exists>got. w_out w' = w_out w @ got \<and>
     verified (e_sha env) (min (client_limit cl) MaxApplicationResponseBytes) (ax_Result result) got \<and>
     200 \<le> ax_Status result \<and> ax_Status result \<le> 599 \<and> ValidateApplicationHeaders (ax_Headers result) = Inr ()"
proof -
  from assms obtain session c s' c' where
    d: "Dial (e_crypto env) cl (e_handshake env) (e_now env) (e_parent env) (e_ctx env) uri = Inr (session, c)"
    and f: "Session_Exchange (e_sha env) (e_parent env) uri request True session (c\<lparr>c_dest := w\<rparr>) = (Inr result, s', c')"
    and w: "w' = c_dest (snd (Session_Close s' c'))"
    by (auto simp: Client_Exchange_def split: sum.splits prod.splits)
  from f obtain request' where call: "session_call ''session is busy'' ''request IDs exhausted'' (e_parent env) uri
      (exchange_body (e_sha env) request' session) session (c\<lparr>c_dest := w\<rparr>) = (Inr result, s', c')"
    unfolding Session_Exchange_def Let_def by (auto split: if_splits sum.splits)
  from call show ?thesis
  proof (cases rule: session_call_cases)
    case (returned u y c3)
    then have "exchange_body (e_sha env) request' session u (se_nextID session) c3 = (Inr result, c')" by simp
    from exchange_body_ok [OF this] Dial_limit [OF d] w returned(10) show ?thesis by auto
  qed simp_all
qed

subsection \<open>deep fetch publishes a verified file or nothing\<close>

lemma fetchFile_ok:
  assumes "fetchFile env cl uri host output = (Inr result, files)"
  obtains temp content where "fh_temporary host = Inr temp" "fh_earlier host output = None" "fh_later host output = None"
    "files = (fh_later host)(output \<mapsto> content, temp := None)" "verified (e_sha env) (client_limit cl) result content"
proof -
  from assms obtain temp w where t: "fh_temporary host = Inr temp" "fh_earlier host output = None" "fh_later host output = None"
    "files = (fh_later host)(output \<mapsto> w_out w, temp := None)"
    and f: "Client_Fetch env cl uri \<lparr>w_out = [], w_script = fh_writes host\<rparr> = (Inr result, w)"
    unfolding fetchFile_def by (auto simp: Let_def split: option.splits sum.splits prod.splits if_splits)
  from Client_Fetch_ok [OF f] that [OF t] show thesis by auto
qed

lemma fetchFile_failed:
  assumes "fetchFile env cl uri host output = (Inl e, files)"
  shows "files = fh_later host \<or> (\<exists>temp. fh_temporary host = Inr temp \<and> files = (fh_later host)(temp := None))"
  using assms unfolding fetchFile_def by (auto simp: Let_def split: option.splits sum.splits prod.splits if_splits)

end
