(* ===== verification/Base64.thy ===== *)
theory Base64
  imports GoLib
begin

text \<open>\<open>encoding/base64\<close>: the standard alphabet with padding, decoded strictly.\<close>

definition b64_digits :: string where
  "b64_digits = ''ABCDEFGHIJKLMNOPQRSTUVWXYZabcdefghijklmnopqrstuvwxyz0123456789+/''"

definition b64_digit :: "nat \<Rightarrow> char" where
  "b64_digit n = b64_digits ! n"

definition b64_val :: "char \<Rightarrow> nat option" where
  "b64_val c = IndexByte b64_digits c"

text \<open>\<open>base64.StdEncoding.EncodeToString\<close>.\<close>

fun b64_encode :: "bytes \<Rightarrow> string" where
  "b64_encode (a # b # c # bs) =
     [b64_digit (ord a div 4), b64_digit (ord a mod 4 * 16 + ord b div 16), b64_digit (ord b mod 16 * 4 + ord c div 64),
      b64_digit (ord c mod 64)] @ b64_encode bs"
| "b64_encode [a, b] =
     [b64_digit (ord a div 4), b64_digit (ord a mod 4 * 16 + ord b div 16), b64_digit (ord b mod 16 * 4), CHR ''='']"
| "b64_encode [a] = [b64_digit (ord a div 4), b64_digit (ord a mod 4 * 16), CHR ''='', CHR ''='']"
| "b64_encode [] = []"

text \<open>
  Strict decoding of whole groups. Line breaks, which the library's decoder skips, are left
  out, since the caller accepts only text that is encoded back to itself.
\<close>

fun b64_decode :: "string \<Rightarrow> bytes option" where
  "b64_decode [] = Some []"
| "b64_decode (p # q # r # s # t) =
     (case (b64_val p, b64_val q) of
        (Some w, Some x) \<Rightarrow>
          if r = CHR ''='' then
            (if s = CHR ''='' \<and> t = [] \<and> x mod 16 = 0 then Some [char_of (w * 4 + x div 16)] else None)
          else (case b64_val r of
              None \<Rightarrow> None
            | Some y \<Rightarrow>
                if s = CHR ''='' then
                  (if t = [] \<and> y mod 4 = 0 then Some [char_of (w * 4 + x div 16), char_of (x mod 16 * 16 + y div 4)] else None)
                else (case b64_val s of
                    None \<Rightarrow> None
                  | Some z \<Rightarrow>
                      map_option (\<lambda>bs. [char_of (w * 4 + x div 16), char_of (x mod 16 * 16 + y div 4), char_of (y mod 4 * 64 + z)] @ bs)
                        (b64_decode t)))
      | _ \<Rightarrow> None)"
| "b64_decode _ = None"

subsection \<open>Decoding inverts encoding\<close>

lemma b64_digits_props:
  "length b64_digits = 64" "distinct b64_digits" "\<forall>c\<in>set b64_digits. 43 \<le> ord c \<and> ord c < 123 \<and> c \<noteq> CHR ''=''"
  by (simp_all add: b64_digits_def)

lemma b64_digit_props:
  assumes "n < 64"
  shows "b64_digit n \<noteq> CHR ''=''" "43 \<le> ord (b64_digit n)" "ord (b64_digit n) < 123"
proof -
  have "b64_digits ! n \<in> set b64_digits" using assms b64_digits_props(1) by (intro nth_mem) simp
  then show "b64_digit n \<noteq> CHR ''=''" "43 \<le> ord (b64_digit n)" "ord (b64_digit n) < 123"
    using b64_digits_props(3) by (simp_all add: b64_digit_def)
qed

lemma b64_val_digit: "n < 64 \<Longrightarrow> b64_val (b64_digit n) = Some n"
  using b64_digits_props(1,2)
  by (auto simp: b64_val_def b64_digit_def IndexByte_def IndexBy_Some nth_eq_iff_index_eq)

lemma b64_group:
  fixes a b c :: nat
  assumes "a < 256" "b < 256" "c < 256"
  shows "a div 4 < 64" "a mod 4 * 16 + b div 16 < 64" "b mod 16 * 4 + c div 64 < 64" "c mod 64 < 64"
    "a div 4 * 4 + (a mod 4 * 16 + b div 16) div 16 = a"
    "(a mod 4 * 16 + b div 16) mod 16 * 16 + (b mod 16 * 4 + c div 64) div 4 = b"
    "(b mod 16 * 4 + c div 64) mod 4 * 64 + c mod 64 = c"
proof -
  have d: "b div 16 < 16" "c div 64 < 4" "a div 4 < 64" using assms by (simp_all add: div_less_iff_less_mult)
  have m: "a mod 4 < 4" "b mod 16 < 16" "c mod 64 < 64" by simp_all
  show "a div 4 < 64" "a mod 4 * 16 + b div 16 < 64" "b mod 16 * 4 + c div 64 < 64" "c mod 64 < 64"
    using d m by linarith+
  have "(a mod 4 * 16 + b div 16) div 16 = a mod 4" "(a mod 4 * 16 + b div 16) mod 16 = b div 16"
    "(b mod 16 * 4 + c div 64) div 4 = b mod 16" "(b mod 16 * 4 + c div 64) mod 4 = c div 64"
    using d by simp_all
  then show "a div 4 * 4 + (a mod 4 * 16 + b div 16) div 16 = a"
    "(a mod 4 * 16 + b div 16) mod 16 * 16 + (b mod 16 * 4 + c div 64) div 4 = b"
    "(b mod 16 * 4 + c div 64) mod 4 * 64 + c mod 64 = c"
    by (simp_all only: div_mult_mod_eq)
qed

lemma b64_decode_encode: "b64_decode (b64_encode bs) = Some bs"
proof (induction bs rule: b64_encode.induct)
  case (1 a b c bs)
  obtain w x y z where e: "b64_encode (a # b # c # bs) = [b64_digit w, b64_digit x, b64_digit y, b64_digit z] @ b64_encode bs"
    and d: "w < 64" "x < 64" "y < 64" "z < 64"
    and v: "w * 4 + x div 16 = ord a" "x mod 16 * 16 + y div 4 = ord b" "y mod 4 * 64 + z = ord c"
    using that [OF b64_encode.simps(1) b64_group [OF ord_lt_256 ord_lt_256 ord_lt_256]] .
  show ?case using 1 d unfolding e by (simp add: b64_val_digit b64_digit_props v)
next
  case (2 a b)
  note g = b64_group [of "ord a" "ord b" 0]
  show ?case using g by (simp add: b64_val_digit b64_digit_props)
next
  case (3 a)
  note g = b64_group [of "ord a" 0 0]
  show ?case using g by (simp add: b64_val_digit b64_digit_props)
qed simp

lemma b64_length: "length (b64_encode bs) = 4 * ((length bs + 2) div 3)"
  by (induction bs rule: b64_encode.induct) (simp_all, presburger)

lemma b64_encode_chars: "\<forall>c\<in>set (b64_encode bs). 43 \<le> ord c \<and> ord c < 123"
proof (induction bs rule: b64_encode.induct)
  case (1 a b c bs)
  with b64_group [of "ord a" "ord b" "ord c"] show ?case by (auto simp: b64_digit_props)
next
  case (2 a b)
  with b64_group [of "ord a" "ord b" 0] show ?case by (auto simp: b64_digit_props)
next
  case (3 a)
  with b64_group [of "ord a" 0 0] show ?case by (auto simp: b64_digit_props)
qed simp

end
