(* ===== verification/Requests.thy ===== *)
theory Requests
  imports Commands Base64
begin

text \<open>
  \<open>deep request\<close> of \<open>src/cmd/deep/request.go\<close>: the JSON on standard input, the exchange with
  its fallback, and what is printed.
\<close>

subsection \<open>The command\<close>

record inputRequest =
  iq_Method :: string
  iq_Headers :: "Header list option"
  iq_Body :: string

definition input_shape :: shape where
  "input_shape = Struct
     [(''method'', False, Plain), (''headers'', False, SliceOf (Struct [(''name'', False, Plain), (''value'', False, Plain)])),
      (''body'', False, Plain)]"

definition input_table :: "inputRequest table" where
  "input_table =
     [(''method'', set_string (\<lambda>s q. q\<lparr>iq_Method := s\<rparr>)),
      (''headers'', set_slice decode_header (\<lambda>hs q. q\<lparr>iq_Headers := hs\<rparr>)),
      (''body'', set_string (\<lambda>s q. q\<lparr>iq_Body := s\<rparr>))]"

definition input_zero :: inputRequest where
  "input_zero = \<lparr>iq_Method = [], iq_Headers = None, iq_Body = []\<rparr>"

text \<open>From the JSON on standard input to the application request.\<close>

definition read_request :: "reader \<Rightarrow> ApplicationRequest res" where
  "read_request stdin =
     (case ReadAll_limit (nat (2 * MaxApplicationRequestBytes + 1)) stdin of
        Inl e \<Rightarrow> Inl e
      | Inr data \<Rightarrow>
          if int (length data) > 2 * MaxApplicationRequestBytes then Inl (Errorf ''application request JSON exceeds 2 MiB'')
          else (case DecodeConfigJSON input_shape input_table input_zero data of
              Inl e \<Rightarrow> Inl e
            | Inr q \<Rightarrow>
                (case b64_decode (iq_Body q) of
                   None \<Rightarrow> Inl (Errorf ''body must be canonical base64 of at most 1 MiB'')
                 | Some payload \<Rightarrow>
                     if b64_encode payload \<noteq> iq_Body q \<or> int (length payload) > MaxApplicationRequestBytes
                       then Inl (Errorf ''body must be canonical base64 of at most 1 MiB'')
                     else Inr \<lparr>ar_Method = iq_Method q, ar_Headers = iq_Headers q, ar_Body = payload\<rparr>)))"

text \<open>
  The rest of \<open>requestResource\<close>: the exchange, and for a GET that the server does not support
  a plain fetch. The result is what is printed and what is reported.
\<close>

definition run_request ::
    "'h env \<Rightarrow> 'h env \<Rightarrow> 'h Client \<Rightarrow> string \<Rightarrow> ApplicationRequest \<Rightarrow> (bytes \<times> ApplicationResult) res" where
  "run_request env env2 cl uri request =
     (case Client_Exchange env cl uri request fresh_writer of
        (Inr result, w) \<Rightarrow> Inr (w_out w, result)
      | (Inl e, w) \<Rightarrow>
          (case errors_as_remote e of
             Some (code, message) \<Rightarrow>
               if ar_Method request = ''GET'' \<and> code = ''UNSUPPORTED_OPERATION'' then
                 (case Client_Fetch env2 cl uri fresh_writer of
                    (Inl e', w') \<Rightarrow> Inl e'
                  | (Inr legacy, w') \<Rightarrow> Inr (w_out w', \<lparr>ax_Result = legacy, ax_Status = 200, ax_Headers = Some []\<rparr>))
               else Inl e
           | None \<Rightarrow> Inl e))"

definition requestResource ::
    "'h env \<Rightarrow> 'h env \<Rightarrow> 'h Client res \<Rightarrow> int \<Rightarrow> int \<Rightarrow> string \<Rightarrow> reader \<Rightarrow> (bytes \<times> ApplicationResult) res" where
  "requestResource env env2 client timeout limit uri stdin =
     (case ParseURI uri of
        Inl e \<Rightarrow> Inl e
      | Inr _ \<Rightarrow>
          if timeout \<le> 0 \<or> limit \<le> 0 \<or> limit > MaxApplicationResponseBytes
            then Inl (Errorf ''invalid timeout or response limit'')
          else (case read_request stdin of
              Inl e \<Rightarrow> Inl e
            | Inr request \<Rightarrow>
                (case client of
                   Inl e \<Rightarrow> Inl e
                 | Inr cl \<Rightarrow> run_request env env2 (cl\<lparr>cl_Timeout := timeout, cl_MaxBytes := limit\<rparr>) uri request)))"

subsection \<open>What is printed was verified\<close>

lemma run_request_ok:
  assumes "run_request env env2 cl uri request = Inr (content, result)" "e_sha env2 = e_sha env"
    "client_limit cl \<le> MaxApplicationResponseBytes"
  shows "verified (e_sha env) (client_limit cl) (ax_Result result) content \<and>
    200 \<le> ax_Status result \<and> ax_Status result \<le> 599 \<and> ValidateApplicationHeaders (ax_Headers result) = Inr ()"
proof (cases "Client_Exchange env cl uri request fresh_writer")
  case (Pair x w)
  show ?thesis
  proof (cases x)
    case (Inr r)
    with assms Pair have "result = r" "content = w_out w" by (simp_all add: run_request_def)
    with Client_Exchange_ok [OF Pair [unfolded Inr]] assms(3) show ?thesis by (auto simp: fresh_writer_def verified_def)
  next
    case (Inl e)
    with assms(1) Pair obtain legacy w' where f: "Client_Fetch env2 cl uri fresh_writer = (Inr legacy, w')"
      and r: "content = w_out w'" "result = \<lparr>ax_Result = legacy, ax_Status = 200, ax_Headers = Some []\<rparr>"
      by (auto simp: run_request_def split: option.splits if_splits prod.splits sum.splits)
    have "ValidateApplicationHeaders (Some []) = Inr ()" by (simp add: ValidateApplicationHeaders_def)
    with Client_Fetch_ok [OF f] r assms(2) show ?thesis by (auto simp: fresh_writer_def)
  qed
qed


subsection \<open>Requests on standard input\<close>

text \<open>The documented form of the input: the JSON object of a request, its body in base64.\<close>

definition input_members :: "inputRequest \<Rightarrow> (bytes \<times> jvalue) list" where
  "input_members q = [(''method'', JString (iq_Method q)), (''headers'', headers_json (iq_Headers q)), (''body'', JString (iq_Body q))]"

definition input_good :: "inputRequest \<Rightarrow> bool" where
  "input_good q \<longleftrightarrow> utf8_valid (iq_Method q) \<and> headers_good (iq_Headers q) \<and> utf8_valid (iq_Body q)"

lemma headers_json_config:
  assumes "headers_good hs"
  shows "config_tree (headers_json hs) 1"
    "conforms (headers_json hs) (SliceOf (Struct [(''name'', False, Plain), (''value'', False, Plain)]))"
proof -
  have "conforms (JObject (header_members h)) (Struct [(''name'', False, Plain), (''value'', False, Plain)])" for h
    by (auto simp: header_members_def conforms_kinds)
  then show "conforms (headers_json hs) (SliceOf (Struct [(''name'', False, Plain), (''value'', False, Plain)]))"
    using assms by (auto simp: headers_good_def headers_json_def intro!: conforms.slice)
  show "config_tree (headers_json hs) 1"
    using assms by (auto simp: headers_good_def headers_json_def header_members_def config_tree_Array config_tree_Object)
qed

interpretation input: config_struct input_shape input_table input_zero input_members input_good
proof unfold_locales
  fix q assume g: "input_good q"
  then show "config_tree (JObject (input_members q)) 0"
    using headers_json_config(1) by (simp add: input_good_def input_members_def config_tree_Object)
  show "jwf (JObject (input_members q))"
    using g headers_json_good(1) by (simp add: input_good_def input_members_def)
  show "conforms (JObject (input_members q)) input_shape"
    using g headers_json_config(2) by (auto simp: input_good_def input_members_def input_shape_def conforms_kinds)
  show "decode_members input_table (input_members q) input_zero = Some q"
    using g by (simp add: input_good_def input_members_def input_table_def input_zero_def find_field_exact headers_json_good(5))
qed

definition request_json :: "ApplicationRequest \<Rightarrow> bytes" where
  "request_json request = json_print (JObject (input_members
     \<lparr>iq_Method = ar_Method request, iq_Headers = ar_Headers request, iq_Body = b64_encode (ar_Body request)\<rparr>))"

lemma read_request_json:
  assumes "utf8_valid (ar_Method request)" "headers_good (ar_Headers request)" "length (request_json request) \<le> 1024 * 1024"
    "int (length (ar_Body request)) \<le> MaxApplicationRequestBytes"
    "stream stdin = request_json request" "r_end stdin = EOF"
  shows "read_request stdin = Inr request"
proof -
  let ?q = "\<lparr>iq_Method = ar_Method request, iq_Headers = ar_Headers request, iq_Body = b64_encode (ar_Body request)\<rparr>"
  have "utf8_valid (b64_encode (ar_Body request))"
    using b64_encode_chars [of "ar_Body request"] by (intro utf8_literal) (auto simp: list_all_iff)
  with assms(1,2) have "input_good ?q" by (simp add: input_good_def)
  from input.decode_print [OF this] assms(3)
  have d: "DecodeConfigJSON input_shape input_table input_zero (request_json request) = Inr ?q"
    by (simp add: request_json_def del: json_print.simps)
  have "ReadAll_limit (nat (2 * MaxApplicationRequestBytes + 1)) stdin = Inr (request_json request)"
    using assms(3,5,6) by (simp add: ReadAll_limit_def MaxApplicationRequestBytes_def)
  then show ?thesis
    using d assms(3,4) by (simp add: read_request_def b64_decode_encode MaxApplicationRequestBytes_def)
qed

text \<open>
  A request survives the trip through standard input: for every method and header
  list in valid UTF-8 and every body of at most 1 MiB, the documented JSON of the request, with
  the body in base64, is read as exactly that request when it is at most 1 MiB long.
\<close>

theorem request_roundtrip:
  assumes "utf8_valid (ar_Method request)" "headers_good (ar_Headers request)" "length (request_json request) \<le> 1048576"
    "length (ar_Body request) \<le> 1048576" "stream stdin = request_json request" "r_end stdin = EOF"
  shows "read_request stdin = Inr request"
  using assms by (intro read_request_json) (simp_all add: MaxApplicationRequestBytes_def)

subsection \<open>How large a body can be\<close>

text \<open>No string of a document is longer than the document.\<close>

lemma encode_rune_length: "length (encode_rune r) \<le> 4"
  by (simp add: encode_rune_def)

lemma getu4_consumes: "getu4 bs = Some (v, r) \<Longrightarrow> length bs = length r + 4"
  by (induction bs rule: getu4.induct) (auto split: option.splits)

lemma low_half_consumes: "low_half v bs = Some (x, r) \<Longrightarrow> length bs = length r + 6"
  by (induction v bs rule: low_half.induct) (auto split: if_splits option.splits dest: getu4_consumes)

lemma string_unit_size: "string_unit bs = Some (x, r) \<Longrightarrow> length x + length r \<le> length bs"
proof -
  have e: "length (encode_rune c) \<le> 6" "length (encode_rune c) \<le> 12" for c
    using encode_rune_length [of c] by simp_all
  show "string_unit bs = Some (x, r) \<Longrightarrow> length x + length r \<le> length bs"
    by (auto simp: string_unit_def e split: list.splits if_splits option.splits dest!: getu4_consumes low_half_consumes)
qed

lemma scan_string_size: "scan_string bs = Some (s, r) \<Longrightarrow> length s + length r < length bs"
proof (induction bs arbitrary: s rule: scan_string.induct)
  case (2 c cs)
  show ?case
  proof (cases "c = CHR 0x22")
    case False
    with 2(2) obtain x r' s' where u: "string_unit (c # cs) = Some (x, r')"
      and s: "scan_string r' = Some (s', r)" "s = x @ s'"
      by (auto simp: scan_string.simps(2) split: option.splits)
    from 2(1) [OF False u refl s(1)] string_unit_size [OF u] s(2) show ?thesis by simp
  qed (use 2 in simp)
qed simp

primrec short :: "nat \<Rightarrow> jvalue \<Rightarrow> bool" where
  "short n JNull = True"
| "short n (JBool b) = True"
| "short n (JNumber s) = True"
| "short n (JString s) = (length s < n)"
| "short n (JArray vs) = list_all id (map (short n) vs)"
| "short n (JObject ms) = list_all snd (map (map_prod id (short n)) ms)"

lemma short_mono: "short m v \<Longrightarrow> m \<le> n \<Longrightarrow> short n v"
  by (induction v) (auto simp: list_all_iff)

lemma scan_scalar_short: "scan_scalar bs = Some (v, r) \<Longrightarrow> short (length bs) v"
  by (auto simp: scan_scalar_def scan_word_def split: list.splits if_splits dest!: scan_string_size)

lemma Token_short: "Token d = (Inr (Scalar v), d') \<Longrightarrow> short (dlen d) v"
proof (induction "dlen d" arbitrary: d rule: less_induct)
  case less
  obtain buf st stk where d: "d = (buf, st, stk)" by (cases d) auto
  show ?case
  proof (cases "skip_ws buf")
    case Nil
    with less d show ?thesis by (simp add: Token.simps)
  next
    case (Cons c cs)
    with skip_ws_len [of buf] have len: "length cs < length buf" by simp
    have sc: "scan_scalar (c # cs) = Some (w, r) \<Longrightarrow> short (length buf) w" for w r
      using scan_scalar_short [of "c # cs" w r] short_mono [of "length (c # cs)" w "length buf"] len by simp
    have ss: "scan_string cs = Some (w, r) \<Longrightarrow> length w < length buf" for w r
      using scan_string_size [of cs w r] len by simp
    have rec: "Token (cs, s, stk) = (Inr (Scalar v), d') \<Longrightarrow> short (length buf) v" for s
      using less.hyps [of "(cs, s, stk)"] len d short_mono [of "length cs" v "length buf"] by fastforce
    from less.prems show ?thesis
      unfolding d Token.simps [of buf st stk] Cons
      by (auto split: if_splits list.splits option.splits dest: sc ss rec)
  qed
qed

lemma build_short:
  "build d t = Some (v, d') \<Longrightarrow> (\<And>w. t = Scalar w \<Longrightarrow> short n w) \<Longrightarrow> dlen d \<le> n \<Longrightarrow> short n v"
  "build_members d = Some (ms, d') \<Longrightarrow> dlen d \<le> n \<Longrightarrow> \<forall>m\<in>set ms. short n (snd m)"
  "build_elems d = Some (vs, d') \<Longrightarrow> dlen d \<le> n \<Longrightarrow> \<forall>v\<in>set vs. short n v"
proof (induction d t and d and d arbitrary: v d' and ms d' and vs d'
    rule: build_build_members_build_elems.induct)
  case (1 d w)
  then show ?case by simp
next
  case (2 d c)
  then show ?case by (fastforce simp: build.simps list_all_iff split: if_splits)
next
  case (3 d)
  from 3(3) show ?case
  proof (cases "More d")
    case True
    with 3(3) obtain k d1 t d2 w d3 ms' where m: "Token d = (Inr (Scalar (JString k)), d1)" "Token d1 = (Inr t, d2)"
      "build d2 t = Some (w, d3)" "build_members d3 = Some (ms', d')" "ms = (k, w) # ms'"
      by (auto simp: build_members.simps [of d] split: prod.splits sum.splits jtoken.splits jvalue.splits option.splits)
    have l: "dlen d1 < n" "dlen d2 < n" using Token_len [OF m(1)] Token_len [OF m(2)] 3(4) by auto
    have "short n w" using 3(1) [OF True m(1) [symmetric] refl refl refl m(2) [symmetric] refl m(3)] l short_mono [OF Token_short] m(2) by fastforce
    moreover have "\<forall>m\<in>set ms'. short n (snd m)"
      using 3(2) [OF True m(1) [symmetric] refl refl refl m(2) [symmetric] refl m(3) refl m(4)] l build_len(1) [OF m(3)] by simp
    ultimately show ?thesis using m(5) by simp
  next
    case False
    with 3(3) show ?thesis
      by (auto simp: build_members.simps [of d] split: prod.splits sum.splits jtoken.splits if_splits)
  qed
next
  case (4 d)
  show ?case
  proof (cases "More d")
    case True
    with 4(3) obtain t d1 w d2 vs' where m: "Token d = (Inr t, d1)" "build d1 t = Some (w, d2)"
      "build_elems d2 = Some (vs', d')" "vs = w # vs'"
      by (auto simp: build_elems.simps [of d] split: prod.splits sum.splits option.splits)
    have l: "dlen d1 < n" using Token_len [OF m(1)] 4(4) by auto
    have "short n w" using 4(1) [OF True m(1) [symmetric] refl m(2)] l short_mono [OF Token_short] m(1) 4(4) by fastforce
    moreover have "\<forall>v\<in>set vs'. short n v"
      using 4(2) [OF True m(1) [symmetric] refl m(2) refl m(3)] l build_len(1) [OF m(2)] by simp
    ultimately show ?thesis using m(4) by simp
  next
    case False
    with 4(3) show ?thesis
      by (auto simp: build_elems.simps [of d] split: prod.splits sum.splits jtoken.splits if_splits)
  qed
qed

lemma Unmarshal_short: "Unmarshal data = Some v \<Longrightarrow> short (length data) v"
proof -
  assume "Unmarshal data = Some v"
  then obtain d t d1 where "Token (NewDecoder data) = (Inr t, d1)" "build d1 t = Some (v, d)"
    by (auto simp: Unmarshal_def split: option.splits if_splits elim: next_valueE)
  with build_short(1) [of d1 t v d "length data"] Token_short [of "NewDecoder data"] Token_len [of "NewDecoder data" t d1]
  show ?thesis by (simp add: NewDecoder_def less_imp_le)
qed

lemma input_body_short:
  "decode_members input_table ms q = Some q' \<Longrightarrow> \<forall>m\<in>set ms. short n (snd m) \<Longrightarrow> length (iq_Body q) < n \<Longrightarrow>
     length (iq_Body q') < n"
proof (induction ms arbitrary: q)
  case (Cons m ms)
  obtain k v where m: "m = (k, v)" by fastforce
  from Cons(2) obtain f q1 where f: "find_field input_table k = Some f" "f v q = Some q1"
    "decode_members input_table ms q1 = Some q'" by (auto simp: m split: option.splits)
  have "f \<in> snd ` set input_table"
    using find_field_in [OF f(1)] by force
  then have "length (iq_Body q1) < n"
    using f(2) Cons(3,4) m by (cases v) (auto simp: input_table_def set_string_def set_slice_def)
  with Cons f show ?case by simp
qed simp

text \<open>
  Property C39: The command takes no body of 768 KiB or more, however the request is written:
  the whole JSON document may have 1 MiB (\<open>DecodeConfigJSON\<close>), and a body of that size takes
  more in base64. The command's own checks, for 2 MiB of JSON and 1 MiB of body, come too late.
\<close>

theorem request_body_limit:
  assumes "read_request stdin = Inr request"
  shows "length (ar_Body request) < 786432"
proof -
  from assms obtain data q where d: "DecodeConfigJSON input_shape input_table input_zero data = Inr q"
    and b: "b64_encode (ar_Body request) = iq_Body q"
    by (auto simp: read_request_def res_simps split: sum.splits if_splits option.splits)
  from d obtain v where v: "length data \<le> 1048576" "Unmarshal data = Some v" "decode_struct input_table v input_zero = Some q"
    unfolding DecodeConfigJSON_iff by auto
  have "length (iq_Body q) < 1048576"
  proof (cases "\<exists>ms. v = JObject ms")
    case True
    with Unmarshal_short [OF v(2)] v input_body_short [of _ input_zero q "length data"] show ?thesis
      by (cases data) (fastforce simp: decode_struct_def list_all_iff input_zero_def Unmarshal_def NewDecoder_def next_value_def Token.simps skip_ws_def)+
  next
    case False
    with v(3) show ?thesis by (cases v) (auto simp: decode_struct_def input_zero_def)
  qed
  then have "4 * ((length (ar_Body request) + 2) div 3) < 1048576" using b b64_length [of "ar_Body request"] by simp
  then have "length (ar_Body request) + 2 < 786432" by (simp add: div_less_iff_less_mult)
  then show ?thesis by simp
qed

definition sample_post :: ApplicationRequest where
  "sample_post = \<lparr>ar_Method = ''POST'', ar_Headers = Some [\<lparr>h_Name = ''accept'', h_Value = ''*/*''\<rparr>], ar_Body = ''hello''\<rparr>"

lemma sample_post_ok:
  "utf8_valid (ar_Method sample_post)" "headers_good (ar_Headers sample_post)" "length (request_json sample_post) \<le> 200"
  by (simp_all add: sample_post_def headers_good_def header_good_def request_json_def input_members_def headers_json_def
      header_members_def json_quote_def escape_body_plain b64_digit_def b64_digits_def)

theorem request_body_limit_witness:
  "\<exists>request. read_request (whole (request_json sample_post)) = Inr request \<and> ar_Body request = ''hello'' \<and> length (ar_Body request) < 786432"
proof -
  have r: "read_request (whole (request_json sample_post)) = Inr sample_post"
    using sample_post_ok(3) by (intro read_request_json sample_post_ok(1,2)) (simp_all add: sample_post_def MaxApplicationRequestBytes_def)
  from request_body_limit [OF r] r show ?thesis by (simp add: sample_post_def)
qed

end
