(* ===== verification/JsonIndent.thy ===== *)
theory JsonIndent
  imports ConfigJson
begin

text \<open>
  \<open>json.MarshalIndent\<close> with the indentation of two spaces that the program uses, and that the
  decoders read back what it prints.
\<close>

subsection \<open>Printing\<close>

definition nl :: "nat \<Rightarrow> bytes" where
  "nl n = CHR 0x0A # replicate (2 * n) (CHR '' '')"

definition next_item :: "nat \<Rightarrow> bytes \<Rightarrow> bytes" where
  "next_item n p = CHR '','' # nl (Suc n) @ p"

fun block :: "char \<Rightarrow> char \<Rightarrow> nat \<Rightarrow> bytes list \<Rightarrow> bytes" where
  "block opening closing n [] = [opening, closing]"
| "block opening closing n (p # ps) =
     opening # nl (Suc n) @ p @ concat (map (next_item n) ps) @ nl n @ [closing]"

primrec json_indent :: "jvalue \<Rightarrow> nat \<Rightarrow> bytes" where
  "json_indent JNull n = json_print JNull"
| "json_indent (JBool b) n = json_print (JBool b)"
| "json_indent (JNumber s) n = json_print (JNumber s)"
| "json_indent (JString s) n = json_print (JString s)"
| "json_indent (JArray vs) n = block (CHR ''['') (CHR '']'') n (map (\<lambda>f. f (Suc n)) (map json_indent vs))"
| "json_indent (JObject ms) n = block (CHR ''{'') (CHR ''}'') n
     (map (\<lambda>(k, f). json_quote k @ '': '' @ f (Suc n)) (map (map_prod id json_indent) ms))"

definition MarshalIndent :: "jvalue \<Rightarrow> bytes" where
  "MarshalIndent v = json_indent v 0"

abbreviation indent_member :: "nat \<Rightarrow> bytes \<times> jvalue \<Rightarrow> bytes" where
  "indent_member n m \<equiv> json_quote (fst m) @ CHR '':'' # CHR '' '' # json_indent (snd m) n"

lemma json_indent_Array: "json_indent (JArray vs) n = block (CHR ''['') (CHR '']'') n (map (\<lambda>v. json_indent v (Suc n)) vs)"
  by (simp add: comp_def)

lemma json_indent_Object: "json_indent (JObject ms) n = block (CHR ''{'') (CHR ''}'') n (map (indent_member (Suc n)) ms)"
  by (simp add: comp_def case_prod_beta map_prod_def)

declare json_indent.simps(5,6) [simp del]

subsection \<open>Reading back\<close>

lemma ws_nl [simp]: "list_all is_ws (nl n)" "list_all is_ws ('' '')"
  by (simp_all add: nl_def is_ws_def list_all_iff)

lemma skip_ws_append: "list_all is_ws w \<Longrightarrow> skip_ws (w @ buf) = skip_ws buf"
  by (simp add: skip_ws_def list_all_iff dropWhile_append2)

lemma Token_ws:
  assumes "list_all is_ws w" "Token (buf, st, stk) = (Inr t, d)"
  shows "Token (w @ buf, st, stk) = (Inr t, d)"
  using assms(2) unfolding Token.simps [of "w @ buf"] Token.simps [of buf] skip_ws_append [OF assms(1)]
  by (auto split: list.splits if_splits option.splits)

lemma More_ws: "list_all is_ws w \<Longrightarrow> More (w @ buf, st, stk) = More (buf, st, stk)"
  by (simp add: More_def skip_ws_append)

lemma closes_nl [simp]: "closes (nl n @ r)"
  by (simp add: nl_def closes_def is_ws_def)

definition indents :: "jvalue \<Rightarrow> bool" where
  "indents v \<longleftrightarrow> (\<forall>n st stk rest. tokenValueAllowed st \<longrightarrow> closes rest \<longrightarrow>
     next_value (json_indent v n @ rest, st, stk) = Some (v, (rest, tokenValueEnd st, stk)))"

lemma indentsD:
  "indents v \<Longrightarrow> tokenValueAllowed st \<Longrightarrow> closes rest \<Longrightarrow>
     next_value (json_indent v n @ rest, st, stk) = Some (v, (rest, tokenValueEnd st, stk))"
  by (simp add: indents_def)

lemma next_value_ws:
  assumes "list_all is_ws w" "next_value (buf, st, stk) = Some (v, d)"
  obtains t d1 where "Token (w @ buf, st, stk) = (Inr t, d1)" "build d1 t = Some (v, d)"
  using assms(2) by (rule next_valueE) (use that Token_ws [OF assms(1)] in blast)

lemma next_item_append: "next_item n p @ r = CHR '','' # nl (Suc n) @ p @ r"
  by (simp add: next_item_def)

lemma closes_items [simp]: "closes (concat (map (next_item n) ps) @ nl m @ r)"
  by (cases ps) (simp_all add: next_item_def)

lemma indent_elems_tail:
  assumes "\<forall>v\<in>set vs. indents v"
  shows "build_elems (concat (map (next_item n) (map (\<lambda>v. json_indent v (Suc n)) vs)) @ nl n @ CHR '']'' # rest,
     ArrayComma, s # stk) = Some (vs, (rest, tokenValueEnd s, stk))"
  using assms
proof (induction vs)
  case Nil
  have "Token (nl n @ CHR '']'' # rest, ArrayComma, s # stk) = (Inr (Delim (CHR '']'')), (rest, tokenValueEnd s, stk))"
    by (rule Token_ws) (simp_all add: Token_close)
  then show ?case by (subst build_elems.simps) (simp add: More_ws)
next
  case (Cons v vs)
  let ?t = "concat (map (next_item n) (map (\<lambda>v. json_indent v (Suc n)) vs)) @ nl n @ CHR '']'' # rest"
  have "next_value (json_indent v (Suc n) @ ?t, ArrayValue, s # stk) = Some (v, (?t, ArrayComma, s # stk))"
    using indentsD [OF _ _ closes_items, of v ArrayValue "Suc n" n "map (\<lambda>v. json_indent v (Suc n)) vs" n "CHR '']'' # rest" "s # stk"]
      Cons.prems by simp
  then obtain t d1 where "Token (nl (Suc n) @ json_indent v (Suc n) @ ?t, ArrayValue, s # stk) = (Inr t, d1)"
    "build d1 t = Some (v, (?t, ArrayComma, s # stk))" by (rule next_value_ws [OF ws_nl(1)])
  then show ?case using Cons by (subst build_elems.simps) (simp add: next_item_append Token_skip)
qed

lemma Token_indent_key:
  assumes "utf8_valid k" "st = ObjectStart \<or> st = ObjectKey" "list_all is_ws w"
  shows "Token (w @ json_quote k @ rest, st, stk) = (Inr (Scalar (JString k)), (rest, ObjectColon, stk))"
  by (rule Token_ws [OF assms(3) Token_key [OF assms(1,2)]])

lemma indent_members_tail:
  assumes "\<forall>m\<in>set ms. utf8_valid (fst m) \<and> indents (snd m)"
  shows "build_members (concat (map (next_item n) (map (indent_member (Suc n)) ms)) @ nl n @ CHR ''}'' # rest,
     ObjectComma, s # stk) = Some (ms, (rest, tokenValueEnd s, stk))"
  using assms
proof (induction ms)
  case Nil
  have "Token (nl n @ CHR ''}'' # rest, ObjectComma, s # stk) = (Inr (Delim (CHR ''}'')), (rest, tokenValueEnd s, stk))"
    by (rule Token_ws) (simp_all add: Token_close)
  then show ?case by (subst build_members.simps) (simp add: More_ws)
next
  case (Cons m ms)
  let ?t = "concat (map (next_item n) (map (indent_member (Suc n)) ms)) @ nl n @ CHR ''}'' # rest"
  obtain k v where m: "m = (k, v)" by fastforce
  have "next_value (json_indent v (Suc n) @ ?t, ObjectValue, s # stk) = Some (v, (?t, ObjectComma, s # stk))"
    using indentsD [OF _ _ closes_items, of v ObjectValue "Suc n" n "map (indent_member (Suc n)) ms" n "CHR ''}'' # rest" "s # stk"]
      Cons.prems m by simp
  then obtain t d1 where "Token ('' '' @ json_indent v (Suc n) @ ?t, ObjectValue, s # stk) = (Inr t, d1)"
    "build d1 t = Some (v, (?t, ObjectComma, s # stk))" by (rule next_value_ws [OF ws_nl(2)])
  then show ?case using Cons m
    by (subst build_members.simps) (simp add: next_item_append Token_skip Token_indent_key)
qed

lemma json_indent_first:
  assumes "jwf v"
  obtains c cs where "json_indent v n = c # cs" "\<not> is_ws c" "c \<notin> set '']},:''"
proof (cases v)
  case (JArray vs)
  then show thesis using that by (cases vs) (simp_all add: json_indent_Array)
next
  case (JObject ms)
  then show thesis using that by (cases ms) (simp_all add: json_indent_Object)
qed (rule json_print_first [OF assms]; use that in auto)+

lemma More_indent: "jwf v \<Longrightarrow> list_all is_ws w \<Longrightarrow> More (w @ json_indent v n @ rest, st, stk)"
  by (rule json_indent_first [of v n]) (auto simp: More_ws, simp add: More_def skip_ws_Cons)

lemma indents_array:
  assumes "\<forall>v\<in>set vs. jwf v \<and> indents v"
  shows "indents (JArray vs)"
  unfolding indents_def
proof (intro allI impI)
  fix n st stk rest
  assume st: "tokenValueAllowed st"
  show "next_value (json_indent (JArray vs) n @ rest, st, stk) = Some (JArray vs, (rest, tokenValueEnd st, stk))"
  proof (cases vs)
    case Nil
    then show ?thesis
      by (simp add: json_indent_Array next_value_def Token_open [OF st] build.simps(2) Token_close
          build_elems.simps [of "(CHR '']'' # rest, ArrayStart, st # stk)"])
  next
    case (Cons v ws)
    let ?t = "concat (map (next_item n) (map (\<lambda>v. json_indent v (Suc n)) ws)) @ nl n @ CHR '']'' # rest"
    have "next_value (json_indent v (Suc n) @ ?t, ArrayStart, st # stk) = Some (v, (?t, ArrayComma, st # stk))"
      using indentsD [OF _ _ closes_items, of v ArrayStart "Suc n" n "map (\<lambda>v. json_indent v (Suc n)) ws" n "CHR '']'' # rest" "st # stk"]
        assms Cons by simp
    then obtain t d1 where "Token (nl (Suc n) @ json_indent v (Suc n) @ ?t, ArrayStart, st # stk) = (Inr t, d1)"
      "build d1 t = Some (v, (?t, ArrayComma, st # stk))" by (rule next_value_ws [OF ws_nl(1)])
    with Cons assms indent_elems_tail [of ws n rest st stk] More_indent [of v "nl (Suc n)"]
    have "build_elems (nl (Suc n) @ json_indent v (Suc n) @ ?t, ArrayStart, st # stk) = Some (vs, (rest, tokenValueEnd st, stk))"
      by (subst build_elems.simps) simp
    then show ?thesis by (simp add: Cons json_indent_Array next_value_def Token_open [OF st] build.simps(2))
  qed
qed

lemma indents_object:
  assumes "\<forall>m\<in>set ms. utf8_valid (fst m) \<and> indents (snd m)"
  shows "indents (JObject ms)"
  unfolding indents_def
proof (intro allI impI)
  fix n st stk rest
  assume st: "tokenValueAllowed st"
  show "next_value (json_indent (JObject ms) n @ rest, st, stk) = Some (JObject ms, (rest, tokenValueEnd st, stk))"
  proof (cases ms)
    case Nil
    then show ?thesis
      by (simp add: json_indent_Object next_value_def Token_open [OF st] build.simps(2) Token_close
          build_members.simps [of "(CHR ''}'' # rest, ObjectStart, st # stk)"])
  next
    case (Cons m ns)
    let ?t = "concat (map (next_item n) (map (indent_member (Suc n)) ns)) @ nl n @ CHR ''}'' # rest"
    obtain k v where m: "m = (k, v)" by fastforce
    have "next_value (json_indent v (Suc n) @ ?t, ObjectValue, st # stk) = Some (v, (?t, ObjectComma, st # stk))"
      using indentsD [OF _ _ closes_items, of v ObjectValue "Suc n" n "map (indent_member (Suc n)) ns" n "CHR ''}'' # rest" "st # stk"]
        assms Cons m by simp
    then obtain t d1 where "Token ('' '' @ json_indent v (Suc n) @ ?t, ObjectValue, st # stk) = (Inr t, d1)"
      "build d1 t = Some (v, (?t, ObjectComma, st # stk))" by (rule next_value_ws [OF ws_nl(2)])
    with Cons m assms indent_members_tail [of ns n rest st stk]
    have "build_members (nl (Suc n) @ indent_member (Suc n) m @ ?t, ObjectStart, st # stk) = Some (ms, (rest, tokenValueEnd st, stk))"
      by (subst build_members.simps) (simp add: Token_indent_key Token_skip More_ws)
    then show ?thesis by (simp add: Cons json_indent_Object next_value_def Token_open [OF st] build.simps(2))
  qed
qed

lemma json_indents: "jwf v \<Longrightarrow> indents v"
proof (induction v)
  case (JArray vs)
  then show ?case by (intro indents_array) auto
next
  case (JObject ms)
  then show ?case by (intro indents_object) (fastforce elim: snds.cases)
qed (use reads_backD [OF json_reads_back] in \<open>auto simp: indents_def simp del: json_print.simps\<close>)

subsection \<open>Configuration files\<close>

lemma utf8_nl: "utf8_valid (nl n)"
  by (rule utf8_valid_ascii) (auto simp: nl_def)

lemma utf8_items: "\<forall>p\<in>set ps. utf8_valid p \<Longrightarrow> utf8_valid (concat (map (next_item n) ps))"
  by (induction ps) (simp_all add: next_item_def utf8_valid_append utf8_nl)

lemma utf8_block:
  "ord opening < 128 \<Longrightarrow> ord closing < 128 \<Longrightarrow> \<forall>p\<in>set ps. utf8_valid p \<Longrightarrow> utf8_valid (block opening closing n ps)"
  by (cases ps) (simp_all add: utf8_valid_append utf8_nl utf8_items)

lemma utf8_indent: "jwf v \<Longrightarrow> utf8_valid (json_indent v n)"
proof (induction v arbitrary: n)
  case (JArray vs)
  then show ?case by (auto simp: json_indent_Array intro!: utf8_block)
next
  case (JObject ms)
  have "utf8_valid (indent_member (Suc n) m)" if "m \<in> set ms" for m
    using JObject(1) [of m "snd m" "Suc n"] JObject(2) that by (cases m) (auto simp: utf8_valid_append utf8_quote)
  then show ?case by (auto simp: json_indent_Object intro!: utf8_block)
qed (auto simp: utf8_quote utf8_Itoa)

definition neutral :: "bytes \<Rightarrow> bool" where
  "neutral p \<longleftrightarrow> (\<forall>t. surrogates_from False (p @ t) = surrogates_from False t)"

lemma neutral_nl: "neutral (nl n)"
  unfolding neutral_def by (intro allI surrogates_outside) (auto simp: nl_def)

lemma neutral_append: "neutral p \<Longrightarrow> neutral q \<Longrightarrow> neutral (p @ q)"
  by (simp add: neutral_def)

lemma neutral_Cons: "c \<noteq> CHR 0x22 \<Longrightarrow> neutral p \<Longrightarrow> neutral (c # p)"
  by (simp add: neutral_def surrogates_skip)

lemma neutral_Nil: "neutral []"
  by (simp add: neutral_def)

lemma neutral_items: "\<forall>p\<in>set ps. neutral p \<Longrightarrow> neutral (concat (map (next_item n) ps))"
  by (induction ps) (auto simp: next_item_def neutral_Nil intro!: neutral_append neutral_Cons neutral_nl)

lemma neutral_block:
  "opening \<noteq> CHR 0x22 \<Longrightarrow> closing \<noteq> CHR 0x22 \<Longrightarrow> \<forall>p\<in>set ps. neutral p \<Longrightarrow> neutral (block opening closing n ps)"
  by (cases ps) (auto intro!: neutral_append neutral_Cons neutral_nl neutral_items neutral_Nil)

lemma neutral_indent: "jwf v \<Longrightarrow> neutral (json_indent v n)"
proof (induction v arbitrary: n)
  case (JArray vs)
  then show ?case by (auto simp: json_indent_Array intro!: neutral_block)
next
  case (JObject ms)
  have "neutral (indent_member (Suc n) m)" if "m \<in> set ms" for m
    using JObject(1) [of m "snd m" "Suc n"] JObject(2) that
    by (cases m) (auto simp: neutral_def surrogates_quote surrogates_skip)
  then show ?case by (auto simp: json_indent_Object intro!: neutral_block)
qed (simp_all add: neutral_def surrogates_print del: json_print.simps)

text \<open>The file that \<open>writeJSON\<close> and the settings commands write: the printed object and a line feed.\<close>

definition json_file :: "jvalue \<Rightarrow> bytes" where
  "json_file v = MarshalIndent v @ [CHR 0x0A]"

lemma json_file_braces:
  assumes "jwf (JObject ms)"
  obtains s where "MarshalIndent (JObject ms) = CHR ''{'' # s @ ''}''" "utf8_valid s"
proof (cases ms)
  case Nil
  then show thesis using that [of "[]"] by (simp add: MarshalIndent_def json_indent_Object)
next
  case (Cons m ns)
  define q qs where "q = indent_member (Suc 0) m" and "qs = map (indent_member (Suc 0)) ns"
  have "utf8_valid (indent_member (Suc 0) m)" if "m \<in> set ms" for m
    using assms that utf8_indent by (cases m) (auto simp: utf8_valid_append utf8_quote)
  then have "utf8_valid q" "\<forall>p\<in>set qs. utf8_valid p" using Cons by (auto simp: q_def qs_def simp del: split_paired_All)
  then have "utf8_valid (nl (Suc 0) @ q @ concat (map (next_item 0) qs) @ nl 0)"
    by (intro utf8_valid_appendI utf8_nl utf8_items)
  moreover have "MarshalIndent (JObject ms) = CHR ''{'' # (nl (Suc 0) @ q @ concat (map (next_item 0) qs) @ nl 0) @ ''}''"
    unfolding MarshalIndent_def json_indent_Object Cons q_def qs_def by simp
  ultimately show thesis by (rule that [rotated])
qed

lemma TrimSpace_file:
  assumes "utf8_valid s"
  shows "TrimSpace (CHR ''{'' # s @ ''}'' @ [CHR 0x0A]) = CHR ''{'' # s @ ''}''"
proof -
  have "runes (CHR ''{'' # s @ ''}'' @ [CHR 0x0A]) = (123, ''{'') # runes s @ [(125, ''}''), (10, [CHR 0x0A])]"
    using assms runes_append [of s "''}'' @ [CHR 0x0A]"] by simp
  then show ?thesis
    by (simp add: TrimSpace_def IsSpace_def dropWhile_append3 runes_concat)
qed

lemma DecodeConfigJSON_file:
  assumes "config_tree (JObject ms) 0" "jwf (JObject ms)" "conforms (JObject ms) target"
    "decode_members tbl ms x = Some y" "length (json_file (JObject ms)) \<le> 1024 * 1024"
  shows "DecodeConfigJSON target tbl x (json_file (JObject ms)) = Inr y"
proof -
  obtain s where s: "MarshalIndent (JObject ms) = CHR ''{'' # s @ ''}''" "utf8_valid s"
    using json_file_braces [OF assms(2)] .
  have t: "TrimSpace (json_file (JObject ms)) = CHR ''{'' # s @ ''}''"
    using TrimSpace_file [OF s(2)] by (simp add: json_file_def s(1))
  have u: "utf8_valid (json_file (JObject ms))" using s by (simp add: json_file_def utf8_valid_append)
  have v: "validateSurrogates (json_file (JObject ms)) = Inr ()"
    using neutral_indent [OF assms(2), of 0] surrogates_skip [of "CHR 0x0A" "[]"]
    by (simp add: json_file_def validateSurrogates_def neutral_def MarshalIndent_def)
  have "next_value (NewDecoder (json_file (JObject ms))) = Some (JObject ms, ([CHR 0x0A], TopValue, []))"
    using indentsD [OF json_indents [OF assms(2)], of TopValue "[CHR 0x0A]" 0 "[]"]
    by (simp add: NewDecoder_def json_file_def MarshalIndent_def closes_def is_ws_def)
  then have "Unmarshal (json_file (JObject ms)) = Some (JObject ms)"
    by (simp add: Unmarshal_def skip_ws_def is_ws_def)
  then show ?thesis
    unfolding DecodeConfigJSON_iff t using assms u v by (simp add: decode_struct_def)
qed

text \<open>A struct whose JSON is written to a file and decoded strictly from it.\<close>

context config_struct
begin

lemma decode_file:
  "good x \<Longrightarrow> length (json_file (JObject (members x))) \<le> 1024 * 1024 \<Longrightarrow>
     DecodeConfigJSON target tbl zero (json_file (JObject (members x))) = Inr x"
  by (rule DecodeConfigJSON_file [OF tree wf shape decode])

end

end
