(* ===== verification/Disk.thy ===== *)
theory Disk
  imports Prelude
begin

text \<open>
  The file system as the settings commands use it: one operation at a time, each of which may
  fail, and between any two of which other programs may change anything.
\<close>

subsection \<open>Files\<close>

text \<open>
  What a name denotes: a regular file with its identity (what \<open>os.SameFile\<close> compares) and its
  contents, a directory, or something else, with whether it leads to a regular file and what
  reading it would give.
\<close>

datatype entry = Regular_file nat bytes | Directory | Other_file bool "bytes res"

type_synonym names = "string \<rightharpoonup> entry"

text \<open>
  The script says for each coming operation what other programs do before it and whether it
  fails; when it has run out nothing else happens. \<open>dk_fresh\<close> identifies the next new file.
\<close>

record disk =
  dk_names :: names
  dk_fresh :: nat
  dk_script :: "((names \<Rightarrow> names) \<times> err option) list"

type_synonym 'a dio = "disk \<Rightarrow> 'a res \<times> disk"

definition disk_op :: "(names \<Rightarrow> 'a res \<times> names) \<Rightarrow> 'a dio" where
  "disk_op f d =
     (case dk_script d of
        [] \<Rightarrow> (case f (dk_names d) of (r, fs) \<Rightarrow> (r, d\<lparr>dk_names := fs\<rparr>))
      | (g, e) # rest \<Rightarrow>
          (case e of
             Some x \<Rightarrow> (Inl x, d\<lparr>dk_names := g (dk_names d), dk_script := rest\<rparr>)
           | None \<Rightarrow> (case f (g (dk_names d)) of (r, fs) \<Rightarrow> (r, d\<lparr>dk_names := fs, dk_script := rest\<rparr>))))"

definition bind :: "'a dio \<Rightarrow> ('a \<Rightarrow> 'b dio) \<Rightarrow> 'b dio" where
  "bind m f d = (case m d of (Inl e, d') \<Rightarrow> (Inl e, d') | (Inr x, d') \<Rightarrow> f x d')"

text \<open>A deferred action runs however the rest ends; its own error is dropped.\<close>

definition deferred :: "unit dio \<Rightarrow> 'a dio \<Rightarrow> 'a dio" where
  "deferred cleanup m d = (case m d of (r, d') \<Rightarrow> (r, snd (cleanup d')))"

definition done_with :: "'a res \<Rightarrow> 'a dio" where
  "done_with r d = (r, d)"

definition os_Lstat :: "string \<Rightarrow> entry dio" where
  "os_Lstat p = disk_op (\<lambda>fs. (case fs p of None \<Rightarrow> Inl NotExist | Some e \<Rightarrow> Inr e, fs))"

definition os_ReadFile :: "string \<Rightarrow> bytes dio" where
  "os_ReadFile p = disk_op (\<lambda>fs.
     (case fs p of
        None \<Rightarrow> Inl NotExist
      | Some (Regular_file i content) \<Rightarrow> Inr content
      | Some Directory \<Rightarrow> Inl (Errorf ''is a directory'')
      | Some (Other_file b r) \<Rightarrow> r, fs))"

text \<open>\<open>os.Stat\<close> follows links; the callers only ask whether it ends at a regular file.\<close>

definition os_Stat_regular :: "string \<Rightarrow> bool dio" where
  "os_Stat_regular p = disk_op (\<lambda>fs.
     (case fs p of
        None \<Rightarrow> Inl NotExist
      | Some (Regular_file i content) \<Rightarrow> Inr True
      | Some Directory \<Rightarrow> Inr False
      | Some (Other_file b r) \<Rightarrow> Inr b, fs))"

text \<open>\<open>os.CreateTemp\<close> has found the free name \<open>p\<close>; it returns the identity of the file it made.\<close>

definition os_CreateTemp :: "string \<Rightarrow> nat dio" where
  "os_CreateTemp p d =
     (case disk_op (\<lambda>fs. if fs p \<noteq> None then (Inl (Errorf ''file exists''), fs)
                           else (Inr (dk_fresh d), fs(p \<mapsto> Regular_file (dk_fresh d) []))) d of
        (r, d') \<Rightarrow> (r, d'\<lparr>dk_fresh := Suc (dk_fresh d)\<rparr>))"

text \<open>A write goes to the open file, under whatever names it has.\<close>

definition os_Write :: "nat \<Rightarrow> bytes \<Rightarrow> unit dio" where
  "os_Write i data = disk_op (\<lambda>fs. (Inr (), \<lambda>n. case fs n of
     Some (Regular_file j content) \<Rightarrow> Some (Regular_file j (if j = i then content @ data else content)) | x \<Rightarrow> x))"

text \<open>\<open>Sync\<close> and \<open>Close\<close> change no file.\<close>

definition os_Sync :: "unit dio" where
  "os_Sync = disk_op (\<lambda>fs. (Inr (), fs))"

definition os_Rename :: "string \<Rightarrow> string \<Rightarrow> unit dio" where
  "os_Rename a b = disk_op (\<lambda>fs. case fs a of
     None \<Rightarrow> (Inl NotExist, fs) | Some e \<Rightarrow> (Inr (), if a = b then fs else fs(b \<mapsto> e, a := None)))"

definition os_Link :: "string \<Rightarrow> string \<Rightarrow> unit dio" where
  "os_Link a b = disk_op (\<lambda>fs. case fs a of
     None \<Rightarrow> (Inl NotExist, fs)
   | Some e \<Rightarrow> if fs b \<noteq> None then (Inl (Errorf ''file exists''), fs) else (Inr (), fs(b \<mapsto> e)))"

definition os_Remove :: "string \<Rightarrow> unit dio" where
  "os_Remove a = disk_op (\<lambda>fs. case fs a of None \<Rightarrow> (Inl NotExist, fs) | Some e \<Rightarrow> (Inr (), fs(a := None)))"

definition os_Mkdir :: "string \<Rightarrow> unit dio" where
  "os_Mkdir a = disk_op (\<lambda>fs. if fs a \<noteq> None then (Inl (Errorf ''file exists''), fs) else (Inr (), fs(a \<mapsto> Directory)))"

text \<open>Of the directories that \<open>MkdirAll\<close> makes the model records the last.\<close>

definition os_MkdirAll :: "string \<Rightarrow> unit dio" where
  "os_MkdirAll a = disk_op (\<lambda>fs. case fs a of
     None \<Rightarrow> (Inr (), fs(a \<mapsto> Directory))
   | Some (Regular_file i content) \<Rightarrow> (Inl (Errorf ''not a directory''), fs)
   | Some e \<Rightarrow> (Inr (), fs))"

definition within :: "string \<Rightarrow> string \<Rightarrow> bool" where
  "within a n \<longleftrightarrow>
     n = a \<or> (let prefix = (if a \<noteq> [] \<and> last a = CHR ''/'' then a else a @ ''/'') in take (length prefix) n = prefix)"

definition os_RemoveAll :: "string \<Rightarrow> unit dio" where
  "os_RemoveAll a = disk_op (\<lambda>fs. (Inr (), \<lambda>n. if within a n then None else fs n))"

text \<open>\<open>os.OpenFile\<close> for writing, with \<open>O_CREATE\<close> and \<open>O_TRUNC\<close>; then \<open>os.WriteFile\<close>.\<close>

definition os_Create :: "string \<Rightarrow> nat dio" where
  "os_Create p d =
     (case disk_op (\<lambda>fs. case fs p of
          None \<Rightarrow> (Inr (dk_fresh d), fs(p \<mapsto> Regular_file (dk_fresh d) []))
        | Some (Regular_file i content) \<Rightarrow>
            (Inr i, \<lambda>n. case fs n of Some (Regular_file j content') \<Rightarrow>
               Some (Regular_file j (if j = i then [] else content')) | x \<Rightarrow> x)
        | Some e \<Rightarrow> (Inl (Errorf ''not a regular file''), fs)) d of
        (r, d') \<Rightarrow> (r, d'\<lparr>dk_fresh := Suc (dk_fresh d)\<rparr>))"

definition os_WriteFile :: "string \<Rightarrow> bytes \<Rightarrow> unit dio" where
  "os_WriteFile p data = bind (os_Create p) (\<lambda>i. bind (os_Write i data) (\<lambda>_. os_Sync))"

text \<open>A temporary file with the given contents, for the rest of an action; it is removed in the end.\<close>

definition with_temporary :: "string \<Rightarrow> bytes \<Rightarrow> 'a dio \<Rightarrow> 'a dio" where
  "with_temporary temp data rest =
     bind (os_CreateTemp temp) (\<lambda>i. deferred (os_Remove temp)
       (bind (os_Write i data) (\<lambda>_. bind os_Sync (\<lambda>_. bind os_Sync (\<lambda>_. rest)))))"

subsection \<open>Undisturbed operations\<close>

text \<open>Any operation may fail, but no other program interferes, and the next identity is unused.\<close>

definition below :: "nat \<Rightarrow> names \<Rightarrow> bool" where
  "below k fs \<longleftrightarrow> (\<forall>n i content. fs n = Some (Regular_file i content) \<longrightarrow> i < k)"

lemma belowD: "below k fs \<Longrightarrow> fs n = Some (Regular_file i content) \<Longrightarrow> i < k"
  by (auto simp: below_def)

lemma below_remove: "below k fs \<Longrightarrow> below k (fs(n := None))"
  by (simp add: below_def)

lemma below_alias: "below k fs \<Longrightarrow> fs m = Some e \<Longrightarrow> below k (fs(n \<mapsto> e))"
  by (simp add: below_def) blast

lemma below_new: "below k fs \<Longrightarrow> i < k \<Longrightarrow> below k (fs(n \<mapsto> Regular_file i content))"
  by (simp add: below_def)

lemma below_directory: "below k fs \<Longrightarrow> below k (fs(n \<mapsto> Directory))"
  by (simp add: below_def)

lemma below_Suc: "below k fs \<Longrightarrow> below (Suc k) fs"
  by (auto simp: below_def less_Suc_eq)

definition undisturbed :: "disk \<Rightarrow> bool" where
  "undisturbed d \<longleftrightarrow> (\<forall>s\<in>set (dk_script d). fst s = id) \<and> below (dk_fresh d) (dk_names d)"

lemma disk_op_cases:
  assumes "disk_op f d = (r, d')" "undisturbed d"
  obtains (failed) e where "r = Inl e" "dk_names d' = dk_names d" "undisturbed d'" "dk_fresh d' = dk_fresh d"
    | (ran) "f (dk_names d) = (r, dk_names d')" "dk_fresh d' = dk_fresh d" "\<forall>s\<in>set (dk_script d'). fst s = id"
  using assms
  by (auto simp: disk_op_def undisturbed_def split: list.splits prod.splits option.splits)

lemma bind_cases:
  assumes "bind m f d = (r, d')"
  obtains (failed) e where "m d = (Inl e, d')" "r = Inl e" | (ran) x d1 where "m d = (Inr x, d1)" "f x d1 = (r, d')"
  using assms by (auto simp: bind_def split: prod.splits sum.splits)

text \<open>Operations that only look.\<close>

definition looks :: "'a dio \<Rightarrow> bool" where
  "looks m \<longleftrightarrow> (\<exists>f. m = disk_op f \<and> (\<forall>fs. snd (f fs) = fs))"

lemma looks_simps [simp]: "looks (os_Lstat p)" "looks (os_ReadFile p)" "looks os_Sync" "looks (os_Stat_regular p)"
  by (auto simp: looks_def os_Lstat_def os_ReadFile_def os_Sync_def os_Stat_regular_def)

lemma looked:
  assumes "m d = (r, d')" "undisturbed d" "looks m"
  shows "dk_names d' = dk_names d" "undisturbed d'"
proof -
  from assms obtain f where f: "disk_op f d = (r, d')" "snd (f (dk_names d)) = dk_names d" by (auto simp: looks_def)
  from f(1) assms(2) have "dk_names d' = dk_names d \<and> undisturbed d'"
    by (cases rule: disk_op_cases) (use f(2) assms(2) in \<open>auto simp: undisturbed_def\<close>)
  then show "dk_names d' = dk_names d" "undisturbed d'" by simp_all
qed

lemma os_ReadFile_Inr:
  assumes "os_ReadFile p d = (Inr data, d')" "undisturbed d" "dk_names d p = Some (Regular_file i content)"
  shows "data = content"
proof -
  from assms(1) have "disk_op (\<lambda>fs. (case fs p of None \<Rightarrow> Inl NotExist | Some (Regular_file i content) \<Rightarrow> Inr content
      | Some Directory \<Rightarrow> Inl (Errorf ''is a directory'') | Some (Other_file b r) \<Rightarrow> r, fs)) d = (Inr data, d')"
    by (simp add: os_ReadFile_def)
  then show ?thesis using assms(2) by (cases rule: disk_op_cases) (use assms(3) in auto)
qed

lemma os_Lstat_Inr:
  assumes "os_Lstat p d = (Inr e, d')" "undisturbed d"
  shows "dk_names d p = Some e"
proof -
  from assms(1) have "disk_op (\<lambda>fs. (case fs p of None \<Rightarrow> Inl NotExist | Some e \<Rightarrow> Inr e, fs)) d = (Inr e, d')"
    by (simp add: os_Lstat_def)
  then show ?thesis using assms(2) by (cases rule: disk_op_cases) (auto split: option.splits)
qed

lemma os_CreateTemp_names:
  assumes "os_CreateTemp p d = (r, d')" "undisturbed d"
  obtains (failed) e where "r = Inl e" "dk_names d' = dk_names d" "undisturbed d'"
    | (ran) "r = Inr (dk_fresh d)" "dk_names d p = None" "dk_names d' = (dk_names d)(p \<mapsto> Regular_file (dk_fresh d) [])" "undisturbed d'"
proof -
  obtain d1 where o: "disk_op (\<lambda>fs. if fs p \<noteq> None then (Inl (Errorf ''file exists''), fs)
      else (Inr (dk_fresh d), fs(p \<mapsto> Regular_file (dk_fresh d) []))) d = (r, d1)" and d': "d' = d1\<lparr>dk_fresh := Suc (dk_fresh d)\<rparr>"
    using assms(1) by (auto simp: os_CreateTemp_def split: prod.splits)
  from o assms(2) show thesis
  proof (cases rule: disk_op_cases)
    case (failed e)
    then show thesis using d' that(1) by (simp add: undisturbed_def below_Suc)
  next
    case ran
    show thesis
    proof (cases "dk_names d p")
      case None
      with ran(1) have n: "r = Inr (dk_fresh d)" "dk_names d1 = (dk_names d)(p \<mapsto> Regular_file (dk_fresh d) [])" by auto
      have "undisturbed d'"
        using ran(3) assms(2) d' n(2) by (simp add: undisturbed_def below_Suc below_new)
      then show thesis using that(2) n None d' by simp
    next
      case (Some e)
      with ran(1) have "dk_names d1 = dk_names d" "\<exists>e. r = Inl e" by auto
      with ran(3) assms(2) d' show thesis by (auto simp: undisturbed_def below_Suc intro: that(1))
    qed
  qed
qed

lemma new_identity:
  "undisturbed d \<Longrightarrow>
     \<forall>n content. ((dk_names d)(p \<mapsto> Regular_file (dk_fresh d) data)) n = Some (Regular_file (dk_fresh d) content) \<longrightarrow> n = p"
  by (auto simp: undisturbed_def dest: belowD)

lemma os_Write_names:
  assumes "os_Write i data d = (r, d')" "undisturbed d" "dk_names d p = Some (Regular_file i [])"
    "\<forall>n content. dk_names d n = Some (Regular_file i content) \<longrightarrow> n = p"
  obtains (failed) e where "r = Inl e" "dk_names d' = dk_names d" "undisturbed d'"
    | (ran) "r = Inr ()" "dk_names d' = (dk_names d)(p \<mapsto> Regular_file i data)" "undisturbed d'"
proof -
  from assms(1) have "disk_op (\<lambda>fs. (Inr (), \<lambda>n. case fs n of
      Some (Regular_file j content) \<Rightarrow> Some (Regular_file j (if j = i then content @ data else content)) | x \<Rightarrow> x)) d = (r, d')"
    by (simp add: os_Write_def)
  then show thesis using assms(2)
  proof (cases rule: disk_op_cases)
    case (failed e)
    then show thesis using that(1) by blast
  next
    case ran
    then have d': "dk_names d' = (\<lambda>n. case dk_names d n of
        Some (Regular_file j content) \<Rightarrow> Some (Regular_file j (if j = i then content @ data else content)) | x \<Rightarrow> x)" by simp
    have "dk_names d' n = ((dk_names d)(p \<mapsto> Regular_file i data)) n" for n
    proof (cases "n = p")
      case True
      then show ?thesis using assms(3) by (simp add: d')
    next
      case False
      with assms(4) have "\<forall>content. dk_names d n \<noteq> Some (Regular_file i content)" by blast
      with False show ?thesis by (simp add: d' split: option.split entry.split)
    qed
    then have n: "dk_names d' = (dk_names d)(p \<mapsto> Regular_file i data)" by blast
    moreover have "undisturbed d'"
      using ran(2,3) n assms(2) belowD [of "dk_fresh d" "dk_names d" p i "[]"] assms(3) by (simp add: undisturbed_def below_new)
    ultimately show thesis using ran(1) that(2) by simp
  qed
qed

lemma os_Create_new:
  assumes "os_Create p d = (r, d')" "undisturbed d" "dk_names d p = None"
  obtains (failed) e where "r = Inl e" "dk_names d' = dk_names d" "undisturbed d'"
    | (ran) "r = Inr (dk_fresh d)" "dk_names d' = (dk_names d)(p \<mapsto> Regular_file (dk_fresh d) [])" "undisturbed d'"
proof -
  obtain d1 where o: "disk_op (\<lambda>fs. case fs p of
          None \<Rightarrow> (Inr (dk_fresh d), fs(p \<mapsto> Regular_file (dk_fresh d) []))
        | Some (Regular_file i content) \<Rightarrow>
            (Inr i, \<lambda>n. case fs n of Some (Regular_file j content') \<Rightarrow>
               Some (Regular_file j (if j = i then [] else content')) | x \<Rightarrow> x)
        | Some e \<Rightarrow> (Inl (Errorf ''not a regular file''), fs)) d = (r, d1)" and d': "d' = d1\<lparr>dk_fresh := Suc (dk_fresh d)\<rparr>"
    using assms(1) by (auto simp: os_Create_def split: prod.splits)
  from o assms(2) show thesis
  proof (cases rule: disk_op_cases)
    case (failed e)
    then show thesis using d' that(1) by (simp add: undisturbed_def below_Suc)
  next
    case ran
    with assms(3) have n: "r = Inr (dk_fresh d)" "dk_names d1 = (dk_names d)(p \<mapsto> Regular_file (dk_fresh d) [])" by auto
    have "undisturbed d'"
      using ran(3) assms(2) d' n(2) by (simp add: undisturbed_def below_Suc below_new)
    then show thesis using that(2) n d' by simp
  qed
qed

lemma os_WriteFile_new:
  assumes "os_WriteFile p data d = (r, d')" "undisturbed d" "dk_names d p = None"
  shows "undisturbed d' \<and> (\<forall>n. n \<noteq> p \<longrightarrow> dk_names d' n = dk_names d n) \<and>
     (is_ok r \<longrightarrow> (\<exists>i. dk_names d' p = Some (Regular_file i data)))"
  using assms(1) unfolding os_WriteFile_def
proof (cases rule: bind_cases)
  case (failed e)
  from failed(1) assms(2,3) show ?thesis by (cases rule: os_Create_new) (use failed in \<open>auto simp: is_ok_def\<close>)
next
  case (ran i d1)
  from ran(1) assms(2,3) have c: "i = dk_fresh d" "dk_names d1 = (dk_names d)(p \<mapsto> Regular_file i [])" "undisturbed d1"
    by (cases rule: os_Create_new; auto)+
  have only: "\<forall>n content. dk_names d1 n = Some (Regular_file i content) \<longrightarrow> n = p"
    unfolding c(2) unfolding c(1) by (rule new_identity [OF assms(2)])
  have p: "dk_names d1 p = Some (Regular_file i [])" by (simp add: c(2))
  from ran(2) show ?thesis
  proof (cases rule: bind_cases)
    case (failed e)
    from failed(1) c(3) p only show ?thesis by (cases rule: os_Write_names) (use failed c in \<open>auto simp: is_ok_def\<close>)
  next
    case (ran u d2)
    from ran(1) c(3) p only have "dk_names d2 = (dk_names d)(p \<mapsto> Regular_file i data)" "undisturbed d2"
      by (cases rule: os_Write_names; use c in auto)+
    with looked [where m = os_Sync, OF ran(2)] show ?thesis by auto
  qed
qed

lemma os_Mkdir_names:
  assumes "os_Mkdir p d = (r, d')" "undisturbed d"
  shows "undisturbed d' \<and> (\<forall>n. n \<noteq> p \<longrightarrow> dk_names d' n = dk_names d n) \<and>
     (if is_ok r then dk_names d p = None else dk_names d' = dk_names d)"
proof -
  from assms(1) have "disk_op (\<lambda>fs. if fs p \<noteq> None then (Inl (Errorf ''file exists''), fs)
      else (Inr (), fs(p \<mapsto> Directory))) d = (r, d')" by (simp add: os_Mkdir_def)
  then show ?thesis using assms(2)
  proof (cases rule: disk_op_cases)
    case ran
    from ran(1) have "dk_names d p = None \<and> r = Inr () \<and> dk_names d' = (dk_names d)(p \<mapsto> Directory) \<or>
        (\<exists>e. r = Inl e) \<and> dk_names d' = dk_names d"
      by (auto split: if_splits)
    then show ?thesis using ran(2,3) assms(2) by (auto simp: undisturbed_def below_directory is_ok_def)
  qed (simp add: is_ok_def)
qed

lemma os_RemoveAll_names:
  assumes "os_RemoveAll p d = (r, d')" "undisturbed d"
  shows "\<forall>n. \<not> within p n \<longrightarrow> dk_names d' n = dk_names d n"
proof -
  from assms(1) have "disk_op (\<lambda>fs. (Inr (), \<lambda>n. if within p n then None else fs n)) d = (r, d')" by (simp add: os_RemoveAll_def)
  then show ?thesis using assms(2)
  proof (cases rule: disk_op_cases)
    case ran
    then have "dk_names d' = (\<lambda>n. if within p n then None else dk_names d n)" by simp
    then show ?thesis by simp
  qed simp
qed

lemma os_Rename_names:
  assumes "os_Rename a b d = (r, d')" "undisturbed d"
  obtains (failed) e where "r = Inl e" "dk_names d' = dk_names d" "undisturbed d'"
    | (ran) e where "r = Inr ()" "dk_names d a = Some e"
        "dk_names d' = (if a = b then dk_names d else (dk_names d)(b \<mapsto> e, a := None))" "undisturbed d'"
proof -
  from assms(1) have "disk_op (\<lambda>fs. case fs a of None \<Rightarrow> (Inl NotExist, fs)
     | Some e \<Rightarrow> (Inr (), if a = b then fs else fs(b \<mapsto> e, a := None))) d = (r, d')"
    by (simp add: os_Rename_def)
  then show thesis using assms(2)
  proof (cases rule: disk_op_cases)
    case (failed e)
    then show thesis using that(1) by blast
  next
    case ran
    show thesis
    proof (cases "dk_names d a")
      case None
      with ran(1) have "dk_names d' = dk_names d" "r = Inl NotExist" by auto
      with ran(2,3) assms(2) show thesis by (intro that(1)) (auto simp: undisturbed_def)
    next
      case (Some e)
      with ran(1) have n: "r = Inr ()" "dk_names d' = (if a = b then dk_names d else (dk_names d)(b \<mapsto> e, a := None))" by auto
      then have "undisturbed d'" using ran(2,3) Some assms(2) by (simp add: undisturbed_def below_alias below_remove)
      with n Some show thesis by (intro that(2)) auto
    qed
  qed
qed

lemma os_Link_names:
  assumes "os_Link a b d = (r, d')" "undisturbed d"
  obtains (failed) e where "r = Inl e" "dk_names d' = dk_names d" "undisturbed d'"
    | (ran) e where "r = Inr ()" "dk_names d a = Some e" "dk_names d b = None"
        "dk_names d' = (dk_names d)(b \<mapsto> e)" "undisturbed d'"
proof -
  from assms(1) have "disk_op (\<lambda>fs. case fs a of None \<Rightarrow> (Inl NotExist, fs)
     | Some e \<Rightarrow> if fs b \<noteq> None then (Inl (Errorf ''file exists''), fs) else (Inr (), fs(b \<mapsto> e))) d = (r, d')"
    by (simp add: os_Link_def)
  then show thesis using assms(2)
  proof (cases rule: disk_op_cases)
    case (failed e)
    then show thesis using that(1) by blast
  next
    case ran
    show thesis
    proof (cases "dk_names d a = None \<or> dk_names d b \<noteq> None")
      case True
      with ran(1) have "dk_names d' = dk_names d \<and> (\<exists>e. r = Inl e)" by (auto split: option.splits if_splits)
      with ran(2,3) assms(2) show thesis by (auto simp: undisturbed_def intro: that(1))
    next
      case False
      then obtain e where e: "dk_names d a = Some e" "dk_names d b = None" by auto
      with ran(1) have n: "r = Inr ()" "dk_names d' = (dk_names d)(b \<mapsto> e)" by auto
      then have "undisturbed d'" using ran(2,3) e assms(2) by (simp add: undisturbed_def below_alias)
      with n e show thesis by (intro that(2)) auto
    qed
  qed
qed

lemma os_Remove_names:
  assumes "os_Remove p d = (r, d')" "undisturbed d"
  shows "dk_names d' = dk_names d \<or> dk_names d' = (dk_names d)(p := None)"
proof -
  from assms(1) have "disk_op (\<lambda>fs. case fs p of None \<Rightarrow> (Inl NotExist, fs) | Some e \<Rightarrow> (Inr (), fs(p := None))) d = (r, d')"
    by (simp add: os_Remove_def)
  then show ?thesis using assms(2) by (cases rule: disk_op_cases) (auto split: option.splits)
qed

lemma os_MkdirAll_names:
  assumes "os_MkdirAll a d = (r, d')" "undisturbed d"
  shows "undisturbed d' \<and> (\<forall>n. n \<noteq> a \<longrightarrow> dk_names d' n = dk_names d n)"
proof -
  from assms(1) have "disk_op (\<lambda>fs. case fs a of None \<Rightarrow> (Inr (), fs(a \<mapsto> Directory))
     | Some (Regular_file i content) \<Rightarrow> (Inl (Errorf ''not a directory''), fs) | Some e \<Rightarrow> (Inr (), fs)) d = (r, d')"
    by (simp add: os_MkdirAll_def)
  then show ?thesis using assms(2)
  proof (cases rule: disk_op_cases)
    case ran
    from ran(1) have "dk_names d' = dk_names d \<or> dk_names d' = (dk_names d)(a \<mapsto> Directory)"
      by (auto split: option.splits entry.splits)
    then show ?thesis using ran(2,3) assms(2) by (auto simp: undisturbed_def below_directory)
  qed simp
qed

lemma synced_cases:
  assumes "bind os_Sync (\<lambda>_. bind os_Sync (\<lambda>_. rest)) d = (r, d')" "undisturbed d"
  obtains (failed) e where "r = Inl e" "dk_names d' = dk_names d" "undisturbed d'"
    | (ran) d1 where "rest d1 = (r, d')" "dk_names d1 = dk_names d" "undisturbed d1"
  using assms looks_simps(3) by (elim bind_cases) (metis looked)+

text \<open>
  Either the rest of the action runs with the temporary file complete, or nothing but the
  temporary name has changed.
\<close>

lemma with_temporary_names:
  assumes "with_temporary temp data rest d = (r, d')" "undisturbed d"
  obtains (failed) e where "r = Inl e" "\<And>n. n \<noteq> temp \<Longrightarrow> dk_names d' n = dk_names d n"
    | (ran) d1 d2 where "dk_names d temp = None" "dk_names d1 = (dk_names d)(temp \<mapsto> Regular_file (dk_fresh d) data)"
        "undisturbed d1" "rest d1 = (r, d2)" "undisturbed d2 \<Longrightarrow> \<forall>n. n \<noteq> temp \<longrightarrow> dk_names d' n = dk_names d2 n"
proof -
  have hit: "\<And>n. n \<noteq> temp \<Longrightarrow> dk_names (snd (os_Remove temp e)) n = dk_names e n" if "undisturbed e" for e
    using os_Remove_names [OF surjective_pairing that, of temp] by auto
  from assms(1) show thesis unfolding with_temporary_def
  proof (cases rule: bind_cases)
    case (failed e)
    from failed(1) assms(2) show thesis by (cases rule: os_CreateTemp_names) (use failed that(1) in auto)
  next
    case (ran i d1)
    from ran(1) assms(2) have c: "i = dk_fresh d" "dk_names d temp = None"
      "dk_names d1 = (dk_names d)(temp \<mapsto> Regular_file i [])" "undisturbed d1" by (cases rule: os_CreateTemp_names; auto)+
    obtain d2 where w: "bind (os_Write i data) (\<lambda>_. bind os_Sync (\<lambda>_. bind os_Sync (\<lambda>_. rest))) d1 = (r, d2)"
      and d': "d' = snd (os_Remove temp d2)"
      using ran(2) by (auto simp: deferred_def split: prod.splits)
    have only: "\<forall>n content. dk_names d1 n = Some (Regular_file i content) \<longrightarrow> n = temp"
      unfolding c(3) unfolding c(1) by (rule new_identity [OF assms(2)])
    from w show thesis
    proof (cases rule: bind_cases)
      case (failed e)
      from failed(1) c(4) _ only have "dk_names d2 = dk_names d1" "undisturbed d2"
        by (cases rule: os_Write_names; use c(3) in auto)+
      then show thesis using failed(2) that(1) hit [of d2] c(3) d' by auto
    next
      case (ran u d3)
      from ran(1) c(4) _ only have d3: "dk_names d3 = (dk_names d)(temp \<mapsto> Regular_file i data)" "undisturbed d3"
        by (cases rule: os_Write_names; use c(3) in auto)+
      from ran(2) d3(2) show thesis
      proof (cases rule: synced_cases)
        case (failed e)
        then show thesis using that(1) hit [of d2] d3 d' by auto
      next
        case (ran d4)
        then show thesis using that(2) [of d4 d2] c d3 d' hit [of d2] by auto
      qed
    qed
  qed
qed

subsection \<open>A quiet disk\<close>

text \<open>When nothing fails and nobody interferes, an operation on a free name succeeds.\<close>

lemma disk_op_quiet: "dk_script d = [] \<Longrightarrow> disk_op f d = (fst (f (dk_names d)), d\<lparr>dk_names := snd (f (dk_names d))\<rparr>)"
  by (simp add: disk_op_def split_beta)

lemma os_Sync_quiet: "dk_script d = [] \<Longrightarrow> os_Sync d = (Inr (), d)"
  by (simp add: os_Sync_def disk_op_quiet)

lemma os_Mkdir_quiet:
  "dk_script d = [] \<Longrightarrow> dk_names d p = None \<Longrightarrow> os_Mkdir p d = (Inr (), d\<lparr>dk_names := (dk_names d)(p \<mapsto> Directory)\<rparr>)"
  by (simp add: os_Mkdir_def disk_op_quiet)

lemma os_WriteFile_quiet:
  assumes "dk_script d = []" "dk_names d p = None"
  shows "\<exists>d'. os_WriteFile p data d = (Inr (), d') \<and> dk_script d' = []"
  using assms by (simp add: os_WriteFile_def bind_def os_Create_def os_Write_def os_Sync_quiet disk_op_quiet)

end
