(* ===== verification/Flags.thy ===== *)
theory Flags
  imports Prelude
begin

text \<open>
  Command-line options: the loop of Go's \<open>flag.FlagSet\<close> and \<open>newFlags\<close> and \<open>parseFlags\<close> of
  \<open>src/cmd/deep/main.go\<close>. What the flag set prints as diagnostics is not part of the model.
\<close>

subsection \<open>Flag sets\<close>

text \<open>
  A flag stores the text of its value into the options, or refuses it. Only a boolean flag may
  stand without a value.
\<close>

datatype 'a flag = Flag (flag_name: string) (flag_bool: bool) (flag_set: "string \<Rightarrow> 'a \<Rightarrow> 'a option")

definition String_flag :: "string \<Rightarrow> (string \<Rightarrow> 'a \<Rightarrow> 'a) \<Rightarrow> 'a flag" where
  "String_flag name upd = Flag name False (\<lambda>v x. Some (upd v x))"

definition ParseBool :: "string \<Rightarrow> bool option" where
  "ParseBool s =
     (if s \<in> set [''1'', ''t'', ''T'', ''TRUE'', ''true'', ''True''] then Some True
      else if s \<in> set [''0'', ''f'', ''F'', ''FALSE'', ''false'', ''False''] then Some False
      else None)"

definition Bool_flag :: "string \<Rightarrow> (bool \<Rightarrow> 'a \<Rightarrow> 'a) \<Rightarrow> 'a flag" where
  "Bool_flag name upd = Flag name True (\<lambda>v x. map_option (\<lambda>b. upd b x) (ParseBool v))"

text \<open>A flag of another scalar type, with the parser of its package.\<close>

definition Scalar_flag :: "(string \<Rightarrow> int option) \<Rightarrow> string \<Rightarrow> (int \<Rightarrow> 'a \<Rightarrow> 'a) \<Rightarrow> 'a flag" where
  "Scalar_flag parse name upd = Flag name False (\<lambda>v x. map_option (\<lambda>i. upd i x) (parse v))"

text \<open>One step of the loop: go on, stop before the remaining arguments, the help text, or an error.\<close>

datatype 'a flag_step = Again 'a "string list" | Stop "string list" | Help | Bad err

definition stored :: "'a flag \<Rightarrow> string \<Rightarrow> string list \<Rightarrow> 'a \<Rightarrow> 'a flag_step" where
  "stored f v rest x =
     (case flag_set f v x of None \<Rightarrow> Bad (Errorf ''invalid value for flag'') | Some y \<Rightarrow> Again y rest)"

definition parse_flag :: "'a flag list \<Rightarrow> string \<Rightarrow> string list \<Rightarrow> 'a \<Rightarrow> 'a flag_step" where
  "parse_flag formal name rest x =
     (let key = hd name # takeWhile (\<lambda>c. c \<noteq> CHR ''='') (tl name);
          inline = (case dropWhile (\<lambda>c. c \<noteq> CHR ''='') (tl name) of [] \<Rightarrow> None | c # v \<Rightarrow> Some v)
      in case List.find (\<lambda>f. flag_name f = key) formal of
           None \<Rightarrow> if key = ''help'' \<or> key = ''h'' then Help else Bad (Errorf ''flag provided but not defined'')
         | Some f \<Rightarrow>
             if flag_bool f then stored f (case inline of None \<Rightarrow> ''true'' | Some v \<Rightarrow> v) rest x
             else (case inline of
                 Some v \<Rightarrow> stored f v rest x
               | None \<Rightarrow>
                   (case rest of
                      [] \<Rightarrow> Bad (Errorf ''flag needs an argument'')
                    | v # rest' \<Rightarrow> stored f v rest' x)))"

definition parseOne :: "'a flag list \<Rightarrow> string list \<Rightarrow> 'a \<Rightarrow> 'a flag_step" where
  "parseOne formal args x =
     (case args of
        [] \<Rightarrow> Stop []
      | s # rest \<Rightarrow>
          if length s < 2 \<or> s ! 0 \<noteq> CHR ''-'' then Stop args
          else if s = ''--'' then Stop rest
          else let name = drop (if s ! 1 = CHR ''-'' then 2 else 1) s
               in if name = [] \<or> hd name = CHR ''-'' \<or> hd name = CHR ''='' then Bad (Errorf ''bad flag syntax'')
                  else parse_flag formal name rest x)"

lemma parse_flag_shorter: "parse_flag formal name rest x = Again y args' \<Longrightarrow> length args' \<le> length rest"
  by (auto simp: parse_flag_def stored_def Let_def split: option.splits if_splits list.splits)

lemma parseOne_shorter: "parseOne formal args x = Again y args' \<Longrightarrow> length args' < length args"
  by (auto simp: parseOne_def Let_def le_imp_less_Suc dest: parse_flag_shorter split: list.splits if_splits)

function Parse :: "'a flag list \<Rightarrow> string list \<Rightarrow> 'a \<Rightarrow> 'a flag_step" where
  "Parse formal args x =
     (case parseOne formal args x of Again y rest \<Rightarrow> Parse formal rest y | Stop rest \<Rightarrow> Again x rest | Help \<Rightarrow> Help | Bad e \<Rightarrow> Bad e)"
  by pat_completeness auto
termination
  by (relation "measure (\<lambda>(formal, args, x). length args)") (auto dest: parseOne_shorter)

declare Parse.simps [simp del]

text \<open>The options, or \<open>None\<close> when help was asked for and the command has nothing more to do.\<close>

definition parseFlags :: "'a flag list \<Rightarrow> string list \<Rightarrow> 'a \<Rightarrow> 'a option res" where
  "parseFlags formal args x =
     (case Parse formal args x of
        Again y rest \<Rightarrow> if rest \<noteq> [] then Inl (Errorf ''unexpected arguments'') else Inr (Some y)
      | Stop rest \<Rightarrow> Inr None
      | Help \<Rightarrow> Inr None
      | Bad e \<Rightarrow> Inl e)"

subsection \<open>Reading options back\<close>

text \<open>Options as a caller writes them: \<open>--name value\<close>, and \<open>--name=value\<close> for the boolean ones.\<close>

definition written :: "'a flag \<times> string \<Rightarrow> string list" where
  "written a = (if flag_bool (fst a) then [''--'' @ flag_name (fst a) @ ''='' @ snd a] else [''--'' @ flag_name (fst a), snd a])"

definition plain_name :: "string \<Rightarrow> bool" where
  "plain_name s \<longleftrightarrow> s \<noteq> [] \<and> hd s \<noteq> CHR ''-'' \<and> CHR ''='' \<notin> set s"

fun stores :: "('a flag \<times> string) list \<Rightarrow> 'a \<Rightarrow> 'a option" where
  "stores [] x = Some x"
| "stores (a # as) x = (case flag_set (fst a) (snd a) x of None \<Rightarrow> None | Some y \<Rightarrow> stores as y)"

lemma find_flag:
  "f \<in> set formal \<Longrightarrow> distinct (map flag_name formal) \<Longrightarrow> List.find (\<lambda>g. flag_name g = flag_name f) formal = Some f"
  by (induction formal) (auto simp: rev_image_eqI)

lemma parse_flag_name:
  assumes "plain_name (flag_name f)" "f \<in> set formal" "distinct (map flag_name formal)"
  shows "flag_bool f \<Longrightarrow> parse_flag formal (flag_name f @ CHR ''='' # v) rest x = stored f v rest x"
    "\<not> flag_bool f \<Longrightarrow> parse_flag formal (flag_name f) (v # rest) x = stored f v rest x"
proof -
  obtain c cs where n: "flag_name f = c # cs" "c \<noteq> CHR ''-''" "c \<noteq> CHR ''=''" "CHR ''='' \<notin> set cs"
    using assms(1) by (cases "flag_name f") (auto simp: plain_name_def)
  from n(4) have t: "takeWhile (\<lambda>x. x \<noteq> CHR ''='') (cs @ CHR ''='' # v) = cs" "dropWhile (\<lambda>x. x \<noteq> CHR ''='') (cs @ CHR ''='' # v) = CHR ''='' # v"
    "takeWhile (\<lambda>x. x \<noteq> CHR ''='') cs = cs" "dropWhile (\<lambda>x. x \<noteq> CHR ''='') cs = []"
    by (induction cs) auto
  have f: "List.find (\<lambda>g. flag_name g = c # cs) formal = Some f"
    using find_flag [OF assms(2,3)] by (simp add: n(1))
  show "flag_bool f \<Longrightarrow> parse_flag formal (flag_name f @ CHR ''='' # v) rest x = stored f v rest x"
    "\<not> flag_bool f \<Longrightarrow> parse_flag formal (flag_name f) (v # rest) x = stored f v rest x"
    using f by (simp_all add: parse_flag_def n(1) t Let_def)
qed

lemma parseOne_written:
  assumes "plain_name (flag_name f)" "f \<in> set formal" "distinct (map flag_name formal)"
  shows "parseOne formal (written (f, v) @ rest) x = stored f v rest x"
proof -
  obtain c cs where "flag_name f = c # cs" "c \<noteq> CHR ''-''" "c \<noteq> CHR ''=''"
    using assms(1) by (cases "flag_name f") (auto simp: plain_name_def)
  then show ?thesis using parse_flag_name [OF assms] by (cases "flag_bool f") (simp_all add: parseOne_def written_def)
qed

lemma Parse_written:
  assumes "distinct (map flag_name formal)" "\<forall>a\<in>set as. fst a \<in> set formal \<and> plain_name (flag_name (fst a))" "stores as x = Some y"
  shows "Parse formal (concat (map written as)) x = Again y []"
  using assms
proof (induction as arbitrary: x)
  case Nil
  then show ?case by (subst Parse.simps) (simp add: parseOne_def)
next
  case (Cons a as)
  obtain f v where a: "a = (f, v)" by fastforce
  with Cons.prems(3) obtain z where z: "flag_set f v x = Some z" "stores as z = Some y" by (auto split: option.splits)
  have "parseOne formal (written (f, v) @ concat (map written as)) x = Again z (concat (map written as))"
    using parseOne_written [of f formal v "concat (map written as)" x] Cons.prems a z by (simp add: stored_def)
  then show ?case using Cons a z by (subst Parse.simps) simp
qed

lemma parseFlags_written:
  assumes "distinct (map flag_name formal)" "\<forall>a\<in>set as. fst a \<in> set formal \<and> plain_name (flag_name (fst a))" "stores as x = Some y"
  shows "parseFlags formal (concat (map written as)) x = Inr (Some y)"
  by (simp add: parseFlags_def Parse_written [OF assms])

lemma parseFlags_Nil [simp]: "parseFlags formal [] x = Inr (Some x)"
  using parseFlags_written [of "[]" "[]" x x] by (simp add: parseFlags_def Parse.simps parseOne_def)

end
