(* ===== verification/Viewer.thy ===== *)
theory Viewer
  imports JsonIndent Disk Flags Conn Paths
begin

text \<open>
  The optional viewer: its settings file (\<open>src/cmd/deep/viewer_settings.go\<close>) and the commands
  that start it (\<open>browse.go\<close>, and \<open>openURI\<close> of \<open>main.go\<close>).
\<close>

subsection \<open>Settings\<close>

record viewerPreferences =
  vp_Version :: int
  vp_Enabled :: bool

definition preferences_shape :: shape where
  "preferences_shape = Struct [(''version'', False, Plain), (''enabled'', False, Plain)]"

definition preferences_table :: "viewerPreferences table" where
  "preferences_table =
     [(''version'', set_int (\<lambda>i p. p\<lparr>vp_Version := i\<rparr>)), (''enabled'', set_bool (\<lambda>b p. p\<lparr>vp_Enabled := b\<rparr>))]"

definition preferences_members :: "viewerPreferences \<Rightarrow> (bytes \<times> jvalue) list" where
  "preferences_members p = [(''version'', JNumber (Itoa (vp_Version p))), (''enabled'', JBool (vp_Enabled p))]"

text \<open>
  What depends on the platform: whether it is Windows, and the functions of \<open>path/filepath\<close>.
  \<open>configDir\<close> answers \<open>os.UserConfigDir\<close>.
\<close>

record platform =
  pf_windows :: bool
  pf_Join :: "string list \<Rightarrow> string"
  pf_Dir :: "string \<Rightarrow> string"
  pf_Abs :: "string \<Rightarrow> string res"

definition viewerSettingsPath :: "platform \<Rightarrow> string res \<Rightarrow> string res" where
  "viewerSettingsPath pf configDir =
     (case configDir of Inl e \<Rightarrow> Inl e | Inr directory \<Rightarrow> Inr (pf_Join pf [directory, ''DEEP'', ''viewer.json'']))"

definition readViewerPreferences :: "string \<Rightarrow> viewerPreferences dio" where
  "readViewerPreferences path d =
     (case os_Lstat path d of
        (Inl e, d1) \<Rightarrow> if errors_is e NotExist then (Inr \<lparr>vp_Version = 1, vp_Enabled = False\<rparr>, d1) else (Inl e, d1)
      | (Inr (Regular_file i content), d1) \<Rightarrow>
          bind (os_ReadFile path) (\<lambda>whole.
            let data = take 4097 whole
            in if length data > 4096 then done_with (Inl (Errorf ''viewer settings exceed 4 KiB''))
               else case DecodeConfigJSON preferences_shape preferences_table \<lparr>vp_Version = 0, vp_Enabled = False\<rparr> data of
                 Inl e \<Rightarrow> done_with (Inl (Wrapf ''invalid viewer settings'' e))
               | Inr v \<Rightarrow>
                   if vp_Version v \<noteq> 1 then done_with (Inl (Errorf ''unsupported viewer settings version''))
                   else done_with (Inr v)) d1
      | (Inr _, d1) \<Rightarrow> (Inl (Errorf ''viewer settings must be a regular file''), d1))"

text \<open>\<open>temp\<close> is the name that \<open>os.CreateTemp\<close> finds.\<close>

definition publish_preferences :: "platform \<Rightarrow> string \<Rightarrow> string \<Rightarrow> bool \<Rightarrow> unit dio" where
  "publish_preferences pf temp path enabled =
     bind (os_MkdirAll (pf_Dir pf path)) (\<lambda>_.
       with_temporary temp (json_file (JObject (preferences_members \<lparr>vp_Version = 1, vp_Enabled = enabled\<rparr>))) (os_Rename temp path))"

definition writeViewerPreferences :: "platform \<Rightarrow> string \<Rightarrow> string \<Rightarrow> bool \<Rightarrow> unit dio" where
  "writeViewerPreferences pf temp path enabled d =
     (case os_Lstat path d of
        (Inl e, d1) \<Rightarrow> if errors_is e NotExist then publish_preferences pf temp path enabled d1 else (Inl e, d1)
      | (Inr (Regular_file i content), d1) \<Rightarrow> publish_preferences pf temp path enabled d1
      | (Inr _, d1) \<Rightarrow> (Inl (Errorf ''viewer settings must be a regular file''), d1))"

definition requireViewerEnabled :: "platform \<Rightarrow> string res \<Rightarrow> unit dio" where
  "requireViewerEnabled pf configDir =
     (case viewerSettingsPath pf configDir of
        Inl e \<Rightarrow> done_with (Inl e)
      | Inr path \<Rightarrow>
          bind (readViewerPreferences path) (\<lambda>v.
            if \<not> vp_Enabled v
              then done_with (Inl (Errorf ''the optional viewer is disabled; use your DEEP-compatible application, or run deep viewer enable''))
            else done_with (Inr ())))"

subsection \<open>Starting the viewer\<close>

definition viewerPath :: "platform \<Rightarrow> string \<Rightarrow> string" where
  "viewerPath pf executable = pf_Join pf [pf_Dir pf executable, ''viewer'', ''DEEP.Viewer.exe'']"

definition viewerAvailable :: "platform \<Rightarrow> string \<Rightarrow> bool dio" where
  "viewerAvailable pf executable d =
     (if \<not> pf_windows pf then (Inr False, d)
      else case os_Stat_regular (viewerPath pf executable) d of
        (Inl e, d1) \<Rightarrow> (Inr False, d1) | (Inr regular, d1) \<Rightarrow> (Inr regular, d1))"

text \<open>
  The program that was started and its arguments. \<open>live\<close> is the answer of \<open>ctx.Err\<close> and
  \<open>start\<close> that of \<open>Start\<close> and \<open>Release\<close> for a program and its arguments.
\<close>

definition launchViewer ::
    "platform \<Rightarrow> string res \<Rightarrow> check \<Rightarrow> (string \<Rightarrow> string list \<Rightarrow> check) \<Rightarrow> string \<Rightarrow> string \<Rightarrow> string \<Rightarrow>
     (string \<times> string list) dio" where
  "launchViewer pf configDir live start executable uri config =
     bind (requireViewerEnabled pf configDir) (\<lambda>_.
     bind (viewerAvailable pf executable) (\<lambda>available.
       if \<not> available then done_with (Inl (Errorf ''the graphical viewer requires Windows and bin/viewer/DEEP.Viewer.exe''))
       else case pf_Abs pf config of
         Inl e \<Rightarrow> done_with (Inl e)
       | Inr config' \<Rightarrow>
           (let args = [''--deep'', executable, ''--config'', config'] @ (if uri \<noteq> [] then [''--uri'', uri] else [])
            in case live of
                 Inl e \<Rightarrow> done_with (Inl e)
               | Inr _ \<Rightarrow>
                   (case start (viewerPath pf executable) args of
                      Inl e \<Rightarrow> done_with (Inl e) | Inr _ \<Rightarrow> done_with (Inr (viewerPath pf executable, args))))))"

text \<open>\<open>None\<close> where the command ends without starting anything: help was asked for.\<close>

definition browseURI ::
    "platform \<Rightarrow> string res \<Rightarrow> check \<Rightarrow> (string \<Rightarrow> string list \<Rightarrow> check) \<Rightarrow> string res \<Rightarrow> string list \<Rightarrow>
     (string \<times> string list) option dio" where
  "browseURI pf configDir live start executable args =
     (case executable of
        Inl e \<Rightarrow> done_with (Inl e)
      | Inr exe \<Rightarrow>
          (let first = (args \<noteq> [] \<and> args ! 0 \<noteq> [] \<and> args ! 0 ! 0 \<noteq> CHR ''-'');
               uri = (if first then args ! 0 else []);
               rest = (if first then tl args else args)
           in if first \<and> \<not> is_ok (ParseURI uri) then done_with (Inl (projl (ParseURI uri)))
              else case parseFlags [String_flag ''config'' (\<lambda>s _. s)] rest (pf_Join pf [pf_Dir pf exe, ''config.json'']) of
                Inl e \<Rightarrow> done_with (Inl e)
              | Inr None \<Rightarrow> done_with (Inr None)
              | Inr (Some config) \<Rightarrow>
                  bind (launchViewer pf configDir live start exe uri config) (\<lambda>c. done_with (Inr (Some c)))))"

definition openURI ::
    "platform \<Rightarrow> string res \<Rightarrow> check \<Rightarrow> (string \<Rightarrow> string list \<Rightarrow> check) \<Rightarrow> string res \<Rightarrow> string list \<Rightarrow>
     (string \<times> string list) dio" where
  "openURI pf configDir live start executable args =
     (case args of
        [uri] \<Rightarrow>
          (case ParseURI uri of
             Inl e \<Rightarrow> done_with (Inl e)
           | Inr _ \<Rightarrow>
               (case executable of
                  Inl e \<Rightarrow> done_with (Inl e)
                | Inr exe \<Rightarrow> launchViewer pf configDir live start exe uri (pf_Join pf [pf_Dir pf exe, ''config.json''])))
      | _ \<Rightarrow> done_with (Inl (Errorf ''open-uri accepts exactly one URI, without options'')))"

subsection \<open>deep viewer\<close>

record viewerState =
  vs_Version :: int
  vs_Enabled :: bool
  vs_Available :: bool
  vs_Settings :: string

definition viewerState_members :: "viewerState \<Rightarrow> (bytes \<times> jvalue) list" where
  "viewerState_members s =
     [(''version'', JNumber (Itoa (vs_Version s))), (''enabled'', JBool (vs_Enabled s)),
      (''available'', JBool (vs_Available s)), (''settings'', JString (vs_Settings s))]"

definition line :: "string \<Rightarrow> string" where
  "line s = s @ [CHR 0x0A]"

text \<open>What the command prints; \<open>None\<close> for the help text.\<close>

definition viewer_report :: "viewerState \<Rightarrow> bool \<Rightarrow> string" where
  "viewer_report state asJSON =
     (if asJSON then line (json_print (JObject (viewerState_members state)))
      else line (''Optional viewer: '' @ (if vs_Enabled state then ''enabled'' else ''disabled'') @ '' ('' @
             (if vs_Available state then ''installed'' else ''not installed'') @ '').'') @
           line (if vs_Enabled state
             then ''Open a site with deep browse deep://node.network/ (or deep browse for the home page).''
             else ''DEEP runs as a backend. Fetch, request, serve, and external applications remain available.'') @
           line ''This setting does not register or replace any deep:// link handler.'')"

definition viewer_action :: "platform \<Rightarrow> string \<Rightarrow> string \<Rightarrow> string \<Rightarrow> string \<Rightarrow> unit dio" where
  "viewer_action pf temp executable path action =
     (if action = ''enable'' then
        bind (viewerAvailable pf executable) (\<lambda>available.
          if \<not> available then done_with (Inl (Errorf ''the optional viewer is not installed; on Windows, build/copy bin/viewer first (scripts/build.ps1 -WithViewer)''))
          else writeViewerPreferences pf temp path True)
      else if action = ''disable'' then writeViewerPreferences pf temp path False
      else done_with (Inr ()))"

definition viewerCommandAt :: "platform \<Rightarrow> string \<Rightarrow> string \<Rightarrow> string \<Rightarrow> string list \<Rightarrow> string option dio" where
  "viewerCommandAt pf temp executable path args =
     (let args' = (if args = [] then [''status''] else args); action = hd args'
      in if action \<noteq> ''status'' \<and> action \<noteq> ''enable'' \<and> action \<noteq> ''disable''
           then done_with (Inl (Errorf ''usage: deep viewer [status|enable|disable] [--json]''))
         else case parseFlags [Bool_flag ''json'' (\<lambda>b _. b)] (tl args') False of
           Inl e \<Rightarrow> done_with (Inl e)
         | Inr None \<Rightarrow> done_with (Inr None)
         | Inr (Some asJSON) \<Rightarrow>
             bind (viewer_action pf temp executable path action) (\<lambda>_.
             bind (readViewerPreferences path) (\<lambda>preferences.
             bind (viewerAvailable pf executable) (\<lambda>available.
               done_with (Inr (Some (viewer_report
                 \<lparr>vs_Version = 1, vs_Enabled = vp_Enabled preferences, vs_Available = available, vs_Settings = path\<rparr> asJSON)))))))"

definition viewerCommand :: "platform \<Rightarrow> string res \<Rightarrow> string \<Rightarrow> string res \<Rightarrow> string list \<Rightarrow> string option dio" where
  "viewerCommand pf configDir temp executable args =
     (case executable of
        Inl e \<Rightarrow> done_with (Inl e)
      | Inr exe \<Rightarrow>
          (case viewerSettingsPath pf configDir of
             Inl e \<Rightarrow> done_with (Inl e) | Inr path \<Rightarrow> viewerCommandAt pf temp exe path args))"

subsection \<open>The settings file\<close>

definition preferences_good :: "viewerPreferences \<Rightarrow> bool" where
  "preferences_good p \<longleftrightarrow> int64_ok (vp_Version p)"

interpretation preferences: config_struct preferences_shape preferences_table "\<lparr>vp_Version = 0, vp_Enabled = False\<rparr>"
  preferences_members preferences_good
proof unfold_locales
  fix p :: viewerPreferences
  assume good: "preferences_good p"
  show "config_tree (JObject (preferences_members p)) 0" by (simp add: preferences_members_def config_tree_Object)
  show "jwf (JObject (preferences_members p))" by (auto simp: preferences_members_def)
  show "conforms (JObject (preferences_members p)) preferences_shape"
    by (auto simp: preferences_members_def preferences_shape_def conforms_kinds)
  show "decode_members preferences_table (preferences_members p) \<lparr>vp_Version = 0, vp_Enabled = False\<rparr> = Some p"
    using good by (simp add: preferences_members_def preferences_table_def find_field_exact set_bool_def preferences_good_def)
qed

abbreviation settings_json :: "bool \<Rightarrow> bytes" where
  "settings_json enabled \<equiv> json_file (JObject (preferences_members \<lparr>vp_Version = 1, vp_Enabled = enabled\<rparr>))"

lemma settings_json_length: "length (settings_json enabled) \<le> 4096"
  using Itoa_length [of 1]
  by (simp add: json_file_def MarshalIndent_def json_indent_Object preferences_members_def nl_def next_item_def json_quote_def
      escape_body_plain int64_ok_def)

lemma decode_settings:
  "DecodeConfigJSON preferences_shape preferences_table \<lparr>vp_Version = 0, vp_Enabled = False\<rparr> (settings_json enabled) =
     Inr \<lparr>vp_Version = 1, vp_Enabled = enabled\<rparr>"
  using settings_json_length [of enabled] by (intro preferences.decode_file) (simp_all add: preferences_good_def int64_ok_def)

lemma read_settings:
  assumes "dk_script d = []" "dk_names d path = Some (Regular_file i (settings_json enabled))"
  shows "readViewerPreferences path d = (Inr \<lparr>vp_Version = 1, vp_Enabled = enabled\<rparr>, d)"
  using assms settings_json_length [of enabled] decode_settings [of enabled]
  by (simp add: readViewerPreferences_def os_Lstat_def os_ReadFile_def disk_op_def bind_def done_with_def Let_def)

lemma publish_names:
  assumes "publish_preferences pf temp path enabled d = (r, d')" "undisturbed d" "temp \<noteq> path" "pf_Dir pf path \<noteq> path"
  obtains (failed) e where "r = Inl e" "dk_names d' path = dk_names d path"
    | (ran) i where "r = Inr ()" "dk_names d' path = Some (Regular_file i (settings_json enabled))"
proof -
  from assms(1) show thesis unfolding publish_preferences_def
  proof (cases rule: bind_cases)
    case (failed e)
    then show thesis using os_MkdirAll_names [OF failed(1) assms(2)] assms(4) that(1) by metis
  next
    case (ran u d1)
    note d1 = os_MkdirAll_names [OF ran(1) assms(2)]
    then have p: "dk_names d1 path = dk_names d path" using assms(4) by metis
    from ran(2) conjunct1 [OF d1] show thesis
    proof (cases rule: with_temporary_names)
      case (failed e)
      then show thesis using that(1) assms(3) p by metis
    next
      case (ran d2 d3)
      from ran(4,3) show thesis
      proof (cases rule: os_Rename_names)
        case (failed e)
        then show thesis using that(1) ran assms(3) p by simp
      next
        case (ran e)
        then show thesis
          using that(2) [of "dk_fresh d1"] \<open>undisturbed d3 \<Longrightarrow> _\<close> \<open>dk_names d2 = _\<close> assms(3) by simp
      qed
    qed
  qed
qed

lemma write_names:
  assumes "writeViewerPreferences pf temp path enabled d = (r, d')" "undisturbed d" "temp \<noteq> path" "pf_Dir pf path \<noteq> path"
  obtains (failed) e where "r = Inl e" "dk_names d' path = dk_names d path"
    | (ran) i where "r = Inr ()" "dk_names d' path = Some (Regular_file i (settings_json enabled))"
proof -
  obtain x d1 where l: "os_Lstat path d = (x, d1)" by fastforce
  note d1 = looked [where m = "os_Lstat path", OF l assms(2) looks_simps(1)]
  consider (publish) "publish_preferences pf temp path enabled d1 = (r, d')" | (no) e where "r = Inl e" "d' = d1"
    using assms(1) l by (auto simp: writeViewerPreferences_def split: sum.splits if_splits entry.splits)
  then show thesis
  proof cases
    case publish
    then show thesis using d1 assms(3,4) by (elim publish_names) (simp_all add: that)
  qed (use d1 that(1) in simp)
qed

subsection \<open>What was read\<close>

lemma read_enabled:
  assumes "readViewerPreferences path d = (Inr v, d')" "undisturbed d" "vp_Enabled v"
  obtains i content where "dk_names d path = Some (Regular_file i content)" "length content \<le> 4096"
    "DecodeConfigJSON preferences_shape preferences_table \<lparr>vp_Version = 0, vp_Enabled = False\<rparr> content =
       Inr \<lparr>vp_Version = 1, vp_Enabled = True\<rparr>"
proof -
  obtain x d1 where l: "os_Lstat path d = (x, d1)" by fastforce
  note d1 = looked [where m = "os_Lstat path", OF l assms(2) looks_simps(1)]
  from assms(1,3) l obtain i c data d2 where x: "x = Inr (Regular_file i c)" and r: "os_ReadFile path d1 = (Inr data, d2)"
    and t: "length (take 4097 data) \<le> 4096"
      "DecodeConfigJSON preferences_shape preferences_table \<lparr>vp_Version = 0, vp_Enabled = False\<rparr> (take 4097 data) = Inr v"
      "vp_Version v = 1"
    by (auto simp: readViewerPreferences_def bind_def done_with_def Let_def
        split: sum.splits if_splits entry.splits prod.splits)
  have "dk_names d path = Some (Regular_file i c)" using os_Lstat_Inr [OF l [unfolded x] assms(2)] .
  moreover from this have "data = c" using os_ReadFile_Inr [OF r] d1 by simp
  moreover have "take 4097 data = data" using t(1) by simp
  moreover have "v = \<lparr>vp_Version = 1, vp_Enabled = True\<rparr>" using t(3) assms(3) by simp
  ultimately show thesis using that t by simp
qed

lemma launched:
  assumes "launchViewer pf configDir live start exe uri config d = (Inr (prog, argv), d')" "undisturbed d"
  shows "\<exists>path i content config'.
      pf_windows pf \<and> viewerSettingsPath pf configDir = Inr path \<and> dk_names d path = Some (Regular_file i content) \<and>
      DecodeConfigJSON preferences_shape preferences_table \<lparr>vp_Version = 0, vp_Enabled = False\<rparr> content =
        Inr \<lparr>vp_Version = 1, vp_Enabled = True\<rparr> \<and> pf_Abs pf config = Inr config' \<and> prog = viewerPath pf exe \<and>
      argv = [''--deep'', exe, ''--config'', config'] @ (if uri \<noteq> [] then [''--uri'', uri] else [])"
proof -
  from assms(1) obtain d1 d2 config' where q: "requireViewerEnabled pf configDir d = (Inr (), d1)"
    and a: "viewerAvailable pf exe d1 = (Inr True, d2)"
    and c: "pf_Abs pf config = Inr config'" "prog = viewerPath pf exe"
      "argv = [''--deep'', exe, ''--config'', config'] @ (if uri \<noteq> [] then [''--uri'', uri] else [])"
    unfolding launchViewer_def
    by (elim bind_cases) (auto simp: done_with_def Let_def split: if_splits sum.splits)
  from q obtain path v where p: "viewerSettingsPath pf configDir = Inr path" "readViewerPreferences path d = (Inr v, d1)" "vp_Enabled v"
    unfolding requireViewerEnabled_def
    by (auto simp: done_with_def split: sum.splits if_splits elim!: bind_cases)
  have "pf_windows pf" using a by (auto simp: viewerAvailable_def split: if_splits)
  with p(1) c show ?thesis by (rule_tac read_enabled [OF p(2) assms(2) p(3)]) blast
qed

subsection \<open>Properties\<close>

text \<open>
  The settings file is replaced as a whole or not at all: however \<open>deep viewer enable\<close>
  or \<open>disable\<close> is interrupted by a failing file operation, the path afterwards holds either what
  it held before or the complete new settings, and reading these gives exactly the new choice.
\<close>

theorem viewer_settings_atomic:
  assumes "writeViewerPreferences pf temp path enabled d = (r, d')" "undisturbed d" "temp \<noteq> path" "pf_Dir pf path \<noteq> path"
  shows "if is_ok r then readViewerPreferences path (d'\<lparr>dk_script := []\<rparr>) =
       (Inr \<lparr>vp_Version = 1, vp_Enabled = enabled\<rparr>, d'\<lparr>dk_script := []\<rparr>)
     else dk_names d' path = dk_names d path"
  using assms by (rule write_names) (simp_all add: is_ok_def read_settings)

text \<open>
  Property C30: A \<open>deep://\<close> link opened through the operating system starts the viewer only when
  the user has enabled it in a settings file of version 1, on Windows, and the link - which parses
  as a DEEP address - reaches the viewer as one argument of its own, never as an option.
\<close>

theorem open_uri_launch:
  assumes "openURI pf configDir live start executable args d = (Inr (prog, argv), d')" "undisturbed d"
  shows "\<exists>uri exe path i content config.
      args = [uri] \<and> is_ok (ParseURI uri) \<and> executable = Inr exe \<and> pf_windows pf \<and>
      viewerSettingsPath pf configDir = Inr path \<and> dk_names d path = Some (Regular_file i content) \<and>
      DecodeConfigJSON preferences_shape preferences_table \<lparr>vp_Version = 0, vp_Enabled = False\<rparr> content =
        Inr \<lparr>vp_Version = 1, vp_Enabled = True\<rparr> \<and>
      prog = viewerPath pf exe \<and> argv = [''--deep'', exe, ''--config'', config, ''--uri'', uri]"
proof -
  from assms(1) obtain uri u exe where a: "args = [uri]" "ParseURI uri = Inr u" "executable = Inr exe"
    "launchViewer pf configDir live start exe uri (pf_Join pf [pf_Dir pf exe, ''config.json'']) d = (Inr (prog, argv), d')"
    by (auto simp: openURI_def done_with_def split: list.splits sum.splits)
  moreover have "uri \<noteq> []" using a(2) by (auto simp: ParseURI_def)
  ultimately show ?thesis using launched [OF a(4) assms(2)] by (auto simp: is_ok_def)
qed

subsection \<open>Witnesses\<close>

definition sample_platform :: platform where
  "sample_platform = \<lparr>pf_windows = True, pf_Join = Join, pf_Dir = Dir, pf_Abs = (\<lambda>p. Inr (Clean p))\<rparr>"

definition sample_disk :: disk where
  "sample_disk = \<lparr>dk_names = [''/u/DEEP/viewer.json'' \<mapsto> Regular_file 0 (settings_json True),
     ''/bin/viewer/DEEP.Viewer.exe'' \<mapsto> Regular_file 1 []], dk_fresh = 2, dk_script = []\<rparr>"

lemma sample_undisturbed: "undisturbed sample_disk"
  by (simp add: undisturbed_def sample_disk_def below_def)

lemma viewer_paths:
  "Join [''/u'', ''DEEP'', ''viewer.json''] = ''/u/DEEP/viewer.json''" "Dir ''/bin/deep'' = ''/bin''"
  "Join [''/bin'', ''viewer'', ''DEEP.Viewer.exe''] = ''/bin/viewer/DEEP.Viewer.exe''"
  "Join [''/bin'', ''config.json''] = ''/bin/config.json''" "Clean ''/bin/config.json'' = ''/bin/config.json''"
  "Dir ''/u/DEEP/viewer.json'' = ''/u/DEEP''"
  by code_simp+

theorem open_uri_launch_witness:
  "\<exists>d' config. openURI sample_platform (Inr ''/u'') (Inr ()) (\<lambda>prog argv. Inr ()) (Inr ''/bin/deep'') [''deep://n.alpha/''] sample_disk =
     (Inr (''/bin/viewer/DEEP.Viewer.exe'', [''--deep'', ''/bin/deep'', ''--config'', config, ''--uri'', ''deep://n.alpha/'']), d')"
proof -
  have u: "is_ok (ParseURI ''deep://n.alpha/'')" by code_simp
  then obtain v where v: "ParseURI ''deep://n.alpha/'' = Inr v" by (auto simp: is_ok_def split: sum.splits)
  have r: "readViewerPreferences ''/u/DEEP/viewer.json'' sample_disk = (Inr \<lparr>vp_Version = 1, vp_Enabled = True\<rparr>, sample_disk)"
    by (rule read_settings) (simp_all add: sample_disk_def)
  have "viewerAvailable sample_platform ''/bin/deep'' sample_disk = (Inr True, sample_disk)"
    by (simp add: viewerAvailable_def viewerPath_def os_Stat_regular_def disk_op_def sample_platform_def viewer_paths sample_disk_def)
  with r v obtain prog argv d' where o: "openURI sample_platform (Inr ''/u'') (Inr ()) (\<lambda>prog argv. Inr ()) (Inr ''/bin/deep'')
      [''deep://n.alpha/''] sample_disk = (Inr (prog, argv), d')"
    by (simp add: openURI_def launchViewer_def requireViewerEnabled_def viewerSettingsPath_def bind_def done_with_def
        sample_platform_def viewer_paths Let_def)
  from open_uri_launch [OF o sample_undisturbed] o show ?thesis
    by (auto simp: viewerPath_def sample_platform_def viewer_paths)
qed

end
