(* ===== verification/ProxySettings.thy ===== *)
theory ProxySettings
  imports Config JsonIndent Disk Flags "HOL-Library.AList" "HOL-Library.List_Lexorder" "HOL-Library.Char_ord"
begin

text \<open>
  \<open>deep proxy\<close> (\<open>src/cmd/deep/proxy_settings.go\<close>): editing the proxy of a client configuration
  without touching the rest of it.
\<close>

subsection \<open>Values without a schema\<close>

text \<open>
  What \<open>json.MarshalIndent\<close> sees of a value decoded into \<open>any\<close>: objects are maps, where the last
  of several equal keys counts, printed in the order of their keys. The texts of numbers are kept:
  the only number of a configuration that \<open>LoadRegistry\<close> accepts is its version, written \<open>2\<close>.
\<close>

primrec json_any :: "jvalue \<Rightarrow> jvalue" where
  "json_any JNull = JNull"
| "json_any (JBool b) = JBool b"
| "json_any (JNumber s) = JNumber s"
| "json_any (JString s) = JString s"
| "json_any (JArray vs) = JArray (map json_any vs)"
| "json_any (JObject ms) = JObject (sort_key fst (AList.clearjunk (rev (map (map_prod id json_any) ms))))"

text \<open>
  \<open>json.Unmarshal\<close> into the map that holds the default version; \<open>None\<close> is the nil map that a
  JSON \<open>null\<close> leaves.
\<close>

type_synonym config_map = "(bytes \<times> jvalue) list option"

definition default_config :: "(bytes \<times> jvalue) list" where
  "default_config = [(''version'', JNumber ''2'')]"

definition unmarshal_config :: "bytes \<Rightarrow> config_map res" where
  "unmarshal_config raw =
     (case Unmarshal raw of
        Some (JObject ms) \<Rightarrow> Inr (Some (default_config @ ms))
      | Some JNull \<Rightarrow> Inr None
      | _ \<Rightarrow> Inl (Errorf ''json: cannot unmarshal into map''))"

definition config_entry :: "bytes \<Rightarrow> config_map \<Rightarrow> jvalue option" where
  "config_entry key config = (case config of None \<Rightarrow> None | Some ms \<Rightarrow> map_of (rev ms) key)"

subsection \<open>Editing\<close>

record proxyState =
  ps_Configured :: bool
  ps_Address :: string

definition proxyState_members :: "proxyState \<Rightarrow> (bytes \<times> jvalue) list" where
  "proxyState_members s = (''configured'', JBool (ps_Configured s)) # omitempty ''address'' (ps_Address s)"

definition current_state :: "config_map \<Rightarrow> proxyState res" where
  "current_state config =
     (case config_entry ''proxy'' config of
        None \<Rightarrow> Inr \<lparr>ps_Configured = False, ps_Address = []\<rparr>
      | Some (JObject ms) \<Rightarrow>
          (let address = (case map_of (rev ms) ''address'' of Some (JString s) \<Rightarrow> s | _ \<Rightarrow> [])
           in Inr \<lparr>ps_Configured = address \<noteq> [], ps_Address = address\<rparr>)
      | Some _ \<Rightarrow> Inl (Errorf ''invalid proxy configuration''))"

text \<open>Storing into a nil map panics.\<close>

definition edited :: "config_map \<Rightarrow> string \<Rightarrow> config_map res" where
  "edited config address =
     (if address = [] then Inr (map_option (filter (\<lambda>m. fst m \<noteq> ''proxy'')) config)
      else case config of
        None \<Rightarrow> Inl (Errorf ''panic: assignment to entry in nil map'')
      | Some ms \<Rightarrow> Inr (Some (ms @ [(''proxy'', JObject [(''address'', JString address)])])))"

definition marshal_config :: "config_map \<Rightarrow> bytes" where
  "marshal_config config = json_file (case config of None \<Rightarrow> JNull | Some ms \<Rightarrow> json_any (JObject ms))"

text \<open>
  \<open>LoadRegistry\<close> reads the file once; \<open>run\<close>, \<open>proxy\<close> and \<open>cwd\<close> are those of \<open>Config\<close>.
\<close>

definition LoadRegistry_at :: "program \<Rightarrow> (string \<Rightarrow> adapter) \<Rightarrow> string \<Rightarrow> string \<Rightarrow> Registry dio" where
  "LoadRegistry_at run proxy cwd path d = (case os_ReadFile path d of (r, d') \<Rightarrow> (LoadRegistry run proxy (\<lambda>_. r) cwd path, d'))"

text \<open>The old contents are kept under the name \<open>backup\<close>; writing and closing are both attempted.\<close>

definition write_backup :: "string \<Rightarrow> bytes \<Rightarrow> unit dio" where
  "write_backup backup before =
     bind (os_CreateTemp backup) (\<lambda>i d.
       case os_Write i before d of (writeErr, d1) \<Rightarrow>
       case os_Sync d1 of (closeErr, d2) \<Rightarrow>
         (case writeErr of Inl e \<Rightarrow> (Inl e, d2) | Inr _ \<Rightarrow> (closeErr, d2)))"

definition replace_config :: "string \<Rightarrow> string \<Rightarrow> string \<Rightarrow> nat \<Rightarrow> bytes \<Rightarrow> unit dio" where
  "replace_config temp backup path i before d =
     (case os_Lstat path d of
        (Inr (Regular_file j content), d1) \<Rightarrow>
          if j \<noteq> i then (Inl (Errorf ''configuration changed while editing; retry''), d1)
          else (case os_ReadFile path d1 of
              (Inr current, d2) \<Rightarrow>
                if current \<noteq> before then (Inl (Errorf ''configuration changed while editing; retry''), d2)
                else bind (write_backup backup before) (\<lambda>_. os_Rename temp path) d2
            | (Inl e, d2) \<Rightarrow> (Inl (Errorf ''configuration changed while editing; retry''), d2))
      | (_, d1) \<Rightarrow> (Inl (Errorf ''configuration changed while editing; retry''), d1))"

definition create_config :: "string \<Rightarrow> string \<Rightarrow> unit dio" where
  "create_config temp path d =
     (case os_Lstat path d of
        (Inl e, d1) \<Rightarrow>
          if errors_is e NotExist then os_Link temp path d1
          else (Inl (Errorf ''configuration appeared while editing; retry''), d1)
      | (Inr _, d1) \<Rightarrow> (Inl (Errorf ''configuration appeared while editing; retry''), d1))"

text \<open>
  The change itself: \<open>old\<close> is the file as it was found, with its identity. \<open>temp\<close> and \<open>backup\<close>
  are the names that \<open>os.CreateTemp\<close> finds.
\<close>

definition edit_config ::
    "program \<Rightarrow> (string \<Rightarrow> adapter) \<Rightarrow> string \<Rightarrow> string \<Rightarrow> string \<Rightarrow> string \<Rightarrow> string \<Rightarrow> string \<Rightarrow>
     (nat \<times> bytes) option \<Rightarrow> config_map \<Rightarrow> proxyState dio" where
  "edit_config run proxy cwd temp backup path action address old config =
     (case current_state config of
        Inl e \<Rightarrow> done_with (Inl e)
      | Inr state \<Rightarrow>
          (let found = (config_entry ''proxy'' config \<noteq> None);
               target = (if action = ''unset'' then [] else address)
           in if action = ''status'' \<or> action = ''unset'' \<and> \<not> found then done_with (Inr state)
              else if ps_Address state = target \<and> found then done_with (Inr state)
              else (case edited config target of
                  Inl e \<Rightarrow> done_with (Inl e)
                | Inr config' \<Rightarrow>
                    with_temporary temp (marshal_config config')
                      (bind (LoadRegistry_at run proxy cwd temp) (\<lambda>_.
                       bind (case old of
                           Some (i, before) \<Rightarrow> replace_config temp backup path i before
                         | None \<Rightarrow> create_config temp path) (\<lambda>_.
                       done_with (Inr \<lparr>ps_Configured = target \<noteq> [], ps_Address = target\<rparr>)))))))"

definition configureProxy ::
    "program \<Rightarrow> (string \<Rightarrow> adapter) \<Rightarrow> string \<Rightarrow> string \<Rightarrow> string \<Rightarrow> string \<Rightarrow> string \<Rightarrow> string \<Rightarrow> proxyState dio" where
  "configureProxy run proxy cwd temp backup path action address d =
     (case os_Lstat path d of
        (Inl e, d1) \<Rightarrow>
          if errors_is e NotExist
            then edit_config run proxy cwd temp backup path action address None (Some default_config) d1
          else (Inl e, d1)
      | (Inr (Regular_file i content), d1) \<Rightarrow>
          if length content > 2 ^ 20 then (Inl (Errorf ''DEEP configuration must be a regular file of at most 1 MiB''), d1)
          else bind (os_ReadFile path) (\<lambda>before.
            bind (LoadRegistry_at run proxy cwd path) (\<lambda>_.
              case unmarshal_config before of
                Inl e \<Rightarrow> done_with (Inl e)
              | Inr config \<Rightarrow>
                  edit_config run proxy cwd temp backup path action address (Some (i, before)) config)) d1
      | (Inr _, d1) \<Rightarrow> (Inl (Errorf ''DEEP configuration must be a regular file of at most 1 MiB''), d1))"

subsection \<open>deep proxy\<close>

record proxyOptions =
  po_config :: string
  po_address :: string
  po_json :: bool

definition proxy_flags :: "proxyOptions flag list" where
  "proxy_flags =
     [String_flag ''config'' (\<lambda>s p. p\<lparr>po_config := s\<rparr>), String_flag ''address'' (\<lambda>s p. p\<lparr>po_address := s\<rparr>),
      Bool_flag ''json'' (\<lambda>b p. p\<lparr>po_json := b\<rparr>)]"

definition proxy_report :: "proxyState \<Rightarrow> bool \<Rightarrow> string" where
  "proxy_report state asJSON =
     (if asJSON then json_print (JObject (proxyState_members state)) @ [CHR 0x0A]
      else if ps_Configured state then
        ''DEEP proxy: '' @ ps_Address state @ [CHR 0x0A] @
        ''Make sure the configured proxy is running before opening a deep:// link.'' @ [CHR 0x0A]
      else ''DEEP proxy: not configured.'' @ [CHR 0x0A] @
        ''DEEP uses its explicitly configured direct adapters.'' @ [CHR 0x0A])"

definition proxyCommand ::
    "program \<Rightarrow> (string \<Rightarrow> adapter) \<Rightarrow> string \<Rightarrow> string \<Rightarrow> string \<Rightarrow> string res \<Rightarrow> string list \<Rightarrow> string option dio" where
  "proxyCommand run proxy cwd temp backup executable args =
     (let args' = (if args = [] then [''status''] else args); action = hd args'
      in if action \<noteq> ''set'' \<and> action \<noteq> ''unset'' \<and> action \<noteq> ''status''
           then done_with (Inl (Errorf ''usage: deep proxy [set|unset|status] [--address IP:PORT] [--config FILE]''))
         else case executable of
           Inl e \<Rightarrow> done_with (Inl e)
         | Inr exe \<Rightarrow>
             (case parseFlags proxy_flags (tl args') \<lparr>po_config = Join [Dir exe, ''config.json''], po_address = [], po_json = False\<rparr> of
                Inl e \<Rightarrow> done_with (Inl e)
              | Inr None \<Rightarrow> done_with (Inr None)
              | Inr (Some opt) \<Rightarrow>
                  (case (if action = ''set'' then ValidateProxyAddress (po_address opt)
                         else if po_address opt \<noteq> [] then Inl (Errorf ''--address is only valid with proxy set'') else Inr ()) of
                     Inl e \<Rightarrow> done_with (Inl e)
                   | Inr _ \<Rightarrow>
                       bind (configureProxy run proxy cwd temp backup (po_config opt) action (po_address opt)) (\<lambda>state.
                         done_with (Inr (Some (proxy_report state (po_json opt))))))))"

subsection \<open>Maps\<close>

lemma map_of_sort_key: "distinct (map fst xs) \<Longrightarrow> map_of (sort_key fst xs) = map_of (xs :: (bytes \<times> 'v) list)"
proof -
  assume d: "distinct (map fst xs)"
  have "distinct (map fst (sort_key fst xs))"
    using d by (simp flip: mset_map add: distinct_map inj_on_def)
  then show ?thesis using d by (subst map_of_inject_set) simp_all
qed

lemma json_any_Object:
  obtains ns where "json_any (JObject ms) = JObject ns" "map_of ns = map_option json_any \<circ> map_of (rev ms)"
proof
  show "json_any (JObject ms) = JObject (sort_key fst (AList.clearjunk (rev (map (map_prod id json_any) ms))))" by simp
  have "map_of (rev (map (map_prod id json_any) ms)) = map_option json_any \<circ> map_of (rev ms)"
    by (simp add: rev_map map_prod_def map_of_map id_def)
  then show "map_of (sort_key fst (AList.clearjunk (rev (map (map_prod id json_any) ms)))) = map_option json_any \<circ> map_of (rev ms)"
    by (simp add: map_of_sort_key distinct_clearjunk map_of_clearjunk)
qed

text \<open>What an edit must do: replace the proxy and nothing else.\<close>

definition proxy_edit :: "config_map \<Rightarrow> string \<Rightarrow> jvalue \<Rightarrow> bool" where
  "proxy_edit config target tree \<longleftrightarrow>
     (\<exists>ns. tree = JObject ns \<and>
       map_of ns = (\<lambda>k. map_option json_any (config_entry k config))(''proxy'' :=
         if target = [] then None else Some (JObject [(''address'', JString target)])))"

lemma map_of_filter_other: "map_of (filter (\<lambda>m. fst m \<noteq> k) ms) = (map_of ms)(k := None)"
  by (induction ms) (auto simp: fun_eq_iff)

lemma edited_proxy:
  assumes "edited config target = Inr config'" "config \<noteq> None"
  obtains tree where "marshal_config config' = json_file tree" "proxy_edit config target tree"
proof -
  from assms obtain ms where c: "config = Some ms" by auto
  with assms(1) obtain ms' where c': "config' = Some ms'"
    and ms': "map_of (rev ms') = (map_of (rev ms))(''proxy'' := if target = [] then None else Some (JObject [(''address'', JString target)]))"
    by (auto simp: edited_def rev_filter map_of_filter_other split: if_splits)
  obtain ns where ns: "json_any (JObject ms') = JObject ns" "map_of ns = map_option json_any \<circ> map_of (rev ms')"
    by (rule json_any_Object)
  have "proxy_edit config target (JObject ns)"
    unfolding proxy_edit_def by (intro exI conjI refl) (auto simp: ns(2) ms' c config_entry_def fun_eq_iff)
  then show thesis using that ns(1) c' by (simp add: marshal_config_def)
qed

subsection \<open>Publishing\<close>

lemma write_backup_names:
  assumes "write_backup backup before d = (r, d')" "undisturbed d"
  shows "undisturbed d' \<and> (\<forall>n. n \<noteq> backup \<longrightarrow> dk_names d' n = dk_names d n) \<and>
     (is_ok r \<longrightarrow> dk_names d' backup = Some (Regular_file (dk_fresh d) before))"
  using assms(1) unfolding write_backup_def
proof (cases rule: bind_cases)
  case (failed e)
  from failed(1) assms(2) show ?thesis by (cases rule: os_CreateTemp_names) (use failed in \<open>auto simp: is_ok_def\<close>)
next
  case (ran i d1)
  from ran(1) assms(2) have c: "i = dk_fresh d" "dk_names d1 = (dk_names d)(backup \<mapsto> Regular_file i [])" "undisturbed d1"
    by (cases rule: os_CreateTemp_names; auto)+
  have only: "\<forall>n content. dk_names d1 n = Some (Regular_file i content) \<longrightarrow> n = backup"
    unfolding c(2) unfolding c(1) by (rule new_identity [OF assms(2)])
  obtain w d2 where w: "os_Write i before d1 = (w, d2)" by fastforce
  obtain x d3 where x: "os_Sync d2 = (x, d3)" by fastforce
  have r: "d' = d3" "is_ok r \<Longrightarrow> is_ok w" using ran(2) w x by (auto simp: is_ok_def split: sum.splits)
  have "dk_names d1 backup = Some (Regular_file i [])" by (simp add: c(2))
  from w c(3) this only show ?thesis
  proof (cases rule: os_Write_names)
    case (failed e)
    with looked [where m = os_Sync, OF x] r c(2) show ?thesis by (auto simp: is_ok_def)
  next
    case ran
    with looked [where m = os_Sync, OF x] r c show ?thesis by (auto simp: is_ok_def)
  qed
qed

lemma replace_config_names:
  assumes "replace_config temp backup path i before d = (r, d')" "undisturbed d" "temp \<noteq> backup" "backup \<noteq> path" "temp \<noteq> path"
    "dk_names d temp = Some e"
  shows "undisturbed d' \<and> (\<forall>n. n \<notin> {backup, temp, path} \<longrightarrow> dk_names d' n = dk_names d n) \<and>
     (if is_ok r then dk_names d' path = Some e \<and> (\<exists>k. dk_names d' backup = Some (Regular_file k before))
      else dk_names d' path = dk_names d path)"
proof -
  obtain x d1 where l: "os_Lstat path d = (x, d1)" by fastforce
  obtain y d2 where y: "os_ReadFile path d1 = (y, d2)" by fastforce
  note d1 = looked [where m = "os_Lstat path", OF l assms(2) looks_simps(1)]
  note d2 = looked [where m = "os_ReadFile path", OF y d1(2) looks_simps(2)]
  consider (no) e' where "r = Inl e'" "d' = d1 \<or> d' = d2"
    | (go) "bind (write_backup backup before) (\<lambda>_. os_Rename temp path) d2 = (r, d')"
    using assms(1) l y by (auto simp: replace_config_def split: sum.splits entry.splits if_splits)
  then show ?thesis
  proof cases
    case no
    then show ?thesis using d1 d2 by (auto simp: is_ok_def)
  next
    case go
    then show ?thesis
    proof (cases rule: bind_cases)
      case (failed e')
      with write_backup_names [OF failed(1) d2(2)] d1 d2 assms(4) show ?thesis by (auto simp: is_ok_def)
    next
      case (ran u d3)
      note d3 = write_backup_names [OF ran(1) d2(2)]
      from ran(2) conjunct1 [OF d3] show ?thesis
      proof (cases rule: os_Rename_names)
        case (failed e')
        with d3 d1 d2 assms(4) show ?thesis by (auto simp: is_ok_def)
      next
        case (ran e')
        with d3 d1 d2 assms(3-) show ?thesis by (auto simp: is_ok_def)
      qed
    qed
  qed
qed

lemma create_config_names:
  assumes "create_config temp path d = (r, d')" "undisturbed d" "dk_names d temp = Some e"
  shows "undisturbed d' \<and> (\<forall>n. n \<noteq> path \<longrightarrow> dk_names d' n = dk_names d n) \<and>
     (if is_ok r then dk_names d' path = Some e \<and> dk_names d path = None else dk_names d' path = dk_names d path)"
proof -
  obtain x d1 where l: "os_Lstat path d = (x, d1)" by fastforce
  note d1 = looked [where m = "os_Lstat path", OF l assms(2) looks_simps(1)]
  consider (no) e' where "r = Inl e'" "d' = d1" | (go) "os_Link temp path d1 = (r, d')"
    using assms(1) l by (auto simp: create_config_def split: sum.splits if_splits)
  then show ?thesis
  proof cases
    case no
    then show ?thesis using d1 by (auto simp: is_ok_def)
  next
    case go
    from go d1(2) show ?thesis by (cases rule: os_Link_names) (use d1 assms(3) in \<open>auto simp: is_ok_def\<close>)
  qed
qed

lemma LoadRegistry_at_names:
  assumes "LoadRegistry_at run proxy cwd p d = (r, d')" "undisturbed d" "dk_names d p = Some (Regular_file i content)"
  shows "dk_names d' = dk_names d \<and> undisturbed d' \<and> (is_ok r \<longrightarrow> is_ok (LoadRegistry run proxy (\<lambda>_. Inr content) cwd p))"
proof -
  obtain x where x: "os_ReadFile p d = (x, d')" "r = LoadRegistry run proxy (\<lambda>_. x) cwd p"
    using assms(1) by (auto simp: LoadRegistry_at_def split: prod.splits)
  have "x = Inr content" if "is_ok r"
  proof (cases x)
    case (Inl e)
    then show ?thesis using that x(2) by (simp add: LoadRegistry_def loadRegistryConfig_def is_ok_def)
  next
    case (Inr data)
    then show ?thesis using os_ReadFile_Inr [OF _ assms(2,3)] x(1) by simp
  qed
  then show ?thesis using looked [where m = "os_ReadFile p", OF x(1) assms(2) looks_simps(2)] x(2) by auto
qed

text \<open>The outcomes of the change: nothing, or the new file in place with the old one saved.\<close>

definition unchanged :: "string \<Rightarrow> string \<Rightarrow> disk \<Rightarrow> disk \<Rightarrow> bool" where
  "unchanged temp backup d d' \<longleftrightarrow> (\<forall>n. n \<notin> {temp, backup} \<longrightarrow> dk_names d' n = dk_names d n)"

lemma publish_cases:
  assumes "(case old of Some (i, before) \<Rightarrow> replace_config temp backup path i before | None \<Rightarrow> create_config temp path) d = (r, d')"
    "undisturbed d" "temp \<noteq> backup" "backup \<noteq> path" "temp \<noteq> path" "dk_names d temp = Some e"
  shows "undisturbed d' \<and> (\<forall>n. n \<notin> {backup, temp, path} \<longrightarrow> dk_names d' n = dk_names d n) \<and>
     (if is_ok r then dk_names d' path = Some e \<and> (old = None \<longrightarrow> dk_names d path = None) \<and>
        (\<forall>i before. old = Some (i, before) \<longrightarrow> (\<exists>k. dk_names d' backup = Some (Regular_file k before)))
      else dk_names d' path = dk_names d path)"
proof (cases old)
  case None
  then show ?thesis using create_config_names [of temp path d r d' e] assms by auto
next
  case (Some a)
  then show ?thesis using replace_config_names [of temp backup path "fst a" "snd a" d r d' e] assms by (cases a) auto
qed

lemma edit_config_cases:
  assumes "edit_config run proxy cwd temp backup path action address old config d = (r, d')" "undisturbed d"
    "temp \<noteq> backup" "backup \<noteq> path" "temp \<noteq> path"
  obtains (failed) e where "r = Inl e" "unchanged temp backup d d'"
    | (same) "r = current_state config" "d' = d"
    | (changed) config' i target where "edited config target = Inr config'"
        "target = (if action = ''unset'' then [] else address)"
        "r = Inr \<lparr>ps_Configured = target \<noteq> [], ps_Address = target\<rparr>"
        "dk_names d' path = Some (Regular_file i (marshal_config config'))"
        "is_ok (LoadRegistry run proxy (\<lambda>_. Inr (marshal_config config')) cwd temp)"
        "\<forall>n. n \<notin> {temp, backup, path} \<longrightarrow> dk_names d' n = dk_names d n"
        "\<forall>i before. old = Some (i, before) \<longrightarrow> (\<exists>k. dk_names d' backup = Some (Regular_file k before))"
        "old = None \<Longrightarrow> dk_names d path = None"
proof (cases "current_state config")
  case (Inl e)
  then show thesis using assms(1) that(2) by (simp add: edit_config_def done_with_def)
next
  case (Inr state)
  define target where "target = (if action = ''unset'' then [] else address)"
  let ?publish = "case old of Some (i, before) \<Rightarrow> replace_config temp backup path i before | None \<Rightarrow> create_config temp path"
  let ?result = "Inr \<lparr>ps_Configured = target \<noteq> [], ps_Address = target\<rparr>"
  consider (same) "r = Inr state" "d' = d"
    | (panic) e where "edited config target = Inl e" "r = Inl e" "d' = d"
    | (go) config' where "edited config target = Inr config'"
        "with_temporary temp (marshal_config config') (bind (LoadRegistry_at run proxy cwd temp) (\<lambda>_.
           bind ?publish (\<lambda>_. done_with ?result))) d = (r, d')"
    using assms(1)
    by (auto simp: edit_config_def Inr Let_def done_with_def target_def [symmetric] split: if_splits sum.splits)
  then show thesis
  proof cases
    case same
    then show thesis using that(2) Inr by simp
  next
    case panic
    then show thesis using that(1) by (simp add: unchanged_def)
  next
    case go
    from go(2) assms(2) show thesis
    proof (cases rule: with_temporary_names)
      case (failed e)
      then show thesis by (intro that(1)) (auto simp: unchanged_def)
    next
      case (ran d1 d2)
      note temporary = this
      have t: "dk_names d1 temp = Some (Regular_file (dk_fresh d) (marshal_config config'))" using ran(2) by simp
      from ran(4) show thesis
      proof (cases rule: bind_cases)
        case (failed e)
        from LoadRegistry_at_names [OF failed(1) temporary(3) t] failed(2) temporary show thesis
          by (intro that(1)) (auto simp: unchanged_def)
      next
        case (ran u d3)
        note d3 = LoadRegistry_at_names [OF ran(1) temporary(3) t]
        obtain p d4 where p: "?publish d3 = (p, d4)" by fastforce
        have d4: "d2 = d4" "r = (case p of Inl e \<Rightarrow> Inl e | Inr _ \<Rightarrow> ?result)"
          using ran(2) p by (auto simp: bind_def done_with_def split: sum.splits)
        have q: "undisturbed d4 \<and> (\<forall>n. n \<notin> {backup, temp, path} \<longrightarrow> dk_names d4 n = dk_names d3 n) \<and>
            (if is_ok p then dk_names d4 path = Some (Regular_file (dk_fresh d) (marshal_config config')) \<and>
                (old = None \<longrightarrow> dk_names d3 path = None) \<and> (\<forall>i before. old = Some (i, before) \<longrightarrow> (\<exists>k. dk_names d4 backup = Some (Regular_file k before)))
             else dk_names d4 path = dk_names d3 path)"
          by (rule publish_cases [OF p _ assms(3-5)]) (use d3 t in auto)
        have d': "\<forall>n. n \<noteq> temp \<longrightarrow> dk_names d' n = dk_names d4 n" using temporary(5) q d4 by simp
        have same: "\<forall>n. n \<noteq> temp \<longrightarrow> dk_names d3 n = dk_names d n" using d3 temporary(2) by simp
        show thesis
        proof (cases p)
          case (Inl e)
          then show thesis using q d' same d4 by (intro that(1) [of e]) (auto simp: unchanged_def is_ok_def)
        next
          case (Inr v)
          then have "dk_names d' path = Some (Regular_file (dk_fresh d) (marshal_config config'))"
            "\<forall>i before. old = Some (i, before) \<longrightarrow> (\<exists>k. dk_names d' backup = Some (Regular_file k before))"
            "\<forall>n. n \<notin> {temp, backup, path} \<longrightarrow> dk_names d' n = dk_names d n" "old = None \<Longrightarrow> dk_names d path = None"
            using q d' same assms(3-5) by (auto simp: is_ok_def)
          then show thesis using go(1) d3 Inr d4 by (intro that(3)) (auto simp: is_ok_def target_def)
        qed
      qed
    qed
  qed
qed

lemma accepted_object:
  assumes "is_ok (LoadRegistry run proxy (\<lambda>_. Inr content) cwd path)" "length content \<le> 2 ^ 20"
  obtains ms where "Unmarshal content = Some (JObject ms)"
proof -
  from assms obtain config where "DecodeConfigJSON registryFile_shape registryFile_table registryFile_zero content = Inr config"
    by (auto simp: LoadRegistry_def loadRegistryConfig_def is_ok_def Let_def split: sum.splits)
  then obtain v where v: "Unmarshal content = Some v" "conforms v registryFile_shape" unfolding DecodeConfigJSON_iff by blast
  from v(2) show thesis
    by (cases v) (use v(1) that in \<open>auto simp: registryFile_shape_def conforms_kinds\<close>)
qed

lemma LoadRegistry_directory:
  "Dir (Abs cwd p) = Dir (Abs cwd q) \<Longrightarrow> LoadRegistry run proxy (\<lambda>_. r) cwd p = LoadRegistry run proxy (\<lambda>_. r) cwd q"
  unfolding LoadRegistry_def loadRegistryConfig_def by (erule ssubst, rule refl)

text \<open>The configuration that an edit starts from, and what it leaves of the old file.\<close>

definition started_from :: "entry option \<Rightarrow> config_map \<Rightarrow> entry option \<Rightarrow> bool" where
  "started_from old config saved \<longleftrightarrow>
     (case old of
        None \<Rightarrow> config = Some default_config
      | Some (Regular_file i before) \<Rightarrow> unmarshal_config before = Inr config \<and> (\<exists>k. saved = Some (Regular_file k before))
      | Some e \<Rightarrow> False)"

lemma configured:
  assumes "configureProxy run proxy cwd temp backup path action address d = (r, d')" "undisturbed d"
  obtains (early) e where "r = Inl e" "dk_names d' = dk_names d"
    | (fresh) d1 where "edit_config run proxy cwd temp backup path action address None (Some default_config) d1 = (r, d')"
        "dk_names d1 = dk_names d" "undisturbed d1"
    | (old) i before ms d1 where "dk_names d path = Some (Regular_file i before)" "unmarshal_config before = Inr (Some (default_config @ ms))"
        "edit_config run proxy cwd temp backup path action address (Some (i, before)) (Some (default_config @ ms)) d1 = (r, d')"
        "dk_names d1 = dk_names d" "undisturbed d1"
proof -
  obtain x d1 where l: "os_Lstat path d = (x, d1)" by fastforce
  note d1 = looked [where m = "os_Lstat path", OF l assms(2) looks_simps(1)]
  consider (no) e where "r = Inl e" "d' = d1"
    | (fresh) "edit_config run proxy cwd temp backup path action address None (Some default_config) d1 = (r, d')"
    | (old) i content where "x = Inr (Regular_file i content)" "length content \<le> 2 ^ 20"
        "bind (os_ReadFile path) (\<lambda>before. bind (LoadRegistry_at run proxy cwd path) (\<lambda>_.
           case unmarshal_config before of Inl e \<Rightarrow> done_with (Inl e)
           | Inr config \<Rightarrow> edit_config run proxy cwd temp backup path action address (Some (i, before)) config)) d1 = (r, d')"
    using assms(1) by (auto simp: configureProxy_def l split: sum.splits if_splits entry.splits)
  then show thesis
  proof cases
    case (old i content)
    have c: "dk_names d path = Some (Regular_file i content)" using os_Lstat_Inr [OF l [unfolded old(1)] assms(2)] .
    from old(3) show thesis
    proof (cases rule: bind_cases)
      case (failed e)
      with looked [where m = "os_ReadFile path", OF failed(1) d1(2)] d1 show thesis by (intro that(1)) auto
    next
      case (ran before d2)
      note d2 = looked [where m = "os_ReadFile path", OF ran(1) d1(2) looks_simps(2)]
      have before: "before = content" using os_ReadFile_Inr [OF ran(1) d1(2)] c d1 by simp
      from ran(2) show thesis
      proof (cases rule: bind_cases)
        case (failed e)
        with LoadRegistry_at_names [OF failed(1) d2(2)] c d1 d2 show thesis by (intro that(1)) auto
      next
        case (ran u d3)
        have d3: "dk_names d3 = dk_names d" "undisturbed d3" "is_ok (LoadRegistry run proxy (\<lambda>_. Inr content) cwd path)"
          using LoadRegistry_at_names [OF ran(1) d2(2)] c d1 d2 by (auto simp: is_ok_def)
        obtain ms where "Unmarshal content = Some (JObject ms)" using accepted_object [OF d3(3) old(2)] .
        then show thesis using that(3) [OF c _ _ d3(1,2)] ran(2) before by (simp add: unmarshal_config_def)
      qed
    qed
  qed (use d1 that in auto)
qed

text \<open>
  Property C29: Whenever \<open>deep proxy\<close> changes the configuration file at all - whichever of its file
  operations fail on the way - it has succeeded: the file is the complete printed configuration,
  \<open>LoadRegistry\<close> accepts it, its members are those of the old configuration with the proxy alone
  replaced or removed as asked, and the old contents are saved beside it.
\<close>

theorem proxy_edit_complete:
  assumes "configureProxy run proxy cwd temp backup path action address d = (r, d')" "undisturbed d"
    "temp \<noteq> backup" "backup \<noteq> path" "temp \<noteq> path" "Dir (Abs cwd temp) = Dir (Abs cwd path)"
    "dk_names d' path \<noteq> dk_names d path"
  shows "\<exists>config target tree j.
      started_from (dk_names d path) config (dk_names d' backup) \<and> target = (if action = ''unset'' then [] else address) \<and>
      r = Inr \<lparr>ps_Configured = target \<noteq> [], ps_Address = target\<rparr> \<and>
      dk_names d' path = Some (Regular_file j (json_file tree)) \<and> proxy_edit config target tree \<and>
      is_ok (LoadRegistry run proxy (\<lambda>_. Inr (json_file tree)) cwd path)"
proof -
  have edit: ?thesis if e: "edit_config run proxy cwd temp backup path action address old config d1 = (r, d')"
    "dk_names d1 = dk_names d" "undisturbed d1" "config \<noteq> None"
    and from_old: "\<And>saved. (old = None \<Longrightarrow> dk_names d path = None) \<Longrightarrow> (\<forall>i before. old = Some (i, before) \<longrightarrow> (\<exists>k. saved = Some (Regular_file k before))) \<Longrightarrow>
        started_from (dk_names d path) config saved" for old config d1
    using e(1,3) assms(3-5)
  proof (cases rule: edit_config_cases)
    case (changed config' i target)
    obtain tree where tree: "marshal_config config' = json_file tree" "proxy_edit config target tree"
      using edited_proxy [OF changed(1) e(4)] .
    show ?thesis
      using changed tree from_old [OF _ changed(7)] changed(8) e(2) LoadRegistry_directory [OF assms(6)] by metis
  qed (use assms(4,5,7) e(2) in \<open>auto simp: unchanged_def\<close>)
  from assms(1,2) show ?thesis
  proof (cases rule: configured)
    case early
    with assms(7) show ?thesis by simp
  next
    case (fresh d1)
    then show ?thesis by (intro edit [of None "Some default_config" d1]) (auto simp: started_from_def)
  next
    case (old i before ms d1)
    then show ?thesis by (intro edit [of "Some (i, before)" "Some (default_config @ ms)" d1]) (auto simp: started_from_def)
  qed
qed

subsection \<open>Witness\<close>

definition sample_proxy_tree :: jvalue where
  "sample_proxy_tree = JObject [(''proxy'', JObject [(''address'', JString ''127.0.0.1:8'')]), (''version'', JNumber ''2'')]"

lemma sample_proxy_any:
  "marshal_config (Some (default_config @ [(''proxy'', JObject [(''address'', JString ''127.0.0.1:8'')])])) = json_file sample_proxy_tree"
proof -
  have "json_any (JObject (default_config @ [(''proxy'', JObject [(''address'', JString ''127.0.0.1:8'')])])) = sample_proxy_tree"
    by code_simp
  then show ?thesis by (simp only: marshal_config_def option.case)
qed

lemma sample_proxy_loads:
  "is_ok (LoadRegistry (\<lambda>_ _ _ _. ([], [], None)) (\<lambda>_ ctx _. (Inl EOF, ctx)) (\<lambda>_. Inr (json_file sample_proxy_tree)) ''/'' p)"
proof -
  have two: "''2'' = Itoa 2" by code_simp
  have i: "Itoa 8 = ''8''" by (simp add: Itoa_def nat_dec.simps digit_char_def) code_simp
  have "Atoi (Itoa 8) = Some 8" unfolding Atoi_def by (rule ParseInt10_Itoa) simp_all
  then have a: "Atoi ''8'' = Some 8" unfolding i .
  have h: "SplitHostPort ''127.0.0.1:8'' = Inr (''127.0.0.1'', ''8'')" by code_simp
  have p: "map_option IsLoopback (ParseIP ''127.0.0.1'') = Some True" by code_simp
  have v: "ValidateProxyAddress ''127.0.0.1:8'' = Inr ()" using p by (auto simp: ValidateProxyAddress_def h a i)
  have l: "length (json_file sample_proxy_tree) \<le> 1024 * 1024"
    by (simp add: sample_proxy_tree_def json_file_def MarshalIndent_def json_indent_Object nl_def next_item_def json_quote_def escape_body_plain)
  have "DecodeConfigJSON registryFile_shape registryFile_table registryFile_zero (json_file sample_proxy_tree) =
      Inr (registryFile_zero\<lparr>rf_Version := 2, rf_Proxy := Some \<lparr>px_Address = ''127.0.0.1:8''\<rparr>\<rparr>)"
    unfolding sample_proxy_tree_def
  proof (rule DecodeConfigJSON_file [OF _ _ _ _ l [unfolded sample_proxy_tree_def]])
    show "decode_members registryFile_table [(''proxy'', JObject [(''address'', JString ''127.0.0.1:8'')]), (''version'', JNumber ''2'')]
        registryFile_zero = Some (registryFile_zero\<lparr>rf_Version := 2, rf_Proxy := Some \<lparr>px_Address = ''127.0.0.1:8''\<rparr>\<rparr>)"
      by (simp add: registryFile_table_def proxyFile_table_def find_field_exact set_ptr_def decode_struct_def set_string_def
          registryFile_zero_def two int64_ok_def)
  qed (auto simp: config_tree_Object two registryFile_shape_def proxyFile_shape_def conforms_kinds conforms_simps(2))
  then show ?thesis using l v
    by (simp add: LoadRegistry_def loadRegistryConfig_def Let_def registryFile_zero_def ProtocolVersion_def registryFromConfig_def
        SetProxy_def is_ok_def)
qed

theorem proxy_edit_complete_witness:
  "\<exists>d' j. configureProxy (\<lambda>_ _ _ _. ([], [], None)) (\<lambda>_ ctx _. (Inl EOF, ctx)) ''/'' ''/c/t'' ''/c/b'' ''/c/p'' ''set'' ''127.0.0.1:8''
     \<lparr>dk_names = Map.empty, dk_fresh = 0, dk_script = []\<rparr> = (Inr \<lparr>ps_Configured = True, ps_Address = ''127.0.0.1:8''\<rparr>, d') \<and>
     (\<exists>tree. dk_names d' ''/c/p'' = Some (Regular_file j (json_file tree)) \<and> proxy_edit (Some default_config) ''127.0.0.1:8'' tree)"
proof -
  let ?d = "\<lparr>dk_names = Map.empty, dk_fresh = 0, dk_script = []\<rparr> :: disk"
  let ?run = "\<lambda>_ _ _ _. ([], [], None)" and ?proxy = "\<lambda>_ ctx _. (Inl EOF, ctx)"
  have l: "is_ok (LoadRegistry ?run ?proxy (\<lambda>_. Inr (json_file sample_proxy_tree)) ''/'' ''/c/t'')" by (rule sample_proxy_loads)
  then obtain reg where reg: "LoadRegistry ?run ?proxy (\<lambda>_. Inr (json_file sample_proxy_tree)) ''/'' ''/c/t'' = Inr reg"
    by (auto simp: is_ok_def split: sum.splits)
  have e: "edited (Some default_config) ''127.0.0.1:8'' = Inr (Some (default_config @ [(''proxy'', JObject [(''address'', JString ''127.0.0.1:8'')])]))"
    by (simp add: edited_def)
  have cs: "current_state (Some default_config) = Inr \<lparr>ps_Configured = False, ps_Address = []\<rparr>"
    "config_entry ''proxy'' (Some default_config) = None"
    by (simp_all add: current_state_def config_entry_def default_config_def)
  obtain r d' where c: "configureProxy ?run ?proxy ''/'' ''/c/t'' ''/c/b'' ''/c/p'' ''set'' ''127.0.0.1:8'' ?d = (r, d')"
    and d': "dk_names d' ''/c/p'' \<noteq> None"
    by (simp add: configureProxy_def edit_config_def cs e sample_proxy_any with_temporary_def create_config_def LoadRegistry_at_def
        bind_def deferred_def done_with_def os_Lstat_def os_ReadFile_def os_CreateTemp_def os_Write_def os_Sync_def os_Link_def
        os_Remove_def disk_op_def reg Let_def)
  have "Dir (Abs ''/'' ''/c/t'') = Dir (Abs ''/'' ''/c/p'')" by code_simp
  from proxy_edit_complete [OF c _ _ _ _ this] d' c show ?thesis
    by (auto simp: undisturbed_def below_def started_from_def)
qed

end
