(* ===== verification/Identity.thy ===== *)
theory Identity
  imports ProxySettings Node Base64
begin

text \<open>
  Creating identities: \<open>generateIdentity\<close> of \<open>src/security.go\<close> and the commands \<open>deep init\<close> and
  \<open>deep client-init\<close> of \<open>src/cmd/deep/identity.go\<close>. What Go's cryptography
  contributes is an argument: fresh keys and serial numbers, and the certificate made from a
  template. File modes are not part of the disk model.
\<close>

subsection \<open>Certificates\<close>

record certTemplate =
  tp_SerialNumber :: nat
  tp_CommonName :: string
  tp_DNSNames :: "string list"
  tp_NotBefore :: int
  tp_NotAfter :: int
  tp_KeyUsage :: nat
  tp_ExtKeyUsage :: "ext_usage list"
  tp_BasicConstraintsValid :: bool

text \<open>
  \<open>mldsa.GenerateKey\<close> (the public and the private half), \<open>rand.Int\<close>, \<open>x509.CreateCertificate\<close>
  for a template signed by its own key, and \<open>x509.MarshalPKCS8PrivateKey\<close>.
\<close>

record issuer =
  is_GenerateKey :: "(public_key \<times> bytes) res"
  is_Int :: "nat res"
  is_CreateCertificate :: "certTemplate \<Rightarrow> public_key \<times> bytes \<Rightarrow> bytes res"
  is_MarshalPKCS8PrivateKey :: "bytes \<Rightarrow> bytes res"

text \<open>\<open>pem.EncodeToMemory\<close>: base64 in lines of 64 characters between the two markers.\<close>

function pem_lines :: "bytes \<Rightarrow> bytes" where
  "pem_lines s = (if s = [] then [] else take 64 s @ [CHR 0x0A] @ pem_lines (drop 64 s))"
  by pat_completeness auto
termination
  by (relation "measure length") auto

declare pem_lines.simps [simp del]

definition EncodeToMemory :: "string \<Rightarrow> bytes \<Rightarrow> bytes" where
  "EncodeToMemory kind der =
     ''-----BEGIN '' @ kind @ ''-----'' @ [CHR 0x0A] @ pem_lines (b64_encode der) @
     ''-----END '' @ kind @ ''-----'' @ [CHR 0x0A]"

definition identity_template :: "nat \<Rightarrow> int \<Rightarrow> string \<Rightarrow> int \<Rightarrow> ext_usage \<Rightarrow> certTemplate" where
  "identity_template serial now authority validFor usage =
     \<lparr>tp_SerialNumber = serial + 1, tp_CommonName = authority, tp_DNSNames = [authority],
      tp_NotBefore = now - Minute, tp_NotAfter = now + validFor, tp_KeyUsage = KeyUsageDigitalSignature,
      tp_ExtKeyUsage = [usage], tp_BasicConstraintsValid = True\<rparr>"

text \<open>The certificate and the key as PEM, and the pin.\<close>

definition generateIdentity ::
    "crypto \<Rightarrow> issuer \<Rightarrow> int \<Rightarrow> string \<Rightarrow> int \<Rightarrow> ext_usage \<Rightarrow> (bytes \<times> bytes \<times> string) res" where
  "generateIdentity k iss now authority validFor usage =
     (case ValidateAuthority authority of
        Inl e \<Rightarrow> Inl e
      | Inr _ \<Rightarrow>
          if validFor \<le> 0 then Inl (Errorf ''identity validity must be positive'')
          else
     (case is_GenerateKey iss of
        Inl e \<Rightarrow> Inl (Wrapf ''generate identity'' e)
      | Inr privateKey \<Rightarrow>
     (case is_Int iss of
        Inl e \<Rightarrow> Inl (Wrapf ''generate certificate serial'' e)
      | Inr serial \<Rightarrow>
     (case is_CreateCertificate iss (identity_template serial now authority validFor usage) privateKey of
        Inl e \<Rightarrow> Inl (Wrapf ''create identity certificate'' e)
      | Inr der \<Rightarrow>
     (case is_MarshalPKCS8PrivateKey iss (snd privateKey) of
        Inl e \<Rightarrow> Inl (Wrapf ''encode identity key'' e)
      | Inr keyDER \<Rightarrow>
     (case k_ParseCertificate k der of
        Inl e \<Rightarrow> Inl e
      | Inr certificate \<Rightarrow>
          Inr (EncodeToMemory ''CERTIFICATE'' der, EncodeToMemory ''PRIVATE KEY'' keyDER,
               EncodeToString (k_Sum256 k (x_RawSubjectPublicKeyInfo certificate)))))))))"

definition GenerateIdentity :: "crypto \<Rightarrow> issuer \<Rightarrow> int \<Rightarrow> string \<Rightarrow> int \<Rightarrow> (bytes \<times> bytes \<times> string) res" where
  "GenerateIdentity k iss now authority validFor = generateIdentity k iss now authority validFor ServerAuth"

definition GenerateClientIdentity :: "crypto \<Rightarrow> issuer \<Rightarrow> int \<Rightarrow> string \<Rightarrow> int \<Rightarrow> (bytes \<times> bytes \<times> string) res" where
  "GenerateClientIdentity k iss now authority validFor = generateIdentity k iss now authority validFor ClientAuth"

definition year :: int where
  "year = 365 * 24 * Hour"

subsection \<open>Files of a new node\<close>

definition omit_int :: "string \<Rightarrow> int \<Rightarrow> (bytes \<times> jvalue) list" where
  "omit_int name i = (if i = 0 then [] else [(name, JNumber (Itoa i))])"

definition omit_strings :: "string \<Rightarrow> string list option \<Rightarrow> (bytes \<times> jvalue) list" where
  "omit_strings name ps =
     (case ps of None \<Rightarrow> [] | Some qs \<Rightarrow> if qs = [] then [] else [(name, JArray (map JString qs))])"

definition serverConfig_members :: "serverConfig \<Rightarrow> (bytes \<times> jvalue) list" where
  "serverConfig_members c =
     [(''version'', JNumber (Itoa (sc_Version c))), (''authority'', JString (sc_Authority c)), (''listen'', JString (sc_Listen c))] @
     omitempty ''root'' (sc_Root c) @ omitempty ''upstream'' (sc_Upstream c) @
     [(''certificate'', JString (sc_Certificate c)), (''private_key'', JString (sc_PrivateKey c)),
      (''access_mode'', JString (sc_AccessMode c))] @
     omit_strings ''allowed_client_pins'' (sc_AllowedClientPins c) @
     omit_int ''handshake_timeout_seconds'' (sc_HandshakeTimeoutSeconds c) @
     omit_int ''idle_timeout_seconds'' (sc_IdleTimeoutSeconds c) @
     omit_int ''transfer_timeout_seconds'' (sc_TransferTimeoutSeconds c) @
     omit_int ''session_timeout_seconds'' (sc_SessionTimeoutSeconds c) @
     omit_int ''max_connections'' (sc_MaxConnections c) @
     omit_int ''max_connections_per_peer'' (sc_MaxConnectionsPerPeer c) @
     omit_int ''max_requests_per_session'' (uint (sc_MaxRequestsPerSession c)) @
     omit_int ''max_bytes'' (sc_MaxBytes c) @
     omit_int ''requests_per_minute'' (sc_RequestsPerMinute c)"

definition createPrivateDirectory :: "string \<Rightarrow> unit dio" where
  "createPrivateDirectory path d =
     (case os_Mkdir path d of
        (Inl e, d1) \<Rightarrow> (Inl (Wrapf ''create new directory (existing directories are not overwritten)'' e), d1)
      | (Inr _, d1) \<Rightarrow>
          (case os_Sync d1 of
             (Inl e, d2) \<Rightarrow> (Inl (Wrapf ''protect private directory'' e), snd (os_Remove path d2))
           | (Inr _, d2) \<Rightarrow> (Inr (), d2)))"

definition writeJSON :: "string \<Rightarrow> jvalue \<Rightarrow> unit dio" where
  "writeJSON path v = os_WriteFile path (json_file v)"

fun write_files :: "string \<Rightarrow> (string \<times> bytes) list \<Rightarrow> unit dio" where
  "write_files dir [] = done_with (Inr ())"
| "write_files dir ((name, data) # fs) = bind (os_WriteFile (Join [dir, name]) data) (\<lambda>_. write_files dir fs)"

text \<open>What is written is removed again unless everything was.\<close>

definition all_or_nothing :: "string \<Rightarrow> 'a dio \<Rightarrow> 'a dio" where
  "all_or_nothing path m d =
     (case m d of (Inr x, d1) \<Rightarrow> (Inr x, d1) | (Inl e, d1) \<Rightarrow> (Inl e, snd (os_RemoveAll path d1)))"

record initOptions =
  io_authority :: string
  io_dir :: string
  io_address :: string
  io_upstream :: string
  io_public :: bool

definition init_flags :: "initOptions flag list" where
  "init_flags =
     [String_flag ''authority'' (\<lambda>s p. p\<lparr>io_authority := s\<rparr>), String_flag ''dir'' (\<lambda>s p. p\<lparr>io_dir := s\<rparr>),
      String_flag ''address'' (\<lambda>s p. p\<lparr>io_address := s\<rparr>), String_flag ''upstream'' (\<lambda>s p. p\<lparr>io_upstream := s\<rparr>),
      Bool_flag ''public'' (\<lambda>b p. p\<lparr>io_public := b\<rparr>)]"

definition check_init :: "(string \<Rightarrow> URL option) \<Rightarrow> initOptions \<Rightarrow> check" where
  "check_init parse opts =
     (if io_authority opts = [] \<or> io_dir opts = [] then Inl (Errorf ''init requires --authority and --dir'')
      else case ValidateAuthority (io_authority opts) of
        Inl e \<Rightarrow> Inl e
      | Inr _ \<Rightarrow>
     (case SplitHostPort (io_address opts) of
        Inl e \<Rightarrow> Inl (Errorf ''--address must be host:port with a nonzero port; use an address reachable by the client'')
      | Inr (host, port) \<Rightarrow>
          if host = [] \<or> port = ''0'' \<or> port = []
            then Inl (Errorf ''--address must be host:port with a nonzero port; use an address reachable by the client'')
          else (case Atoi port of
              None \<Rightarrow> Inl (Errorf ''port must be an integer between 1 and 65535'')
            | Some number \<Rightarrow>
                if number < 1 \<or> number > 65535 \<or> Itoa number \<noteq> port
                  then Inl (Errorf ''port must be an integer between 1 and 65535'')
                else if (case ParseIP host of None \<Rightarrow> False | Some i \<Rightarrow> IsUnspecified i)
                  then Inl (Errorf ''--address requires a specific address; you can later change listen in server.json to 0.0.0.0:port'')
                else if io_upstream opts \<noteq> [] then ValidateHTTPUpstream parse (io_upstream opts)
                else Inr ())))"

definition network_part :: "string \<Rightarrow> string" where
  "network_part authority = Split authority (CHR ''.'') ! 1"

text \<open>\<open>clientPin\<close> is the pin of the new client unless the node is public.\<close>

definition init_server :: "initOptions \<Rightarrow> string option \<Rightarrow> serverConfig" where
  "init_server opts clientPin = serverConfig_zero
     \<lparr>sc_Version := 2, sc_Authority := io_authority opts, sc_Listen := io_address opts,
      sc_Root := (if io_upstream opts \<noteq> [] then [] else ''content''), sc_Upstream := io_upstream opts,
      sc_Certificate := ''identity.crt'', sc_PrivateKey := ''identity.key'',
      sc_AccessMode := (if clientPin = None then ''public'' else ''private''),
      sc_AllowedClientPins := map_option (\<lambda>pin. [pin]) clientPin\<rparr>"

definition init_endpoint :: "initOptions \<Rightarrow> string \<Rightarrow> Endpoint" where
  "init_endpoint opts pin = \<lparr>ep_Address = io_address opts, ep_PinSHA256 = pin, ep_Transport = ''tcp''\<rparr>"

definition init_client :: "initOptions \<Rightarrow> string \<Rightarrow> bool \<Rightarrow> jvalue" where
  "init_client opts pin public = json_any (JObject (
     [(''version'', JNumber (Itoa 2)),
      (''networks'', JObject [(network_part (io_authority opts), JObject
         [(''adapter'', JString ''static''),
          (''endpoints'', JObject [(io_authority opts, JObject (endpoint_members (init_endpoint opts pin)))])])])] @
     (if public then [] else [(''client_identity'', JObject
         [(''certificate'', JString ''client.crt''), (''private_key'', JString ''client.key'')])])))"

definition welcome_text :: "string \<Rightarrow> bytes" where
  "welcome_text authority =
     ''Hello from deep://'' @ authority @ ''/'' @ [CHR 0x0A] @
     ''DEEP: native messages, hybrid post-quantum key exchange, and ML-DSA-65 authentication.'' @ [CHR 0x0A]"

definition init_files :: "initOptions \<Rightarrow> bytes \<Rightarrow> bytes \<Rightarrow> (string \<times> bytes) list" where
  "init_files opts cert key =
     [(''identity.crt'', cert), (''identity.key'', key)] @
     (if io_upstream opts \<noteq> [] then [] else [(Join [''content'', ''index.txt''], welcome_text (io_authority opts))])"

text \<open>\<open>iss\<close> makes the identity of the node and \<open>iss2\<close> that of its first client.\<close>

definition populate_node :: "crypto \<Rightarrow> issuer \<Rightarrow> int \<Rightarrow> initOptions \<Rightarrow> string \<Rightarrow> bytes \<times> bytes \<times> string \<Rightarrow> unit dio" where
  "populate_node k iss2 now opts target identity =
     (case identity of (cert, key, pin) \<Rightarrow>
        bind (if io_upstream opts = [] then os_Mkdir (Join [target, ''content'']) else done_with (Inr ())) (\<lambda>_.
          case (if io_public opts then Inr None
                else map_sum id Some (GenerateClientIdentity k iss2 now (''client.'' @ network_part (io_authority opts)) year)) of
            Inl e \<Rightarrow> done_with (Inl e)
          | Inr client \<Rightarrow>
              bind (write_files target (init_files opts cert key @
                  (case client of None \<Rightarrow> [] | Some (c, ck, _) \<Rightarrow> [(''client.crt'', c), (''client.key'', ck)]))) (\<lambda>_.
              bind (writeJSON (Join [target, ''server.json''])
                  (JObject (serverConfig_members (init_server opts (map_option (\<lambda>(_, _, p). p) client))))) (\<lambda>_.
              writeJSON (Join [target, ''client.json'']) (init_client opts pin (io_public opts))))))"

text \<open>The directory of the new node and its pin, which the command prints.\<close>

definition create_node ::
    "crypto \<Rightarrow> issuer \<Rightarrow> issuer \<Rightarrow> int \<Rightarrow> (string \<Rightarrow> URL option) \<Rightarrow> string \<Rightarrow> initOptions \<Rightarrow> (string \<times> string) dio" where
  "create_node k iss iss2 now parse cwd opts =
     (case check_init parse opts of
        Inl e \<Rightarrow> done_with (Inl e)
      | Inr _ \<Rightarrow>
          (let target = Abs cwd (io_dir opts)
           in case GenerateIdentity k iss now (io_authority opts) year of
                Inl e \<Rightarrow> done_with (Inl e)
              | Inr (cert, key, pin) \<Rightarrow>
                  (case ValidateEndpoint (init_endpoint opts pin) of
                     Inl e \<Rightarrow> done_with (Inl e)
                   | Inr _ \<Rightarrow>
                       bind (createPrivateDirectory target) (\<lambda>_.
                       bind (all_or_nothing target (populate_node k iss2 now opts target (cert, key, pin))) (\<lambda>_.
                       done_with (Inr (target, pin)))))))"

definition initNode ::
    "crypto \<Rightarrow> issuer \<Rightarrow> issuer \<Rightarrow> int \<Rightarrow> (string \<Rightarrow> URL option) \<Rightarrow> string \<Rightarrow> string list \<Rightarrow> (string \<times> string) option dio" where
  "initNode k iss iss2 now parse cwd args =
     (case parseFlags init_flags args
         \<lparr>io_authority = [], io_dir = [], io_address = ''127.0.0.1:9761'', io_upstream = [], io_public = False\<rparr> of
        Inl e \<Rightarrow> done_with (Inl e)
      | Inr None \<Rightarrow> done_with (Inr None)
      | Inr (Some opts) \<Rightarrow> bind (create_node k iss iss2 now parse cwd opts) (\<lambda>r. done_with (Inr (Some r))))"

subsection \<open>deep client-init\<close>

definition client_flags :: "(string \<times> string) flag list" where
  "client_flags = [String_flag ''authority'' (\<lambda>s p. (s, snd p)), String_flag ''dir'' (\<lambda>s p. (fst p, s))]"

definition identity_json :: "string \<Rightarrow> string \<Rightarrow> jvalue" where
  "identity_json authority pin = json_any (JObject
     [(''authority'', JString authority), (''pin_sha256'', JString pin),
      (''client_identity'', JObject [(''certificate'', JString ''client.crt''), (''private_key'', JString ''client.key'')])])"

definition create_client :: "crypto \<Rightarrow> issuer \<Rightarrow> int \<Rightarrow> string \<Rightarrow> string \<Rightarrow> string \<Rightarrow> (string \<times> string) dio" where
  "create_client k iss now cwd authority directory =
     (if authority = [] \<or> directory = [] then done_with (Inl (Errorf ''client-init requires --authority and --dir''))
      else case GenerateClientIdentity k iss now authority year of
        Inl e \<Rightarrow> done_with (Inl e)
      | Inr (cert, key, pin) \<Rightarrow>
          (let target = Abs cwd directory
           in bind (createPrivateDirectory target) (\<lambda>_.
              bind (all_or_nothing target
                (bind (write_files target [(''client.crt'', cert), (''client.key'', key)]) (\<lambda>_.
                   writeJSON (Join [target, ''identity.json'']) (identity_json authority pin)))) (\<lambda>_.
              done_with (Inr (target, pin))))))"

definition initClient :: "crypto \<Rightarrow> issuer \<Rightarrow> int \<Rightarrow> string \<Rightarrow> string list \<Rightarrow> (string \<times> string) option dio" where
  "initClient k iss now cwd args =
     (case parseFlags client_flags args ([], []) of
        Inl e \<Rightarrow> done_with (Inl e)
      | Inr None \<Rightarrow> done_with (Inr None)
      | Inr (Some (authority, directory)) \<Rightarrow>
          bind (create_client k iss now cwd authority directory) (\<lambda>r. done_with (Inr (Some r))))"

subsection \<open>Paths below a directory\<close>

definition path_elem :: "string \<Rightarrow> bool" where
  "path_elem p \<longleftrightarrow> p \<noteq> [] \<and> p \<noteq> ''.'' \<and> p \<noteq> ''..'' \<and> CHR ''/'' \<notin> set p"

abbreviation rooted :: "string list \<Rightarrow> string" where
  "rooted ps \<equiv> CHR ''/'' # join (CHR ''/'') ps"

lemma clean_parts_elems: "\<forall>p\<in>set ps. path_elem p \<Longrightarrow> clean_parts r ps acc = rev acc @ ps"
  by (induction ps arbitrary: acc) (auto simp: path_elem_def)

lemma Clean_rooted:
  assumes "IsAbs p"
  obtains ps where "Clean p = rooted ps" "\<forall>q\<in>set ps. path_elem q"
  using assms path_parts_ok [of _ p] by (auto simp: Clean_def path_elem_def intro!: that [of "path_parts p"])

lemma Abs_rooted:
  assumes "IsAbs cwd"
  obtains ps where "Abs cwd p = rooted ps" "\<forall>q\<in>set ps. path_elem q"
proof (cases "IsAbs p")
  case True
  then show thesis using Clean_rooted [of p] that by (auto simp: Abs_def)
next
  case False
  obtain c where c: "cwd = CHR ''/'' # c" using assms by (auto simp: IsAbs_def HasPrefix_iff)
  have j: "IsAbs (join (CHR ''/'') (cwd # ps))" for ps by (cases ps) (simp_all add: c IsAbs_def HasPrefix_def)
  have "\<exists>ps. filter (\<lambda>e. e \<noteq> []) [cwd, p] = cwd # ps" by (simp add: c)
  then obtain ps where "Abs cwd p = Clean (join (CHR ''/'') (cwd # ps))"
    using False by (auto simp: Abs_def Join_def simp del: filter.simps join.simps)
  then show thesis using Clean_rooted [OF j] that by metis
qed

lemma join_append: "ps \<noteq> [] \<Longrightarrow> qs \<noteq> [] \<Longrightarrow> join d (ps @ qs) = join d ps @ d # join d qs"
proof (induction ps)
  case (Cons p ps)
  then show ?case by (cases ps; cases qs) auto
qed simp

lemma Join_rooted:
  assumes "\<forall>q\<in>set ps. path_elem q" "\<forall>q\<in>set (Split n (CHR ''/'')). path_elem q"
  shows "Join [rooted ps, n] = rooted (ps @ Split n (CHR ''/''))"
proof -
  let ?q = "Split n (CHR ''/'')"
  have n: "n \<noteq> []"
  proof
    assume "n = []"
    with assms(2) show False by (simp add: path_elem_def)
  qed
  have s: "Split (join (CHR ''/'') (ps @ ?q)) (CHR ''/'') = ps @ ?q"
    using assms by (intro Split_join) (auto simp: path_elem_def)
  have "\<exists>e. (\<forall>x\<in>set e. x = []) \<and> Split (rooted ps @ CHR ''/'' # n) (CHR ''/'') = e @ ps @ ?q"
  proof (cases "ps = []")
    case True
    then show ?thesis by (intro exI [of _ "[[], []]"]) simp
  next
    case False
    then have "join (CHR ''/'') ps @ CHR ''/'' # n = join (CHR ''/'') (ps @ ?q)"
      using join_append [of ps ?q] by (simp add: join_Split)
    then show ?thesis using s by (intro exI [of _ "[[]]"]) simp
  qed
  then obtain e where e: "\<forall>x\<in>set e. x = []" "Split (rooted ps @ CHR ''/'' # n) (CHR ''/'') = e @ ps @ ?q" by blast
  have "clean_parts True (e @ ps @ ?q) [] = clean_parts True (ps @ ?q) []" using e(1) by (induction e) auto
  then have "path_parts (rooted ps @ CHR ''/'' # n) = ps @ ?q"
    using assms clean_parts_elems [of "ps @ ?q" True "[]"] unfolding path_parts_def e(2) by (auto simp: IsAbs_def HasPrefix_def)
  then show ?thesis using n by (simp add: Join_def Clean_def IsAbs_def HasPrefix_def)
qed

lemma path_split:
  assumes "\<forall>q\<in>set ps. path_elem q"
  shows "filter (\<lambda>q. q \<noteq> []) (Split (join (CHR ''/'') ps) (CHR ''/'')) = ps"
proof (cases "ps = []")
  case False
  then have "Split (join (CHR ''/'') ps) (CHR ''/'') = ps"
    by (rule Split_join) (use assms in \<open>simp add: path_elem_def\<close>)
  then show ?thesis using assms by (simp add: filter_id_conv path_elem_def)
qed simp

lemma rooted_inject:
  assumes "\<forall>q\<in>set ps. path_elem q" "\<forall>q\<in>set qs. path_elem q" "rooted ps = rooted qs"
  shows "ps = qs"
proof -
  from assms(3) have "join (CHR ''/'') ps = join (CHR ''/'') qs" by simp
  then have "filter (\<lambda>q. q \<noteq> []) (Split (join (CHR ''/'') ps) (CHR ''/'')) =
      filter (\<lambda>q. q \<noteq> []) (Split (join (CHR ''/'') qs) (CHR ''/''))" by (rule arg_cong)
  then show ?thesis unfolding path_split [OF assms(1)] path_split [OF assms(2)] .
qed

lemma within_child: "qs \<noteq> [] \<Longrightarrow> within (rooted ps) (rooted (ps @ qs))"
  by (cases "ps = []") (simp_all add: within_def join_append Let_def)

subsection \<open>What the commands write\<close>

lemma bind_assoc: "bind (bind m f) g = bind m (\<lambda>x. bind (f x) g)"
  by (simp add: bind_def fun_eq_iff split: prod.split sum.split)

lemma bind_done [simp]: "bind (done_with (Inr x)) f = f x" "bind (m :: unit dio) (\<lambda>_. done_with (Inr ())) = m"
  by (auto simp: bind_def done_with_def fun_eq_iff split: prod.split sum.split)

lemma write_files_append: "write_files dir (as @ bs) = bind (write_files dir as) (\<lambda>_. write_files dir bs)"
  by (induction dir as rule: write_files.induct) (simp_all add: bind_assoc)

lemma distinct_other: "distinct (map h (f # fs)) \<Longrightarrow> g \<in> set fs \<Longrightarrow> h g \<noteq> h f"
  by (metis distinct.simps(2) image_eqI list.set_map list.simps(9))

lemma write_files_names:
  assumes "write_files dir fs d = (r, d')" "undisturbed d" "distinct (map (\<lambda>f. Join [dir, fst f]) fs)"
    "\<forall>f\<in>set fs. dk_names d (Join [dir, fst f]) = None"
  shows "undisturbed d' \<and> (\<forall>n. n \<notin> (\<lambda>f. Join [dir, fst f]) ` set fs \<longrightarrow> dk_names d' n = dk_names d n) \<and>
     (is_ok r \<longrightarrow> (\<forall>f\<in>set fs. \<exists>i. dk_names d' (Join [dir, fst f]) = Some (Regular_file i (snd f))))"
  using assms
proof (induction fs arbitrary: d)
  case Nil
  then show ?case by (simp add: done_with_def)
next
  case (Cons f fs)
  obtain name data where f: "f = (name, data)" by fastforce
  let ?p = "Join [dir, name]"
  from Cons.prems(1) f have "bind (os_WriteFile ?p data) (\<lambda>_. write_files dir fs) d = (r, d')" by simp
  then show ?case
  proof (cases rule: bind_cases)
    case (failed e)
    then show ?thesis using os_WriteFile_new [OF failed(1) Cons.prems(2)] Cons.prems(4) f by (auto simp: is_ok_def)
  next
    case (ran u d1)
    have d1: "undisturbed d1" "\<forall>n. n \<noteq> ?p \<longrightarrow> dk_names d1 n = dk_names d n" "\<exists>i. dk_names d1 ?p = Some (Regular_file i data)"
      using os_WriteFile_new [OF ran(1) Cons.prems(2)] Cons.prems(4) f by (auto simp: is_ok_def)
    have new: "?p \<notin> (\<lambda>f. Join [dir, fst f]) ` set fs" using Cons.prems(3) f by auto
    have "dk_names d1 (Join [dir, fst g]) = None" if "g \<in> set fs" for g
    proof -
      have "Join [dir, fst g] \<noteq> ?p" using distinct_other [OF Cons.prems(3) that] f by simp
      then show ?thesis using d1(2) Cons.prems(4) that by simp
    qed
    then have "\<forall>f\<in>set fs. dk_names d1 (Join [dir, fst f]) = None" by blast
    then have "undisturbed d' \<and> (\<forall>n. n \<notin> (\<lambda>f. Join [dir, fst f]) ` set fs \<longrightarrow> dk_names d' n = dk_names d1 n) \<and>
        (is_ok r \<longrightarrow> (\<forall>f\<in>set fs. \<exists>i. dk_names d' (Join [dir, fst f]) = Some (Regular_file i (snd f))))"
      using Cons.IH [OF ran(2) d1(1)] Cons.prems(3) by simp
    then show ?thesis using d1 new f by auto
  qed
qed

text \<open>All files of a new node; \<open>client\<close> is the identity of its first client, if it has one.\<close>

definition node_files ::
    "initOptions \<Rightarrow> bytes \<times> bytes \<times> string \<Rightarrow> (bytes \<times> bytes \<times> string) option \<Rightarrow> (string \<times> bytes) list" where
  "node_files opts identity client =
     (case identity of (cert, key, pin) \<Rightarrow>
        init_files opts cert key @
        (case client of None \<Rightarrow> [] | Some (c, ck, _) \<Rightarrow> [(''client.crt'', c), (''client.key'', ck)]) @
        [(''server.json'', json_file (JObject (serverConfig_members (init_server opts (map_option (\<lambda>(_, _, p). p) client))))),
         (''client.json'', json_file (init_client opts pin (io_public opts)))])"

definition first_client :: "crypto \<Rightarrow> issuer \<Rightarrow> int \<Rightarrow> initOptions \<Rightarrow> (bytes \<times> bytes \<times> string) option res" where
  "first_client k iss2 now opts =
     (if io_public opts then Inr None
      else map_sum id Some (GenerateClientIdentity k iss2 now (''client.'' @ network_part (io_authority opts)) year))"

lemma populate_node_files:
  "populate_node k iss2 now opts target identity =
     bind (if io_upstream opts = [] then os_Mkdir (Join [target, ''content'']) else done_with (Inr ())) (\<lambda>_.
       case first_client k iss2 now opts of
         Inl e \<Rightarrow> done_with (Inl e) | Inr client \<Rightarrow> write_files target (node_files opts identity client))"
  unfolding populate_node_def first_client_def [symmetric] node_files_def
  by (cases identity; cases "first_client k iss2 now opts") (simp_all add: write_files_append writeJSON_def bind_assoc)

definition node_names :: "string list set" where
  "node_names = {[''identity.crt''], [''identity.key''], [''content'', ''index.txt''], [''client.crt''], [''client.key''],
     [''server.json''], [''client.json'']}"

lemma content_index: "Join [''content'', ''index.txt''] = ''content/index.txt''"
  by code_simp

lemma node_path_elems: "qs \<in> insert [''content''] node_names \<Longrightarrow> qs \<noteq> [] \<and> (\<forall>q\<in>set qs. path_elem q)"
  by (auto simp: node_names_def path_elem_def)

lemma node_path:
  assumes "\<forall>q\<in>set ps. path_elem q" "Split n (CHR ''/'') \<in> insert [''content''] node_names"
  shows "Join [rooted ps, n] = rooted (ps @ Split n (CHR ''/''))"
  using Join_rooted [OF assms(1)] node_path_elems [OF assms(2)] by simp

lemma node_files_names:
  "f \<in> set (node_files opts identity client) \<Longrightarrow> Split (fst f) (CHR ''/'') \<in> node_names"
  "distinct (map (\<lambda>f. Split (fst f) (CHR ''/'')) (node_files opts identity client))"
  by (auto simp: node_files_def init_files_def content_index node_names_def split: prod.splits option.splits if_splits)

lemma node_files_paths:
  assumes "\<forall>q\<in>set ps. path_elem q"
  shows "distinct (map (\<lambda>f. Join [rooted ps, fst f]) (node_files opts identity client))"
proof -
  let ?fs = "node_files opts identity client"
  let ?names = "map (\<lambda>f. Split (fst f) (CHR ''/'')) ?fs"
  have "map (\<lambda>f. Join [rooted ps, fst f]) ?fs = map (\<lambda>qs. rooted (ps @ qs)) ?names"
    using node_path [OF assms] node_files_names(1) by simp
  moreover have "inj_on (\<lambda>qs. rooted (ps @ qs)) node_names"
  proof (rule inj_onI)
    fix a b assume "a \<in> node_names" "b \<in> node_names" and e: "rooted (ps @ a) = rooted (ps @ b)"
    then have "\<forall>q\<in>set a. path_elem q" "\<forall>q\<in>set b. path_elem q" using node_path_elems by blast+
    then have "ps @ a = ps @ b" using assms by (intro rooted_inject [OF _ _ e]) (simp_all add: ball_Un)
    then show "a = b" by simp
  qed
  then have "inj_on (\<lambda>qs. rooted (ps @ qs)) (set ?names)"
    by (rule inj_on_subset) (use node_files_names(1) [of _ opts identity client] in \<open>simp add: image_subset_iff\<close>)
  ultimately show ?thesis using node_files_names(2) [of opts identity client] by (simp only: distinct_map [of "\<lambda>qs. rooted (ps @ qs)"])
qed

lemma outside:
  assumes "\<forall>n. n \<noteq> rooted (ps @ qs) \<longrightarrow> f n = g n" "qs \<noteq> []"
  shows "\<forall>n. \<not> within (rooted ps) n \<longrightarrow> f n = g n"
proof (intro allI impI)
  fix n assume "\<not> within (rooted ps) n"
  then have "n \<noteq> rooted (ps @ qs)" using within_child [OF assms(2), of ps] by blast
  then show "f n = g n" using assms(1) by simp
qed

lemma content_step:
  assumes "(if io_upstream opts = [] then os_Mkdir (Join [rooted ps, ''content'']) else done_with (Inr ())) d = (r, d')"
    "undisturbed d" "\<forall>q\<in>set ps. path_elem q"
  shows "undisturbed d'" "\<forall>n. n \<noteq> rooted (ps @ [''content'']) \<longrightarrow> dk_names d' n = dk_names d n"
    "\<forall>n. \<not> within (rooted ps) n \<longrightarrow> dk_names d' n = dk_names d n"
proof -
  have j: "Join [rooted ps, ''content''] = rooted (ps @ [''content''])" using node_path [OF assms(3), of "''content''"] by simp
  have "undisturbed d' \<and> (\<forall>n. n \<noteq> rooted (ps @ [''content'']) \<longrightarrow> dk_names d' n = dk_names d n)"
  proof (cases "io_upstream opts = []")
    case True
    then show ?thesis using assms(1) os_Mkdir_names [OF _ assms(2)] unfolding j by simp
  qed (use assms(1,2) in \<open>simp add: done_with_def\<close>)
  then show "undisturbed d'" and n: "\<forall>n. n \<noteq> rooted (ps @ [''content'']) \<longrightarrow> dk_names d' n = dk_names d n" by simp_all
  from n show "\<forall>n. \<not> within (rooted ps) n \<longrightarrow> dk_names d' n = dk_names d n" by (rule outside) simp
qed

text \<open>Nothing exists below the directory.\<close>

definition vacant :: "string list \<Rightarrow> disk \<Rightarrow> bool" where
  "vacant ps d \<longleftrightarrow> (\<forall>qs. qs \<noteq> [] \<and> (\<forall>q\<in>set qs. path_elem q) \<longrightarrow> dk_names d (rooted (ps @ qs)) = None)"

lemma node_file_path:
  assumes "\<forall>q\<in>set ps. path_elem q" "f \<in> set (node_files opts identity client)"
  obtains qs where "qs \<in> node_names" "Join [rooted ps, fst f] = rooted (ps @ qs)"
  using node_path [OF assms(1)] node_files_names(1) [OF assms(2)] that by blast

lemma node_files_free:
  assumes "\<forall>q\<in>set ps. path_elem q" "vacant ps d" "\<forall>n. n \<noteq> rooted (ps @ [''content'']) \<longrightarrow> dk_names d1 n = dk_names d n"
  shows "\<forall>f\<in>set (node_files opts identity client). dk_names d1 (Join [rooted ps, fst f]) = None"
proof
  fix f assume "f \<in> set (node_files opts identity client)"
  then obtain qs where q: "qs \<in> node_names" "Join [rooted ps, fst f] = rooted (ps @ qs)" by (rule node_file_path [OF assms(1)])
  have "rooted (ps @ qs) \<noteq> rooted (ps @ [''content''])"
  proof
    assume e: "rooted (ps @ qs) = rooted (ps @ [''content''])"
    have "ps @ qs = ps @ [''content'']"
      by (rule rooted_inject [OF _ _ e]) (use assms(1) node_path_elems [of qs] q(1) in \<open>auto simp: path_elem_def\<close>)
    then show False using q(1) by (simp add: node_names_def)
  qed
  then show "dk_names d1 (Join [rooted ps, fst f]) = None"
    unfolding q(2) using assms(2,3) node_path_elems [of qs] q(1) by (simp add: vacant_def)
qed

lemma populate_names:
  assumes "populate_node k iss2 now opts (rooted ps) identity d = (r, d')" "undisturbed d" "\<forall>q\<in>set ps. path_elem q" "vacant ps d"
  shows "undisturbed d' \<and> (\<forall>n. \<not> within (rooted ps) n \<longrightarrow> dk_names d' n = dk_names d n) \<and>
     (is_ok r \<longrightarrow> (\<exists>client. first_client k iss2 now opts = Inr client \<and>
        (\<forall>f\<in>set (node_files opts identity client). \<exists>i. dk_names d' (Join [rooted ps, fst f]) = Some (Regular_file i (snd f))) \<and>
        (\<forall>n. n \<noteq> rooted (ps @ [''content'']) \<and> n \<notin> (\<lambda>f. Join [rooted ps, fst f]) ` set (node_files opts identity client) \<longrightarrow>
           dk_names d' n = dk_names d n)))"
  using assms(1) unfolding populate_node_files
proof (cases rule: bind_cases)
  case (failed e)
  then show ?thesis
    using content_step [OF failed(1) assms(2,3)] by (simp add: is_ok_def)
next
  case (ran u d1)
  note d1 = content_step [OF ran(1) assms(2,3)]
  show ?thesis
  proof (cases "first_client k iss2 now opts")
    case (Inl e)
    then have "r = Inl e" "d' = d1" using ran(2) by (simp_all add: done_with_def)
    then show ?thesis using d1 by (simp add: is_ok_def)
  next
    case (Inr client)
    let ?fs = "node_files opts identity client"
    have run: "write_files (rooted ps) ?fs d1 = (r, d')" using ran(2) Inr by simp
    note w = write_files_names [OF run d1(1) node_files_paths [OF assms(3)] node_files_free [OF assms(3,4) d1(2)]]
    have "dk_names d' n = dk_names d n" if n: "\<not> within (rooted ps) n" for n
    proof -
      have "n \<noteq> Join [rooted ps, fst f]" if "f \<in> set ?fs" for f
        using that by (rule node_file_path [OF assms(3)])
          (use n within_child [of _ ps] node_path_elems in \<open>auto simp: node_names_def\<close>)
      then have "n \<notin> (\<lambda>f. Join [rooted ps, fst f]) ` set ?fs" by blast
      then show ?thesis using w d1(3) n by simp
    qed
    moreover have "\<forall>n. n \<noteq> rooted (ps @ [''content'']) \<and> n \<notin> (\<lambda>f. Join [rooted ps, fst f]) ` set ?fs \<longrightarrow> dk_names d' n = dk_names d n"
      using w d1(2) by simp
    ultimately show ?thesis using w Inr by blast
  qed
qed

lemma createPrivateDirectory_names:
  assumes "createPrivateDirectory p d = (r, d')" "undisturbed d"
  shows "\<forall>n. n \<noteq> p \<longrightarrow> dk_names d' n = dk_names d n"
    "is_ok r \<Longrightarrow> dk_names d p = None \<and> undisturbed d'" "dk_names d p \<noteq> None \<Longrightarrow> dk_names d' = dk_names d"
proof -
  obtain x d1 where m: "os_Mkdir p d = (x, d1)" by fastforce
  note d1 = os_Mkdir_names [OF m assms(2)]
  obtain y d2 where y: "os_Sync d1 = (y, d2)" by fastforce
  have d2: "dk_names d2 = dk_names d1" "undisturbed d2" using looked [where m = os_Sync, OF y] d1 by simp_all
  have rm: "\<forall>n. n \<noteq> p \<longrightarrow> dk_names (snd (os_Remove p d2)) n = dk_names d2 n"
    using os_Remove_names [OF surjective_pairing d2(2), of p] by auto
  consider (no) e where "x = Inl e" "\<not> is_ok r" "d' = d1"
    | (unprotected) "x = Inr ()" "\<not> is_ok r" "d' = snd (os_Remove p d2)" | (made) "x = Inr ()" "d' = d2"
    using assms(1) m y by (auto simp: createPrivateDirectory_def is_ok_def split: sum.splits)
  then show "\<forall>n. n \<noteq> p \<longrightarrow> dk_names d' n = dk_names d n"
    "is_ok r \<Longrightarrow> dk_names d p = None \<and> undisturbed d'" "dk_names d p \<noteq> None \<Longrightarrow> dk_names d' = dk_names d"
    by (cases; use d1 d2 rm in \<open>auto simp: is_ok_def\<close>)+
qed

text \<open>A directory that does not exist has nothing below it.\<close>

definition consistent :: "string \<Rightarrow> disk \<Rightarrow> bool" where
  "consistent dir d \<longleftrightarrow> (dk_names d dir = None \<longrightarrow> (\<forall>n. within dir n \<longrightarrow> dk_names d n = None))"

lemma vacant_after:
  assumes "\<forall>q\<in>set ps. path_elem q" "consistent (rooted ps) d" "dk_names d (rooted ps) = None"
    "\<forall>n. n \<noteq> rooted ps \<longrightarrow> dk_names d1 n = dk_names d n"
  shows "vacant ps d1"
  unfolding vacant_def
proof (intro allI impI)
  fix qs assume q: "qs \<noteq> [] \<and> (\<forall>q\<in>set qs. path_elem q)"
  have "rooted (ps @ qs) \<noteq> rooted ps"
  proof
    assume e: "rooted (ps @ qs) = rooted ps"
    have "ps @ qs = ps" by (rule rooted_inject [OF _ assms(1) e]) (use assms(1) q in \<open>simp add: ball_Un\<close>)
    then show False using q by simp
  qed
  moreover have "dk_names d (rooted (ps @ qs)) = None"
    using assms(2,3) within_child [of qs ps] q unfolding consistent_def by simp
  ultimately show "dk_names d1 (rooted (ps @ qs)) = None" using assms(4) by simp
qed

lemma create_node_cases:
  assumes "create_node k iss iss2 now parse cwd opts d = (r, d')" "undisturbed d" "IsAbs cwd" "consistent (Abs cwd (io_dir opts)) d"
  obtains (failed) e where "r = Inl e" "\<forall>n. \<not> within (Abs cwd (io_dir opts)) n \<longrightarrow> dk_names d' n = dk_names d n"
      "dk_names d (Abs cwd (io_dir opts)) \<noteq> None \<Longrightarrow> dk_names d' = dk_names d"
    | (made) cert key pin client where "check_init parse opts = Inr ()"
      "GenerateIdentity k iss now (io_authority opts) year = Inr (cert, key, pin)"
      "ValidateEndpoint (init_endpoint opts pin) = Inr ()" "first_client k iss2 now opts = Inr client"
      "r = Inr (Abs cwd (io_dir opts), pin)" "dk_names d (Abs cwd (io_dir opts)) = None"
      "\<forall>n. \<not> within (Abs cwd (io_dir opts)) n \<longrightarrow> dk_names d' n = dk_names d n"
      "\<forall>f\<in>set (node_files opts (cert, key, pin) client). \<exists>i.
         dk_names d' (Join [Abs cwd (io_dir opts), fst f]) = Some (Regular_file i (snd f))"
      "\<forall>n. n \<noteq> Abs cwd (io_dir opts) \<and> n \<noteq> Join [Abs cwd (io_dir opts), ''content''] \<and>
         n \<notin> (\<lambda>f. Join [Abs cwd (io_dir opts), fst f]) ` set (node_files opts (cert, key, pin) client) \<longrightarrow> dk_names d' n = dk_names d n"
proof -
  obtain ps where ps: "Abs cwd (io_dir opts) = rooted ps" "\<forall>q\<in>set ps. path_elem q" using Abs_rooted [OF assms(3)] .
  have self: "within (rooted ps) (rooted ps)" by (simp add: within_def)
  consider (early) e where "r = Inl e" "d' = d"
    | (go) cert key pin where "check_init parse opts = Inr ()" "GenerateIdentity k iss now (io_authority opts) year = Inr (cert, key, pin)"
        "ValidateEndpoint (init_endpoint opts pin) = Inr ()"
        "bind (createPrivateDirectory (rooted ps)) (\<lambda>_.
           bind (all_or_nothing (rooted ps) (populate_node k iss2 now opts (rooted ps) (cert, key, pin))) (\<lambda>_.
           done_with (Inr (rooted ps, pin)))) d = (r, d')"
    using assms(1) unfolding create_node_def ps(1) Let_def by (auto simp: done_with_def split: sum.splits)
  then show thesis
  proof cases
    case early
    then show thesis by (intro that(1)) auto
  next
    case (go cert key pin)
    from go(4) show thesis
    proof (cases rule: bind_cases)
      case (failed e)
      note c = createPrivateDirectory_names [OF failed(1) assms(2)]
      have "\<forall>n. \<not> within (rooted ps) n \<longrightarrow> dk_names d' n = dk_names d n" using c(1) self by metis
      then show thesis using that(1) failed(2) c(3) ps(1) by simp
    next
      case (ran u d1)
      note c = createPrivateDirectory_names [OF ran(1) assms(2)]
      have new: "dk_names d (rooted ps) = None" "undisturbed d1" using c(2) by (simp_all add: is_ok_def)
      have outer: "\<forall>n. \<not> within (rooted ps) n \<longrightarrow> dk_names d1 n = dk_names d n" using c(1) self by metis
      note empty = vacant_after [OF ps(2) assms(4) [unfolded ps(1)] new(1) c(1)]
      obtain x d2 where x: "populate_node k iss2 now opts (rooted ps) (cert, key, pin) d1 = (x, d2)" by fastforce
      note p = populate_names [OF x new(2) ps(2) empty]
      show thesis
      proof (cases x)
        case (Inl e)
        have y: "d' = snd (os_RemoveAll (rooted ps) d2)" "r = Inl e"
          using ran(2) x Inl by (auto simp: bind_def all_or_nothing_def done_with_def)
        have "\<forall>n. \<not> within (rooted ps) n \<longrightarrow> dk_names d' n = dk_names d2 n"
          unfolding y(1) using p by (intro os_RemoveAll_names [OF surjective_pairing]) blast
        then have "\<forall>n. \<not> within (rooted ps) n \<longrightarrow> dk_names d' n = dk_names d n" using p outer by simp
        then show thesis using that(1) y(2) new(1) ps(1) by simp
      next
        case (Inr v)
        have y: "r = Inr (rooted ps, pin)" "d' = d2"
          using ran(2) x Inr by (auto simp: bind_def all_or_nothing_def done_with_def)
        obtain client where client: "first_client k iss2 now opts = Inr client"
          "\<forall>f\<in>set (node_files opts (cert, key, pin) client). \<exists>i. dk_names d2 (Join [rooted ps, fst f]) = Some (Regular_file i (snd f))"
          "\<forall>n. n \<noteq> rooted (ps @ [''content'']) \<and> n \<notin> (\<lambda>f. Join [rooted ps, fst f]) ` set (node_files opts (cert, key, pin) client) \<longrightarrow>
             dk_names d2 n = dk_names d1 n"
          using p Inr by (auto simp: is_ok_def)
        have j: "Join [rooted ps, ''content''] = rooted (ps @ [''content''])" using node_path [OF ps(2), of "''content''"] by simp
        have rest: "\<forall>n. n \<noteq> rooted ps \<and> n \<noteq> Join [rooted ps, ''content''] \<and>
            n \<notin> (\<lambda>f. Join [rooted ps, fst f]) ` set (node_files opts (cert, key, pin) client) \<longrightarrow> dk_names d' n = dk_names d n"
          using client(3) c(1) unfolding j y(2) by simp
        have outer': "\<forall>n. \<not> within (rooted ps) n \<longrightarrow> dk_names d' n = dk_names d n" using p outer y(2) by simp
        show thesis
          by (rule that(2) [OF go(1-3) client(1)]) (use y new(1) client(2) rest outer' ps(1) in simp_all)
      qed
    qed
  qed
qed

end
