(* ===== verification/NewNode.thy ===== *)
theory NewNode
  imports Identity
begin

text \<open>
  What \<open>deep init\<close> leaves behind: nothing when it fails, and otherwise a node whose configuration
  \<open>deep serve\<close> accepts, a client configuration that resolves the node, and identities that pass
  the checks of \<open>Security\<close>.
\<close>

subsection \<open>The directory of a file\<close>

lemma Dir_rooted:
  assumes "\<forall>q\<in>set ps. path_elem q" "path_elem n"
  shows "Dir (rooted (ps @ [n])) = rooted ps"
proof -
  define X where "X = (if ps = [] then [] else rooted ps)"
  have p: "rooted (ps @ [n]) = X @ CHR ''/'' # n" by (cases "ps = []") (simp_all add: X_def join_append)
  have "dropWhile (\<lambda>c. c \<noteq> CHR ''/'') (rev n @ CHR ''/'' # rev X) = CHR ''/'' # rev X"
    using assms(2) by (subst dropWhile_append2) (auto simp: path_elem_def)
  then have l: "LastSlash (rooted (ps @ [n])) = Suc (length X)" unfolding p by (simp add: LastSlash_def)
  have t: "take (LastSlash (rooted (ps @ [n]))) (rooted (ps @ [n])) = X @ ''/''" unfolding l unfolding p by simp
  have e: "\<exists>e. (\<forall>x\<in>set e. x = []) \<and> Split (X @ ''/'') (CHR ''/'') = [] # ps @ e"
  proof (cases "ps = []")
    case False
    have "join (CHR ''/'') ps @ CHR ''/'' # [] = join (CHR ''/'') (ps @ [[]])" using False by (simp add: join_append)
    moreover have "Split (join (CHR ''/'') (ps @ [[]])) (CHR ''/'') = ps @ [[]]"
      using assms(1) by (intro Split_join) (auto simp: path_elem_def)
    ultimately show ?thesis using False by (auto simp: X_def)
  qed (simp add: X_def)
  then obtain e where e: "\<forall>x\<in>set e. x = []" "Split (X @ ''/'') (CHR ''/'') = [] # ps @ e" by blast
  have a: "IsAbs (X @ ''/'')" by (simp add: X_def IsAbs_def HasPrefix_def)
  have "clean_parts True (ps @ e) acc = rev acc @ ps" for acc
    using assms(1)
  proof (induction ps arbitrary: acc)
    case Nil
    then show ?case using e(1) by (induction e) auto
  qed (auto simp: path_elem_def)
  then have "path_parts (X @ ''/'') = ps" using a by (simp add: path_parts_def e(2))
  then show ?thesis using a by (simp add: Dir_def t Clean_def)
qed

subsection \<open>The server configuration\<close>

lemma authority_text:
  assumes "ValidateAuthority a = Inr ()"
  shows "length a \<le> 127" "list_all (\<lambda>c. ord c < 128) a" "CHR ''.'' \<notin> set (network_part a)"
    "\<exists>node. a = node @ CHR ''.'' # network_part a" "validLabel (network_part a)"
proof -
  from assms obtain node network where a: "a = node @ CHR ''.'' # network" "label_chars True node" "label_chars False network"
    using ValidateAuthority_ok [of a] by (auto simp: is_ok_def)
  have "Split a (CHR ''.'') = [node, network]"
    unfolding Split_eq_2_iff using a label_chars_no_dot by blast
  then have n: "network_part a = network" by (simp add: network_part_def)
  show "length a \<le> 127" using a by (auto simp: label_chars_def)
  show "list_all (\<lambda>c. ord c < 128) a" using a by (auto simp: label_chars_def list_all_iff isLowerAlnum_def)
  show "CHR ''.'' \<notin> set (network_part a)" "\<exists>node. a = node @ CHR ''.'' # network_part a" "validLabel (network_part a)"
    unfolding n using a label_chars_no_dot [OF a(3)] by (auto simp: validLabel_iff)
qed

lemma hex_text: "list_all (\<lambda>c. ord c < 128) (EncodeToString bs)"
proof -
  have "ord (hex_digit n) < 128" if "n < 16" for n
    using that by (auto simp: hex_digit_def)
  moreover have "ord c div 16 < 16" for c :: char using ord_lt_256 [of c] by (simp add: less_mult_imp_div_less del: ord_lt_256)
  ultimately show ?thesis by (auto simp: EncodeToString_def list_all_iff)
qed

text \<open>The members of the new server configuration, whose limits are all left to their defaults.\<close>

lemma init_server_members:
  "serverConfig_members (init_server opts clientPin) =
     [(''version'', JNumber (Itoa 2)), (''authority'', JString (io_authority opts)), (''listen'', JString (io_address opts))] @
     (if io_upstream opts = [] then [(''root'', JString ''content'')] else [(''upstream'', JString (io_upstream opts))]) @
     [(''certificate'', JString ''identity.crt''), (''private_key'', JString ''identity.key'')] @
     (case clientPin of None \<Rightarrow> [(''access_mode'', JString ''public'')]
      | Some pin \<Rightarrow> [(''access_mode'', JString ''private''), (''allowed_client_pins'', JArray [JString pin])])"
  by (simp add: serverConfig_members_def init_server_def serverConfig_zero_def omitempty_def omit_int_def omit_strings_def
      split: option.split)

lemma init_server_decodes:
  assumes "list_all (\<lambda>c. ord c < 128) (io_authority opts)" "list_all (\<lambda>c. ord c < 128) (io_address opts)" "utf8_valid (io_upstream opts)"
    "length (io_authority opts) \<le> 127" "length (io_address opts) \<le> 1024" "length (io_upstream opts) \<le> 4096"
    "\<forall>pin. clientPin = Some pin \<longrightarrow> list_all (\<lambda>c. ord c < 128) pin \<and> length pin \<le> 64"
  shows "DecodeConfigJSON serverConfig_shape serverConfig_table serverConfig_zero
      (json_file (JObject (serverConfig_members (init_server opts clientPin)))) = Inr (init_server opts clientPin)"
    "length (json_file (JObject (serverConfig_members (init_server opts clientPin)))) \<le> 65536"
proof -
  let ?ms = "serverConfig_members (init_server opts clientPin)"
  have two: "length (Itoa 2) \<le> 20" by (rule Itoa_length) (simp add: int64_ok_def)
  have e: "length (escape_body (io_authority opts)) \<le> 762" "length (escape_body (io_address opts)) \<le> 6144"
    "length (escape_body (io_upstream opts)) \<le> 24576"
    using assms(4-6) escape_body_length [of "io_authority opts"] escape_body_length [of "io_address opts"]
      escape_body_length [of "io_upstream opts"] by linarith+
  have pin: "length (escape_body pin) \<le> 384" if "clientPin = Some pin" for pin
    using that assms(7) escape_body_length [of pin] by fastforce
  show l: "length (json_file (JObject ?ms)) \<le> 65536"
    unfolding init_server_members using e two pin
    by (cases clientPin) (simp_all add: json_file_def MarshalIndent_def json_indent_Object json_indent_Array nl_def next_item_def
        json_quote_def escape_body_plain)
  show "DecodeConfigJSON serverConfig_shape serverConfig_table serverConfig_zero (json_file (JObject ?ms)) = Inr (init_server opts clientPin)"
  proof (rule DecodeConfigJSON_file)
    show "length (json_file (JObject ?ms)) \<le> 1024 * 1024" using l by simp
    show "config_tree (JObject ?ms) 0"
      unfolding init_server_members by (cases clientPin) (simp_all add: config_tree_Object config_tree_Array)
    show "jwf (JObject ?ms)"
      unfolding init_server_members using assms(1-3,7) by (cases clientPin) auto
    show "conforms (JObject ?ms) serverConfig_shape"
      unfolding init_server_members by (cases clientPin) (auto simp: serverConfig_shape_def conforms_kinds)
    show "decode_members serverConfig_table ?ms serverConfig_zero = Some (init_server opts clientPin)"
      unfolding init_server_members
      by (cases clientPin) (simp_all add: serverConfig_table_def find_field_exact set_string_def set_slice_def decode_string_def
          int64_ok_def serverConfig_zero_def init_server_def)
  qed
qed

text \<open>What reading a file of a disk gives.\<close>

definition contents :: "disk \<Rightarrow> string \<Rightarrow> bytes res" where
  "contents d p = (case dk_names d p of Some (Regular_file i c) \<Rightarrow> Inr c | _ \<Rightarrow> Inl NotExist)"

lemma check_init_parts:
  assumes "check_init parse opts = Inr ()"
  shows "ValidateAuthority (io_authority opts) = Inr ()" "is_ok (SplitHostPort (io_address opts))" "io_address opts \<noteq> []"
    "io_upstream opts \<noteq> [] \<Longrightarrow> ValidateHTTPUpstream parse (io_upstream opts) = Inr ()"
proof -
  show "ValidateAuthority (io_authority opts) = Inr ()" and s: "is_ok (SplitHostPort (io_address opts))"
    and "io_upstream opts \<noteq> [] \<Longrightarrow> ValidateHTTPUpstream parse (io_upstream opts) = Inr ()"
    using assms by (auto simp: check_init_def is_ok_def split: if_splits sum.splits option.splits prod.splits)
  have "\<not> is_ok (SplitHostPort [])" by code_simp
  then show "io_address opts \<noteq> []" using s by auto
qed

lemma init_server_accepted:
  assumes "check_init parse opts = Inr ()"
  shows "check_server parse (init_server opts clientPin) = Inr ()"
    "\<exists>c. default_limits (init_server opts clientPin) = Inr c \<and> sc_Authority c = io_authority opts \<and> sc_Listen c = io_address opts \<and>
       sc_Root c = (if io_upstream opts = [] then ''content'' else []) \<and> sc_Certificate c = ''identity.crt'' \<and>
       sc_PrivateKey c = ''identity.key'' \<and> sc_Upstream c = io_upstream opts \<and>
       sc_AccessMode c = (if clientPin = None then ''public'' else ''private'') \<and>
       sc_AllowedClientPins c = map_option (\<lambda>pin. [pin]) clientPin \<and> sc_MaxBytes c = 2 ^ 30"
proof -
  obtain hp where "SplitHostPort (io_address opts) = Inr hp"
    using check_init_parts(2) [OF assms] by (auto simp: is_ok_def split: sum.splits)
  then show "check_server parse (init_server opts clientPin) = Inr ()"
    using check_init_parts [OF assms]
    by (cases clientPin) (auto simp: check_server_def init_server_def serverConfig_zero_def pins_of_def limit_items_def MaxClientPins_def)
  show "\<exists>c. default_limits (init_server opts clientPin) = Inr c \<and> sc_Authority c = io_authority opts \<and> sc_Listen c = io_address opts \<and>
       sc_Root c = (if io_upstream opts = [] then ''content'' else []) \<and> sc_Certificate c = ''identity.crt'' \<and>
       sc_PrivateKey c = ''identity.key'' \<and> sc_Upstream c = io_upstream opts \<and>
       sc_AccessMode c = (if clientPin = None then ''public'' else ''private'') \<and>
       sc_AllowedClientPins c = map_option (\<lambda>pin. [pin]) clientPin \<and> sc_MaxBytes c = 2 ^ 30"
    by (simp add: default_limits_def init_server_def serverConfig_zero_def Let_def)
qed

lemma made_contents:
  assumes "\<forall>f\<in>set fs. \<exists>i. dk_names d (Join [dir, fst f]) = Some (Regular_file i (snd f))" "(name, data) \<in> set fs"
  shows "contents d (Join [dir, name]) = Inr data"
  using assms by (fastforce simp: contents_def)

lemma first_client_pin:
  assumes "first_client k iss2 now opts = Inr client" "\<forall>x. length (k_Sum256 k x) = 32"
  shows "\<forall>pin. map_option (\<lambda>(_, _, p). p) client = Some pin \<longrightarrow> list_all (\<lambda>c. ord c < 128) pin \<and> length pin \<le> 64"
    "client = None \<longleftrightarrow> io_public opts"
  using assms hex_text
  by (auto simp: first_client_def GenerateClientIdentity_def generateIdentity_def map_sum_def split: if_splits sum.splits)

lemma beside_rooted:
  assumes "\<forall>q\<in>set ps. path_elem q"
  shows "beside (Dir (Join [rooted ps, ''server.json''])) ''identity.crt'' = Join [rooted ps, ''identity.crt'']"
    "beside (Dir (Join [rooted ps, ''server.json''])) ''identity.key'' = Join [rooted ps, ''identity.key'']"
    "beside (Dir (Join [rooted ps, ''server.json''])) ''content'' = Join [rooted ps, ''content'']"
proof -
  have "Join [rooted ps, ''server.json''] = rooted (ps @ [''server.json''])"
    using node_path [OF assms, of "''server.json''"] by (simp add: node_names_def)
  then have "Dir (Join [rooted ps, ''server.json'']) = rooted ps"
    using Dir_rooted [OF assms, of "''server.json''"] by (simp add: path_elem_def)
  then show "beside (Dir (Join [rooted ps, ''server.json''])) ''identity.crt'' = Join [rooted ps, ''identity.crt'']"
    "beside (Dir (Join [rooted ps, ''server.json''])) ''identity.key'' = Join [rooted ps, ''identity.key'']"
    "beside (Dir (Join [rooted ps, ''server.json''])) ''content'' = Join [rooted ps, ''content'']"
    by (simp_all add: beside_def IsAbs_def HasPrefix_def)
qed

subsection \<open>The client configuration\<close>

text \<open>The keys in the order in which a Go map is printed.\<close>

lemma key_order:
  "\<not> ''version'' \<le> ''networks''" "''networks'' \<le> ''version''" "''client_identity'' \<le> ''networks''" "''client_identity'' \<le> ''version''"
  "\<not> ''networks'' \<le> ''client_identity''" "\<not> ''version'' \<le> ''client_identity''" "\<not> ''private_key'' \<le> ''certificate''" "''certificate'' \<le> ''private_key''"
  "\<not> ''endpoints'' \<le> ''adapter''" "''adapter'' \<le> ''endpoints''" "\<not> ''pin_sha256'' \<le> ''address''" "''address'' \<le> ''pin_sha256''"
  "\<not> ''transport'' \<le> ''address''" "''address'' \<le> ''transport''" "\<not> ''transport'' \<le> ''pin_sha256''" "''pin_sha256'' \<le> ''transport''"
  by code_simp+

lemma init_client_tree:
  "init_client opts pin public = JObject (
     (if public then [] else [(''client_identity'', JObject
        [(''certificate'', JString ''client.crt''), (''private_key'', JString ''client.key'')])]) @
     [(''networks'', JObject [(network_part (io_authority opts), JObject [(''adapter'', JString ''static''),
         (''endpoints'', JObject [(io_authority opts, JObject (endpoint_members (init_endpoint opts pin)))])])]),
      (''version'', JNumber (Itoa 2))])"
proof -
  have "json_any (JObject (endpoint_members (init_endpoint opts pin))) = JObject (endpoint_members (init_endpoint opts pin))"
    by (simp add: endpoint_members_def init_endpoint_def omitempty_def sort_key_def key_order)
  then show ?thesis
    by (simp add: init_client_def sort_key_def key_order del: json_any.simps(6)) (simp add: sort_key_def key_order)
qed

definition client_network :: "initOptions \<Rightarrow> string \<Rightarrow> networkFile" where
  "client_network opts pin =
     \<lparr>nf_Adapter = ''static'', nf_Endpoints = Some [(io_authority opts, init_endpoint opts pin)], nf_Command = None\<rparr>"

definition client_registry :: "initOptions \<Rightarrow> string \<Rightarrow> bool \<Rightarrow> registryFile" where
  "client_registry opts pin public =
     \<lparr>rf_Version = 2, rf_Networks = Some [(network_part (io_authority opts), client_network opts pin)], rf_Proxy = None,
      rf_ClientIdentity = (if public then None else Some \<lparr>ci_Certificate = ''client.crt'', ci_PrivateKey = ''client.key''\<rparr>)\<rparr>"

lemma network_part_text:
  assumes "ValidateAuthority a = Inr ()"
  shows "utf8_valid (network_part a)" "length (network_part a) \<le> 127"
proof -
  obtain node where a: "a = node @ CHR ''.'' # network_part a" using authority_text(4) [OF assms] by blast
  have "list_all (\<lambda>c. ord c < 128) (network_part a)" using authority_text(2) [OF assms] by (subst (asm) a) simp
  then show "utf8_valid (network_part a)" by simp
  have "length a = length node + Suc (length (network_part a))" by (subst a) simp
  then show "length (network_part a) \<le> 127" using authority_text(1) [OF assms] by simp
qed

lemma init_client_decodes:
  assumes "ValidateAuthority (io_authority opts) = Inr ()" "ValidateEndpoint (init_endpoint opts pin) = Inr ()"
  shows "DecodeConfigJSON registryFile_shape registryFile_table registryFile_zero (json_file (init_client opts pin public)) =
      Inr (client_registry opts pin public)" "length (json_file (init_client opts pin public)) \<le> 1024 * 1024"
proof -
  let ?e = "init_endpoint opts pin"
  note g = ValidateEndpoint_ascii [OF assms(2)]
  note a = authority_text [OF assms(1)]
  note n = network_part_text [OF assms(1)]
  have esc: "length (escape_body (io_authority opts)) \<le> 762" "length (escape_body (network_part (io_authority opts))) \<le> 762"
    "length (escape_body (ep_Address ?e)) \<le> 6144" "length (escape_body (ep_PinSHA256 ?e)) \<le> 384" "length (Itoa 2) \<le> 20"
    using a(1) n(2) g escape_body_length [of "io_authority opts"] escape_body_length [of "network_part (io_authority opts)"]
      escape_body_length [of "ep_Address ?e"] escape_body_length [of "ep_PinSHA256 ?e"] Itoa_length [of 2]
    by (auto simp: int64_ok_def)
  show l: "length (json_file (init_client opts pin public)) \<le> 1024 * 1024"
    using esc by (simp add: init_client_tree endpoint_members_def init_endpoint_def omitempty_def json_file_def MarshalIndent_def
        json_indent_Object nl_def next_item_def json_quote_def escape_body_plain)
  have e: "decode_struct endpoint_table (JObject (endpoint_members ?e)) no_endpoint = Some ?e"
    by (simp add: decode_struct_def endpoint.decode [OF g(4)])
  have net: "decode_struct network_table (JObject [(''adapter'', JString ''static''),
      (''endpoints'', JObject [(io_authority opts, JObject (endpoint_members ?e))])]) network_zero = Some (client_network opts pin)"
    by (subst decode_struct_def)
      (simp add: network_table_def find_field_exact set_string_def set_map_def e network_zero_def client_network_def)
  have id: "decode_struct clientIdentity_table (JObject [(''certificate'', JString ''client.crt''), (''private_key'', JString ''client.key'')])
      \<lparr>ci_Certificate = [], ci_PrivateKey = []\<rparr> = Some \<lparr>ci_Certificate = ''client.crt'', ci_PrivateKey = ''client.key''\<rparr>"
    by (simp add: decode_struct_def clientIdentity_table_def find_field_exact set_string_def)
  show "DecodeConfigJSON registryFile_shape registryFile_table registryFile_zero (json_file (init_client opts pin public)) =
      Inr (client_registry opts pin public)"
    unfolding init_client_tree
  proof (rule DecodeConfigJSON_file [OF _ _ _ _ l [unfolded init_client_tree]], goal_cases)
    case 1
    show ?case by (auto simp: config_tree_Object endpoint_members_def omitempty_def)
  next
    case 2
    show ?case using endpoint.wf [OF g(4)] a(2) n(1) by auto
  next
    case 3
    show ?case using endpoint.shape [OF g(4)]
      by (auto simp: registryFile_shape_def network_shape_def clientIdentity_shape_def conforms_kinds conforms_simps(2))
  next
    case 4
    show ?case
      by (simp add: registryFile_table_def find_field_exact set_map_def set_ptr_def net id int64_ok_def registryFile_zero_def
          client_registry_def)
  qed
qed

lemma client_registry_resolves:
  assumes "ValidateAuthority (io_authority opts) = Inr ()" "ValidateEndpoint (init_endpoint opts pin) = Inr ()"
  obtains registry where "registryFromConfig run proxy (client_registry opts pin public) directory = Inr registry"
    "Resolve registry [] (io_authority opts) = (Inr (init_endpoint opts pin), [])"
proof -
  let ?n = "network_part (io_authority opts)" and ?a = "io_authority opts" and ?e = "init_endpoint opts pin"
  note a = authority_text [OF assms(1)]
  from a(4) have s: "HasSuffix ?a (CHR ''.'' # ?n)" by (auto simp: HasSuffix_iff)
  have c: "check_endpoints ?n [(?a, ?e)] = Inr ()" using s assms by (simp add: is_ok_def)
  then have ad: "network_adapter run directory ?n (client_network opts pin) = Inr (StaticAdapter_Resolve [?a \<mapsto> ?e])"
    by (simp add: network_adapter_def client_network_def fun_upd_def)
  define registry where "registry = NewRegistry\<lparr>rg_networks := (\<lambda>n. case map_of [(?n, client_network opts pin)] n of
      Some c \<Rightarrow> (case network_adapter run directory n c of Inr a \<Rightarrow> Some a | Inl e \<Rightarrow> None) | None \<Rightarrow> rg_networks NewRegistry n)\<rparr>"
  have "add_networks run directory [(?n, client_network opts pin)] NewRegistry = Inr registry"
    unfolding add_networks_iff registry_def using a(5) ad by (simp add: NewRegistry_def is_ok_def)
  then have r: "registryFromConfig run proxy (client_registry opts pin public) directory = Inr registry"
    by (simp add: registryFromConfig_def client_registry_def del: add_networks.simps)
  obtain node where "?a = node @ CHR ''.'' # ?n" using a(4) by blast
  then have n: "network_of ?a = ?n" using network_of_authority [OF a(3), of node] by simp
  have "adapter_for registry ?a = Some (StaticAdapter_Resolve [?a \<mapsto> ?e])"
    by (simp add: adapter_for_def n registry_def NewRegistry_def ad)
  then have "Resolve registry [] ?a = (Inr ?e, [])"
    using assms by (simp add: Resolve_def StaticAdapter_Resolve_def Err_def)
  with r show thesis by (rule that)
qed

subsection \<open>Identities\<close>

text \<open>
  What the standard library documents of \<open>mldsa.GenerateKey\<close>, \<open>x509.CreateCertificate\<close> and
  \<open>x509.ParseCertificate\<close>: the key is an ML-DSA-65 key; the certificate, signed by its own key,
  parses to the fields of the template, with times in whole seconds, and its signature verifies.
\<close>

definition issues :: "crypto \<Rightarrow> issuer \<Rightarrow> bool" where
  "issues k iss \<longleftrightarrow>
     (\<forall>pub priv. is_GenerateKey iss = Inr (pub, priv) \<longrightarrow> (\<exists>raw. pub = MLDSA 65 raw) \<and>
        (\<forall>t der. is_CreateCertificate iss t (pub, priv) = Inr der \<longrightarrow>
           (\<exists>c. k_ParseCertificate k der = Inr c \<and> x_PublicKey c = pub \<and> x_SignatureAlgorithm c = SigMLDSA65 \<and>
              x_RawIssuer c = x_RawSubject c \<and> k_CheckSignature k c = None \<and>
              x_BasicConstraintsValid c = tp_BasicConstraintsValid t \<and> \<not> x_IsCA c \<and> x_KeyUsage c = tp_KeyUsage t \<and>
              x_ExtKeyUsage c = tp_ExtKeyUsage t \<and> x_UnknownExtKeyUsage c = [] \<and> x_UnhandledCriticalExtensions c = [] \<and>
              x_DNSNames c = tp_DNSNames t \<and> x_IPAddresses c = [] \<and> x_EmailAddresses c = [] \<and> x_URIs c = [] \<and>
              tp_NotBefore t - Second < x_NotBefore c \<and> x_NotBefore c \<le> tp_NotBefore t \<and>
              tp_NotAfter t - Second < x_NotAfter c \<and> x_NotAfter c \<le> tp_NotAfter t)))"

text \<open>The key pair that \<open>tls.X509KeyPair\<close> makes of a certificate and its private key.\<close>

abbreviation key_pair :: "bytes \<Rightarrow> public_key \<Rightarrow> TLSCertificate" where
  "key_pair der pub \<equiv> \<lparr>tc_Certificate = [der], tc_Signer = Some pub, tc_SupportedSignatureAlgorithms = [], tc_Leaf = None\<rparr>"

lemma generated:
  assumes "generateIdentity k iss now authority validFor usage = Inr (cert, key, pin)" "issues k iss"
  obtains der pub c where "cert = EncodeToMemory ''CERTIFICATE'' der" "k_ParseCertificate k der = Inr c"
    "pin = EncodeToString (k_Sum256 k (x_RawSubjectPublicKeyInfo c))" "\<exists>priv. is_GenerateKey iss = Inr (pub, priv)"
    "\<And>t. now \<le> t \<Longrightarrow> t \<le> now + validFor - Second \<Longrightarrow> validateLocalIdentity k t (key_pair der pub) authority usage = Inr ()"
    "\<And>t other a. other \<noteq> usage \<Longrightarrow> \<not> is_ok (validateLocalIdentity k t (key_pair der pub) a other)"
    "IdentityPin k (key_pair der pub) = Inr pin" "x_DNSNames c = [authority]" "x_NotBefore c \<le> now" "now + validFor - Second < x_NotAfter c"
proof -
  from assms(1) obtain pub priv serial der keyDER c where g: "ValidateAuthority authority = Inr ()" "is_GenerateKey iss = Inr (pub, priv)"
    "is_CreateCertificate iss (identity_template serial now authority validFor usage) (pub, priv) = Inr der"
    "k_ParseCertificate k der = Inr c" "cert = EncodeToMemory ''CERTIFICATE'' der"
    "pin = EncodeToString (k_Sum256 k (x_RawSubjectPublicKeyInfo c))"
    by (auto simp: generateIdentity_def split: sum.splits if_splits)
  obtain raw where raw: "pub = MLDSA 65 raw" using assms(2) g(2) by (auto simp: issues_def)
  have c: "x_PublicKey c = pub" "x_SignatureAlgorithm c = SigMLDSA65"
    "x_RawIssuer c = x_RawSubject c" "k_CheckSignature k c = None" "x_BasicConstraintsValid c" "\<not> x_IsCA c"
    "x_KeyUsage c = KeyUsageDigitalSignature" "x_ExtKeyUsage c = [usage]" "x_UnknownExtKeyUsage c = []"
    "x_UnhandledCriticalExtensions c = []" "x_DNSNames c = [authority]" "x_IPAddresses c = []" "x_EmailAddresses c = []"
    "x_URIs c = []" "x_NotBefore c \<le> now - Minute" "now + validFor - Second < x_NotAfter c"
    using assms(2) g(2-4) unfolding issues_def by (fastforce simp: identity_template_def)+
  have k: "validateIdentityKey c = Inr ()" by (simp add: validateIdentityKey_def c(1) raw)
  show thesis
  proof (rule that [of der c pub])
    fix t assume "now \<le> t" "t \<le> now + validFor - Second"
    then have "x_NotBefore c \<le> t" "t < x_NotAfter c" using c(15,16) by (simp_all add: Minute_def Second_def)
    then show "validateLocalIdentity k t (key_pair der pub) authority usage = Inr ()"
      using c(1-14) k g raw by (simp add: validateLocalIdentity_def identityLeaf_def validateIdentity_def is_ok_def)
  next
    fix t other a assume "other \<noteq> usage"
    then show "\<not> is_ok (validateLocalIdentity k t (key_pair der pub) a other)"
      using c k g by (simp add: validateLocalIdentity_def identityLeaf_def validateIdentity_def is_ok_def)
  next
    show "IdentityPin k (key_pair der pub) = Inr pin"
      using k g by (simp add: IdentityPin_def identityLeaf_def)
  next
    show "x_NotBefore c \<le> now" using c(15) by (simp add: Minute_def Second_def)
  qed (use g c in auto)
qed

subsection \<open>Success\<close>

lemma write_files_quiet:
  assumes "dk_script d = []" "undisturbed d" "distinct (map (\<lambda>f. Join [dir, fst f]) fs)"
    "\<forall>f\<in>set fs. dk_names d (Join [dir, fst f]) = None"
  shows "\<exists>d'. write_files dir fs d = (Inr (), d')"
  using assms
proof (induction fs arbitrary: d)
  case Nil
  then show ?case by (simp add: done_with_def)
next
  case (Cons f fs)
  obtain name data where f: "f = (name, data)" by fastforce
  obtain d1 where d1: "os_WriteFile (Join [dir, name]) data d = (Inr (), d1)" "dk_script d1 = []"
    using os_WriteFile_quiet [OF Cons.prems(1), of "Join [dir, name]" data] Cons.prems(4) f by auto
  have w: "undisturbed d1" "\<forall>n. n \<noteq> Join [dir, name] \<longrightarrow> dk_names d1 n = dk_names d n"
    using os_WriteFile_new [OF d1(1) Cons.prems(2)] Cons.prems(4) f by auto
  have "dk_names d1 (Join [dir, fst g]) = None" if "g \<in> set fs" for g
  proof -
    have "Join [dir, fst g] \<noteq> Join [dir, name]" using distinct_other [OF Cons.prems(3) that] f by simp
    then show ?thesis using w(2) Cons.prems(4) that by simp
  qed
  then have "\<exists>d'. write_files dir fs d1 = (Inr (), d')" using Cons.IH [OF d1(2) w(1)] Cons.prems(3) by simp
  then show ?case using d1(1) f by (simp add: bind_def)
qed

lemma populate_quiet:
  assumes "dk_script d = []" "undisturbed d" "\<forall>q\<in>set ps. path_elem q" "vacant ps d" "first_client k iss2 now opts = Inr client"
  shows "\<exists>d'. populate_node k iss2 now opts (rooted ps) identity d = (Inr (), d')"
proof -
  have j: "Join [rooted ps, ''content''] = rooted (ps @ [''content''])" using node_path [OF assms(3), of "''content''"] by simp
  have free: "dk_names d (rooted (ps @ [''content''])) = None" using assms(4) by (simp add: vacant_def path_elem_def)
  obtain d1 where c: "(if io_upstream opts = [] then os_Mkdir (Join [rooted ps, ''content'']) else done_with (Inr ())) d = (Inr (), d1)"
    and q: "dk_script d1 = []"
    using assms(1) os_Mkdir_quiet [OF assms(1) free] by (cases "io_upstream opts = []") (auto simp: j done_with_def)
  note d1 = content_step [OF c assms(2,3)]
  have "\<exists>d'. write_files (rooted ps) (node_files opts identity client) d1 = (Inr (), d')"
    by (rule write_files_quiet [OF q d1(1) node_files_paths [OF assms(3)] node_files_free [OF assms(3,4) d1(2)]])
  then show ?thesis using c assms(5) by (simp add: populate_node_files bind_def)
qed

subsection \<open>Properties\<close>

text \<open>
  Property C28: \<open>deep init\<close> never touches what already exists: when the directory exists it refuses
  and changes nothing, and however it ends - failing file operations, failing key generation -
  every name outside the new directory is as it was.
\<close>

theorem init_preserves:
  assumes "create_node k iss iss2 now parse cwd opts d = (r, d')" "undisturbed d" "IsAbs cwd" "consistent (Abs cwd (io_dir opts)) d"
  shows "(if dk_names d (Abs cwd (io_dir opts)) \<noteq> None then \<not> is_ok r \<and> dk_names d' = dk_names d
     else \<forall>n. \<not> within (Abs cwd (io_dir opts)) n \<longrightarrow> dk_names d' n = dk_names d n)"
  using assms by (rule create_node_cases) (auto simp: is_ok_def)

text \<open>
  \<open>deep init\<close> succeeds whenever its options are valid, keys can be generated and the
  directory is new: on a disk where no operation fails it returns the directory and the pin.
\<close>

lemma create_node_quiet:
  assumes "check_init parse opts = Inr ()" "GenerateIdentity k iss now (io_authority opts) year = Inr (cert, key, pin)"
    "ValidateEndpoint (init_endpoint opts pin) = Inr ()" "first_client k iss2 now opts = Inr client"
    "dk_script d = []" "undisturbed d" "IsAbs cwd" "consistent (Abs cwd (io_dir opts)) d" "dk_names d (Abs cwd (io_dir opts)) = None"
  shows "\<exists>d'. create_node k iss iss2 now parse cwd opts d = (Inr (Abs cwd (io_dir opts), pin), d')"
proof -
  obtain ps where ps: "Abs cwd (io_dir opts) = rooted ps" "\<forall>q\<in>set ps. path_elem q" using Abs_rooted [OF assms(7)] .
  let ?d1 = "d\<lparr>dk_names := (dk_names d)(rooted ps \<mapsto> Directory)\<rparr>"
  have c: "createPrivateDirectory (rooted ps) d = (Inr (), ?d1)"
    using os_Mkdir_quiet [OF assms(5)] assms(5,9) os_Sync_quiet [of ?d1] unfolding ps(1) by (simp add: createPrivateDirectory_def)
  note d1 = createPrivateDirectory_names [OF c assms(6)]
  have v: "vacant ps ?d1" by (rule vacant_after [OF ps(2) assms(8,9) [unfolded ps(1)] d1(1)])
  have u: "undisturbed ?d1" using d1(2) by (simp add: is_ok_def)
  obtain d' where "populate_node k iss2 now opts (rooted ps) (cert, key, pin) ?d1 = (Inr (), d')"
    using populate_quiet [OF _ u ps(2) v assms(4), of "(cert, key, pin)"] assms(5) by auto
  then show ?thesis
    using assms(1-3) c by (simp add: create_node_def ps(1) bind_def all_or_nothing_def done_with_def Let_def)
qed

lemma created_server:
  assumes "create_node k iss iss2 now parse cwd opts d = (Inr (target, pin), d')" "undisturbed d" "IsAbs cwd"
    "consistent (Abs cwd (io_dir opts)) d" "utf8_valid (io_upstream opts)" "length (io_upstream opts) \<le> 4096"
    "\<forall>x. length (k_Sum256 k x) = 32"
  shows "\<exists>config cert key client.
      loadServerConfig parse (contents d') (Join [target, ''server.json'']) = Inr config \<and>
      GenerateIdentity k iss now (io_authority opts) year = Inr (cert, key, pin) \<and> first_client k iss2 now opts = Inr client \<and>
      sc_Authority config = io_authority opts \<and> sc_Listen config = io_address opts \<and> sc_Upstream config = io_upstream opts \<and>
      sc_AccessMode config = (if io_public opts then ''public'' else ''private'') \<and>
      pins_of config = (case client of None \<Rightarrow> [] | Some (_, _, clientPin) \<Rightarrow> [clientPin]) \<and>
      contents d' (sc_Certificate config) = Inr cert \<and> contents d' (sc_PrivateKey config) = Inr key \<and>
      (io_upstream opts = [] \<longrightarrow> sc_Root config = Join [target, ''content'']) \<and> sc_MaxBytes config = 2 ^ 30"
  using assms(1-4)
proof (cases rule: create_node_cases)
  case (made cert key pin' client)
  obtain ps where ps: "Abs cwd (io_dir opts) = rooted ps" "\<forall>q\<in>set ps. path_elem q" using Abs_rooted [OF assms(3)] .
  have t: "target = rooted ps" "pin' = pin" using made(5) ps(1) by simp_all
  define p where "p = map_option (\<lambda>(_, _, p). p) client"
  note files = made_contents [OF made(8) [unfolded ps(1)]]
  note authority = authority_text [OF check_init_parts(1) [OF made(1)]]
  note endpoint = ValidateEndpoint_ascii [OF made(3)]
  have address: "list_all (\<lambda>c. ord c < 128) (io_address opts)" "length (io_address opts) \<le> 1024"
    using made(3) endpoint(1) by (auto simp: init_endpoint_def ValidateEndpoint_def res_simps list_ex_iff list_all_iff not_le split: if_splits)
  note d = init_server_decodes [OF authority(2) address(1) assms(5) authority(1) address(2) assms(6)
      first_client_pin(1) [OF made(4) assms(7)], folded p_def]
  obtain c where c: "default_limits (init_server opts p) = Inr c" "sc_Authority c = io_authority opts" "sc_Listen c = io_address opts"
    "sc_Certificate c = ''identity.crt''" "sc_PrivateKey c = ''identity.key''" "sc_Upstream c = io_upstream opts"
    "sc_AccessMode c = (if p = None then ''public'' else ''private'')" "sc_AllowedClientPins c = map_option (\<lambda>pin. [pin]) p"
    "sc_Root c = (if io_upstream opts = [] then ''content'' else [])" "sc_MaxBytes c = 2 ^ 30"
    using init_server_accepted(2) [OF made(1)] by blast
  let ?dir = "Dir (Join [rooted ps, ''server.json''])"
  let ?config = "c\<lparr>sc_Root := beside ?dir (sc_Root c), sc_Certificate := beside ?dir (sc_Certificate c),
    sc_PrivateKey := beside ?dir (sc_PrivateKey c)\<rparr>"
  have f: "contents d' (Join [rooted ps, ''server.json'']) = Inr (json_file (JObject (serverConfig_members (init_server opts p))))"
    "contents d' (Join [rooted ps, ''identity.crt'']) = Inr cert" "contents d' (Join [rooted ps, ''identity.key'']) = Inr key"
    by (rule files; simp add: node_files_def init_files_def p_def)+
  have "loadServerConfig parse (contents d') (Join [rooted ps, ''server.json'']) = Inr ?config"
    using f(1) d init_server_accepted(1) [OF made(1)] c(1) by (simp add: loadServerConfig_def Let_def)
  moreover have "contents d' (sc_Certificate ?config) = Inr cert" "contents d' (sc_PrivateKey ?config) = Inr key"
    using f(2,3) beside_rooted [OF ps(2)] c(4,5) by simp_all
  moreover have "pins_of ?config = (case client of None \<Rightarrow> [] | Some (_, _, clientPin) \<Rightarrow> [clientPin])"
    using c(8) by (simp add: pins_of_def p_def split: option.split)
  moreover have "p = None \<longleftrightarrow> io_public opts" using first_client_pin(2) [OF made(4) assms(7)] by (simp add: p_def)
  moreover have "io_upstream opts = [] \<longrightarrow> sc_Root ?config = Join [target, ''content'']" using beside_rooted(3) [OF ps(2)] c(9) t(1) by simp
  ultimately show ?thesis
    using made(2,4) c t by (intro exI [of _ ?config] exI [of _ cert] exI [of _ key] exI [of _ client]) simp
qed simp

text \<open>
  Property C25: \<open>deep serve\<close> accepts what \<open>deep init\<close> wrote: the new server configuration loads, with
  the authority, the address and the access that were asked for; a private node trusts exactly the
  client whose identity was created with it; and its certificate and key paths name the files
  that hold the generated identity.
\<close>

theorem init_node_loads:
  assumes "create_node k iss iss2 now parse cwd opts d = (Inr (target, pin), d')" "undisturbed d" "IsAbs cwd"
    "consistent (Abs cwd (io_dir opts)) d" "utf8_valid (io_upstream opts)" "length (io_upstream opts) \<le> 4096"
    "\<forall>x. length (k_Sum256 k x) = 32"
  shows "\<exists>config cert key client.
      loadServerConfig parse (contents d') (Join [target, ''server.json'']) = Inr config \<and>
      GenerateIdentity k iss now (io_authority opts) year = Inr (cert, key, pin) \<and> first_client k iss2 now opts = Inr client \<and>
      sc_Authority config = io_authority opts \<and> sc_Listen config = io_address opts \<and> sc_Upstream config = io_upstream opts \<and>
      sc_AccessMode config = (if io_public opts then ''public'' else ''private'') \<and>
      pins_of config = (case client of None \<Rightarrow> [] | Some (_, _, clientPin) \<Rightarrow> [clientPin]) \<and>
      contents d' (sc_Certificate config) = Inr cert \<and> contents d' (sc_PrivateKey config) = Inr key"
  using created_server [OF assms] by blast

text \<open>
  The client configuration that \<open>deep init\<close> wrote finds the new node: it loads and
  resolves the authority to the address and the pin of the identity that was generated for it.
\<close>

theorem init_client_resolves:
  assumes "create_node k iss iss2 now parse cwd opts d = (Inr (target, pin), d')" "undisturbed d" "IsAbs cwd"
    "consistent (Abs cwd (io_dir opts)) d"
  shows "\<exists>registry. LoadRegistry run proxy (contents d') cwd (Join [target, ''client.json'']) = Inr registry \<and>
     Resolve registry [] (io_authority opts) =
       (Inr \<lparr>ep_Address = io_address opts, ep_PinSHA256 = pin, ep_Transport = ''tcp''\<rparr>, [])"
  using assms
proof (cases rule: create_node_cases)
  case (made cert key pin' client)
  have t: "target = Abs cwd (io_dir opts)" "pin' = pin" using made(5) by simp_all
  let ?p = "Join [target, ''client.json'']"
  have f: "contents d' ?p = Inr (json_file (init_client opts pin (io_public opts)))"
    unfolding t(1) by (rule made_contents [OF made(8)]) (simp add: node_files_def t(2))
  note v = check_init_parts(1) [OF made(1)]
  note d = init_client_decodes [OF v made(3) [unfolded t(2)], of "io_public opts"]
  have i: "validIdentityPath ''client.crt''" "validIdentityPath ''client.key''" 
    by (simp_all add: validIdentityPath_def TrimSpace_def IsSpace_def IsControl_def In_Cf_Zl_Zp_def In_Cf_def Cf_table_def)
  have l: "loadRegistryConfig (contents d') cwd ?p = Inr (client_registry opts pin (io_public opts), Dir (Abs cwd ?p))"
    using f d i by (simp add: loadRegistryConfig_def Let_def client_registry_def ProtocolVersion_def)
  obtain registry where "registryFromConfig run proxy (client_registry opts pin (io_public opts)) (Dir (Abs cwd ?p)) = Inr registry"
    "Resolve registry [] (io_authority opts) = (Inr (init_endpoint opts pin), [])"
    using client_registry_resolves [OF v made(3) [unfolded t(2)]] .
  then show ?thesis using l by (simp add: LoadRegistry_def init_endpoint_def)
qed simp

text \<open>
  Property C27: A generated identity is accepted for its own role, from its creation to the last
  second of its validity, and for no other role: the node's certificate and key pass
  \<open>ValidateServerIdentity\<close> for its authority and never \<open>ValidateClientIdentity\<close>, and the pin
  that is handed out is the pin of that certificate.
\<close>

theorem generated_identity:
  assumes "GenerateIdentity k iss now authority validFor = Inr (cert, key, pin)" "issues k iss"
    "now \<le> t" "t \<le> now + validFor - Second"
  shows "\<exists>der pub. cert = EncodeToMemory ''CERTIFICATE'' der \<and> (\<exists>priv. is_GenerateKey iss = Inr (pub, priv)) \<and>
     ValidateServerIdentity k t (key_pair der pub) authority = Inr () \<and>
     \<not> is_ok (ValidateClientIdentity k t (key_pair der pub)) \<and> IdentityPin k (key_pair der pub) = Inr pin"
proof -
  have "ValidateAuthority authority = Inr ()"
    using assms(1) by (auto simp: GenerateIdentity_def generateIdentity_def split: sum.splits)
  moreover obtain der pub where "cert = EncodeToMemory ''CERTIFICATE'' der" "\<exists>priv. is_GenerateKey iss = Inr (pub, priv)"
    "validateLocalIdentity k t (key_pair der pub) authority ServerAuth = Inr ()"
    "\<not> is_ok (validateLocalIdentity k t (key_pair der pub) [] ClientAuth)" "IdentityPin k (key_pair der pub) = Inr pin"
    using generated [OF assms(1) [unfolded GenerateIdentity_def] assms(2)] assms(3,4) by (metis ext_usage.distinct(1))
  ultimately show ?thesis by (auto simp: ValidateServerIdentity_def ValidateClientIdentity_def)
qed

subsection \<open>Witnesses\<close>

definition sample_issuer :: issuer where
  "sample_issuer = \<lparr>is_GenerateKey = Inr (MLDSA 65 ''k'', ''p''), is_Int = Inr 0,
     is_CreateCertificate = (\<lambda>t key. if t = identity_template 0 Minute ''n.alpha'' Minute ServerAuth \<or> tp_NotAfter t = Minute + year
       then Inr ''der'' else Inl EOF),
     is_MarshalPKCS8PrivateKey = (\<lambda>p. Inr p)\<rparr>"

definition sample_options :: initOptions where
  "sample_options = \<lparr>io_authority = ''n.alpha'', io_dir = ''/d'', io_address = ''127.0.0.1:8'', io_upstream = [], io_public = False\<rparr>"

abbreviation empty_disk :: disk where
  "empty_disk \<equiv> \<lparr>dk_names = Map.empty, dk_fresh = 0, dk_script = []\<rparr>"

lemma empty_disk_ok: "undisturbed empty_disk" "consistent dir empty_disk"
  by (simp_all add: undisturbed_def below_def consistent_def)

lemma sample_init_ok:
  "check_init (\<lambda>_. None) sample_options = Inr ()"
  "\<exists>cert key. GenerateIdentity sample_crypto sample_issuer Minute (io_authority sample_options) year = Inr (cert, key, sample_pin)"
  "ValidateEndpoint (init_endpoint sample_options sample_pin) = Inr ()"
  "\<exists>client. first_client sample_crypto sample_issuer Minute sample_options = Inr client"
proof -
  have i: "Itoa 8 = ''8''" by (simp add: Itoa_def nat_dec.simps digit_char_def) code_simp
  have "Atoi (Itoa 8) = Some 8" unfolding Atoi_def by (rule ParseInt10_Itoa) simp_all
  then have a: "Atoi ''8'' = Some 8" unfolding i .
  have h: "SplitHostPort ''127.0.0.1:8'' = Inr (''127.0.0.1'', ''8'')" by code_simp
  have p: "map_option IsUnspecified (ParseIP ''127.0.0.1'') = Some False" by code_simp
  show "check_init (\<lambda>_. None) sample_options = Inr ()"
    using p by (auto simp: check_init_def sample_options_def sample_authority h a i)
  have client: "ValidateAuthority (''client.'' @ network_part ''n.alpha'') = Inr ()" by code_simp
  show "\<exists>cert key. GenerateIdentity sample_crypto sample_issuer Minute (io_authority sample_options) year = Inr (cert, key, sample_pin)"
    by (simp add: GenerateIdentity_def generateIdentity_def sample_options_def sample_authority sample_issuer_def sample_crypto_def
        identity_template_def sample_pin_def year_def Hour_def Minute_def Second_def)
  show "\<exists>client. first_client sample_crypto sample_issuer Minute sample_options = Inr client"
    using client by (simp add: first_client_def GenerateClientIdentity_def generateIdentity_def sample_options_def sample_issuer_def
        sample_crypto_def identity_template_def year_def Hour_def Minute_def Second_def)
  have t: "is_ok (validateASCII ''127.0.0.1:8'')" "\<not> ContainsAny ''127.0.0.1'' [CHR ''/'', CHR 0x5C, CHR ''?'', CHR ''#'', CHR ''@'']"
    by code_simp+
  have "length sample_pin = 64" "DecodeString sample_pin \<noteq> None"
    using sample_pin_decodes by (simp_all add: sample_pin_def decodeIdentityPin_iff)
  then show "ValidateEndpoint (init_endpoint sample_options sample_pin) = Inr ()"
    by (simp add: ValidateEndpoint_def init_endpoint_def sample_options_def validTransportName_def isLowerAlnum_def
        validate_tcp_def h a i t)
qed

abbreviation sample_create :: "disk \<Rightarrow> (string \<times> string) res \<times> disk" where
  "sample_create \<equiv> create_node sample_crypto sample_issuer sample_issuer Minute (\<lambda>_. None) ''/'' sample_options"

lemma sample_dir: "Abs ''/'' (io_dir sample_options) = ''/d''"
  by code_simp

lemma sample_root: "IsAbs ''/''"
  by (simp add: IsAbs_def HasPrefix_def)

lemma sample_created: obtains d' where "sample_create empty_disk = (Inr (''/d'', sample_pin), d')"
proof -
  obtain cert key where g: "GenerateIdentity sample_crypto sample_issuer Minute (io_authority sample_options) year = Inr (cert, key, sample_pin)"
    using sample_init_ok(2) by blast
  obtain client where c: "first_client sample_crypto sample_issuer Minute sample_options = Inr client" using sample_init_ok(4) by blast
  show thesis
    using create_node_quiet [OF sample_init_ok(1) g sample_init_ok(3) c _ empty_disk_ok(1) sample_root empty_disk_ok(2)] that
    by (auto simp: sample_dir)
qed

theorem init_preserves_witness:
  "\<exists>d'. sample_create (empty_disk\<lparr>dk_names := [''/d'' \<mapsto> Directory]\<rparr>) = (Inl (Wrapf ''create new directory (existing directories are not overwritten)'' (Errorf ''file exists'')), d') \<and>
     dk_names d' = [''/d'' \<mapsto> Directory]"
proof -
  let ?d = "empty_disk\<lparr>dk_names := [''/d'' \<mapsto> Directory]\<rparr>"
  have ok: "undisturbed ?d" "consistent ''/d'' ?d" by (simp_all add: undisturbed_def below_def consistent_def)
  obtain cert key where "GenerateIdentity sample_crypto sample_issuer Minute (io_authority sample_options) year = Inr (cert, key, sample_pin)"
    using sample_init_ok(2) by blast
  then have "fst (sample_create ?d) = Inl (Wrapf ''create new directory (existing directories are not overwritten)'' (Errorf ''file exists''))"
    using sample_init_ok(1,3) by (simp add: create_node_def sample_dir createPrivateDirectory_def os_Mkdir_def disk_op_def bind_def Let_def)
  then obtain d' where c: "sample_create ?d = (Inl (Wrapf ''create new directory (existing directories are not overwritten)''
      (Errorf ''file exists'')), d')" by (metis prod.collapse)
  from init_preserves [OF c ok(1) sample_root] ok(2) c show ?thesis by (auto simp: sample_dir)
qed

theorem init_node_loads_witness:
  "\<exists>d' config. sample_create empty_disk = (Inr (''/d'', sample_pin), d') \<and>
     loadServerConfig (\<lambda>_. None) (contents d') (Join [''/d'', ''server.json'']) = Inr config \<and>
     sc_Authority config = ''n.alpha'' \<and> sc_AccessMode config = ''private''"
proof -
  obtain d' where d': "sample_create empty_disk = (Inr (''/d'', sample_pin), d')" by (rule sample_created)
  from init_node_loads [OF d' empty_disk_ok(1) sample_root empty_disk_ok(2)] d' show ?thesis
    by (fastforce simp: sample_options_def sample_crypto_def)
qed

definition sample_generating :: crypto where
  "sample_generating = sample_crypto\<lparr>k_ParseCertificate := (\<lambda>_. Inr ((sample_leaf ''n.alpha'' ServerAuth)\<lparr>x_NotAfter := 2 * Minute\<rparr>))\<rparr>"

definition careful_issuer :: issuer where
  "careful_issuer = sample_issuer\<lparr>is_CreateCertificate := (\<lambda>t key.
     if t = identity_template 0 Minute ''n.alpha'' Minute ServerAuth then Inr ''der'' else Inl EOF)\<rparr>"

lemma careful_issues: "issues sample_generating careful_issuer"
  by (auto simp: issues_def careful_issuer_def sample_issuer_def sample_generating_def sample_crypto_def sample_leaf_def
      identity_template_def Minute_def Second_def KeyUsageDigitalSignature_def split: if_splits)

lemma sample_generated:
  "\<exists>key. GenerateIdentity sample_generating careful_issuer Minute ''n.alpha'' Minute =
     Inr (EncodeToMemory ''CERTIFICATE'' ''der'', key, sample_pin)"
  by (simp add: GenerateIdentity_def generateIdentity_def sample_authority careful_issuer_def sample_issuer_def sample_generating_def
      sample_crypto_def sample_pin_def Minute_def Second_def)

theorem generated_identity_witness:
  "\<exists>cert key der pub. GenerateIdentity sample_generating careful_issuer Minute ''n.alpha'' Minute = Inr (cert, key, sample_pin) \<and>
     ValidateServerIdentity sample_generating Minute (key_pair der pub) ''n.alpha'' = Inr ()"
proof -
  obtain cert key where g: "GenerateIdentity sample_generating careful_issuer Minute ''n.alpha'' Minute = Inr (cert, key, sample_pin)"
    using sample_generated by blast
  from generated_identity [OF g careful_issues, of Minute] g show ?thesis by (auto simp: Minute_def Second_def)
qed

end
