(* ===== verification/Options.thy ===== *)
theory Options
  imports Flags JsonCodec
begin

text \<open>
  Options with numbers: \<open>flag.Int64\<close> reads its value with \<open>strconv.ParseInt\<close> in the base its prefix
  says, \<open>flag.Duration\<close> with \<open>time.ParseDuration\<close>. The spellings that a script would use are read
  back exactly.
\<close>

subsection \<open>strconv.ParseInt\<close>

text \<open>\<open>c | 0x20\<close>, as a number.\<close>

definition lower_ord :: "char \<Rightarrow> nat" where
  "lower_ord c = (if odd (ord c div 32) then ord c else ord c + 32)"

definition digit_value :: "char \<Rightarrow> nat option" where
  "digit_value c =
     (if is_digit c then Some (ord c - 48)
      else if 97 \<le> lower_ord c \<and> lower_ord c \<le> 122 then Some (lower_ord c - 87)
      else None)"

fun uint_digits :: "nat \<Rightarrow> nat \<Rightarrow> string \<Rightarrow> nat option" where
  "uint_digits base n [] = Some n"
| "uint_digits base n (c # cs) =
     (if c = CHR ''_'' then uint_digits base n cs
      else case digit_value c of
        None \<Rightarrow> None
      | Some d \<Rightarrow> if d \<ge> base \<or> n * base + d \<ge> 2 ^ 64 then None else uint_digits base (n * base + d) cs)"

definition base_prefix :: "string \<Rightarrow> nat option" where
  "base_prefix s =
     (if length s \<ge> 2 \<and> s ! 0 = CHR ''0''
      then (if lower_ord (s ! 1) = 98 then Some 2 else if lower_ord (s ! 1) = 111 then Some 8
            else if lower_ord (s ! 1) = 120 then Some 16 else None)
      else None)"

text \<open>Underscores stand between digits, or between the prefix of the base and a digit.\<close>

datatype last_seen = Nothing | Digit | Underscore | Other

fun underscores_ok :: "bool \<Rightarrow> last_seen \<Rightarrow> string \<Rightarrow> bool" where
  "underscores_ok hex i [] = (i \<noteq> Underscore)"
| "underscores_ok hex i (c # cs) =
     (if is_digit c \<or> hex \<and> 97 \<le> lower_ord c \<and> lower_ord c \<le> 102 then underscores_ok hex Digit cs
      else if c = CHR ''_'' then i = Digit \<and> underscores_ok hex Underscore cs
      else i \<noteq> Underscore \<and> underscores_ok hex Other cs)"

definition underscoreOK :: "string \<Rightarrow> bool" where
  "underscoreOK s =
     (case base_prefix s of
        None \<Rightarrow> underscores_ok False Nothing s
      | Some b \<Rightarrow> underscores_ok (b = 16) Digit (drop 2 s))"

definition ParseUint0 :: "string \<Rightarrow> nat option" where
  "ParseUint0 s =
     (if s = [] then None
      else let (base, t) =
          (if hd s \<noteq> CHR ''0'' then (10, s)
           else case (if length s \<ge> 3 then base_prefix s else None) of
             Some b \<Rightarrow> (b, drop 2 s) | None \<Rightarrow> (8, tl s))
        in case uint_digits base 0 t of
             None \<Rightarrow> None
           | Some n \<Rightarrow> if CHR ''_'' \<in> set t \<and> \<not> underscoreOK s then None else Some n)"

definition ParseInt0 :: "string \<Rightarrow> int option" where
  "ParseInt0 s =
     (if s = [] then None
      else let neg = (hd s = CHR ''-'');
               t = (if hd s = CHR ''-'' \<or> hd s = CHR ''+'' then tl s else s)
           in case ParseUint0 t of
                None \<Rightarrow> None
              | Some n \<Rightarrow>
                  if neg then (if n > 2 ^ 63 then None else Some (- int n))
                  else (if n \<ge> 2 ^ 63 then None else Some (int n)))"

abbreviation Int64_flag :: "string \<Rightarrow> (int \<Rightarrow> 'a \<Rightarrow> 'a) \<Rightarrow> 'a flag" where
  "Int64_flag \<equiv> Scalar_flag ParseInt0"

subsection \<open>time.ParseDuration\<close>

fun leadingInt :: "nat \<Rightarrow> string \<Rightarrow> (nat \<times> string) option" where
  "leadingInt x [] = Some (x, [])"
| "leadingInt x (c # s) =
     (if \<not> is_digit c then Some (x, c # s)
      else if x > 2 ^ 63 div 10 \<or> x * 10 + (ord c - 48) > 2 ^ 63 then None
      else leadingInt (x * 10 + (ord c - 48)) s)"

text \<open>The digits of a fraction as far as they fit, how many these are, and the rest.\<close>

fun leadingFraction :: "bool \<Rightarrow> nat \<Rightarrow> nat \<Rightarrow> string \<Rightarrow> nat \<times> nat \<times> string" where
  "leadingFraction overflow x scale [] = (x, scale, [])"
| "leadingFraction overflow x scale (c # s) =
     (if \<not> is_digit c then (x, scale, c # s)
      else if overflow \<or> x > (2 ^ 63 - 1) div 10 \<or> x * 10 + (ord c - 48) > 2 ^ 63 then leadingFraction True x scale s
      else leadingFraction False (x * 10 + (ord c - 48)) (scale + 1) s)"

definition unitMap :: "(string \<times> nat) list" where
  "unitMap =
     [(''ns'', 1), (''us'', 1000), ([CHR 0xC2, CHR 0xB5, CHR ''s''], 1000), ([CHR 0xCE, CHR 0xBC, CHR ''s''], 1000),
      (''ms'', 1000000), (''s'', 1000000000), (''m'', 60000000000), (''h'', 3600000000000)]"

text \<open>
  One number with its unit. \<open>fraction f unit scale\<close> is the product that Go computes in floating
  point, \<open>f\<close> times \<open>unit\<close> over ten to the \<open>scale\<close>, cut to an integer.
\<close>

definition duration_term :: "(nat \<Rightarrow> nat \<Rightarrow> nat \<Rightarrow> nat) \<Rightarrow> string \<Rightarrow> (nat \<times> string) option" where
  "duration_term fraction s =
     (if s = [] \<or> \<not> (hd s = CHR ''.'' \<or> is_digit (hd s)) then None
      else case leadingInt 0 s of
        None \<Rightarrow> None
      | Some (v, s1) \<Rightarrow>
          (let dot = (s1 \<noteq> [] \<and> hd s1 = CHR ''.'');
               (f, scale, s2) = (if dot then leadingFraction False 0 0 (tl s1) else (0, 0, s1));
               pre = (length s1 \<noteq> length s);
               post = (dot \<and> length s2 \<noteq> length (tl s1));
               u = takeWhile (\<lambda>c. c \<noteq> CHR ''.'' \<and> \<not> is_digit c) s2;
               rest = drop (length u) s2
           in if \<not> pre \<and> \<not> post \<or> u = [] then None
              else case map_of unitMap u of
                None \<Rightarrow> None
              | Some unit \<Rightarrow>
                  if v > 2 ^ 63 div unit then None
                  else let w = v * unit + (if f > 0 then fraction f unit scale else 0)
                       in if f > 0 \<and> w > 2 ^ 63 then None else Some (w, rest)))"

lemma leadingInt_length: "leadingInt x s = Some (v, s1) \<Longrightarrow> length s1 \<le> length s"
  by (induction x s rule: leadingInt.induct) (auto split: if_splits)

lemma leadingFraction_length: "leadingFraction b x n s = (f, m, s1) \<Longrightarrow> length s1 \<le> length s"
  by (induction b x n s rule: leadingFraction.induct) (auto split: if_splits)

lemma duration_term_shorter: "duration_term fraction s = Some (v, rest) \<Longrightarrow> length rest < length s"
proof -
  assume d: "duration_term fraction s = Some (v, rest)"
  then obtain x s1 where 1: "leadingInt 0 s = Some (x, s1)" by (auto simp: duration_term_def split: if_splits option.splits)
  let ?dot = "s1 \<noteq> [] \<and> hd s1 = CHR ''.''"
  obtain f n s2 where 2: "(if ?dot then leadingFraction False 0 0 (tl s1) else (0, 0, s1)) = (f, n, s2)"
    by (metis prod_cases3)
  have s2: "length s2 \<le> length s"
    using 2 leadingInt_length [OF 1] by (auto split: if_splits dest!: leadingFraction_length)
  let ?u = "takeWhile (\<lambda>c. c \<noteq> CHR ''.'' \<and> \<not> is_digit c) s2"
  have "?u \<noteq> []" "rest = drop (length ?u) s2"
    using d 1 2 unfolding duration_term_def by (simp_all add: Let_def split: if_splits option.splits)
  moreover have "length ?u \<le> length s2" by (rule length_takeWhile_le)
  ultimately show ?thesis using s2 by (cases ?u) auto
qed

text \<open>The sum of the terms, as a 64-bit unsigned number.\<close>

function duration_terms :: "(nat \<Rightarrow> nat \<Rightarrow> nat \<Rightarrow> nat) \<Rightarrow> nat \<Rightarrow> string \<Rightarrow> nat option" where
  "duration_terms fraction d s =
     (if s = [] then Some d
      else case duration_term fraction s of
        None \<Rightarrow> None
      | Some (v, rest) \<Rightarrow>
          if (d + v) mod 2 ^ 64 > 2 ^ 63 then None else duration_terms fraction ((d + v) mod 2 ^ 64) rest)"
  by pat_completeness auto
termination
  by (relation "measure (\<lambda>(fraction, d, s). length s)") (auto dest: duration_term_shorter)

declare duration_terms.simps [simp del]

definition ParseDuration :: "(nat \<Rightarrow> nat \<Rightarrow> nat \<Rightarrow> nat) \<Rightarrow> string \<Rightarrow> int option" where
  "ParseDuration fraction s =
     (let neg = (s \<noteq> [] \<and> hd s = CHR ''-'');
          t = (if s \<noteq> [] \<and> (hd s = CHR ''-'' \<or> hd s = CHR ''+'') then tl s else s)
      in if t = ''0'' then Some 0
         else if t = [] then None
         else case duration_terms fraction 0 t of
           None \<Rightarrow> None
         | Some d \<Rightarrow> if neg then Some (- int d) else if d > 2 ^ 63 - 1 then None else Some (int d))"

abbreviation Duration_flag :: "(nat \<Rightarrow> nat \<Rightarrow> nat \<Rightarrow> nat) \<Rightarrow> string \<Rightarrow> (int \<Rightarrow> 'a \<Rightarrow> 'a) \<Rightarrow> 'a flag" where
  "Duration_flag fraction \<equiv> Scalar_flag (ParseDuration fraction)"

subsection \<open>Decimal numbers\<close>

lemma dec_value_Cons: "foldl (\<lambda>a c. a * 10 + (ord c - 48)) x (s :: string) = x * 10 ^ length s + dec_value s"
proof (induction s arbitrary: x rule: rev_induct)
  case (snoc c s)
  then show ?case by (simp add: algebra_simps)
qed simp

lemma uint_digits_value:
  assumes "list_all is_digit s" "foldl (\<lambda>a c. a * 10 + (ord c - 48)) x s < 2 ^ 64"
  shows "uint_digits 10 x s = Some (foldl (\<lambda>a c. a * 10 + (ord c - 48)) x s)"
  using assms
proof (induction s arbitrary: x)
  case (Cons c s)
  let ?y = "x * 10 + (ord c - 48)"
  have "?y \<le> ?y * 10 ^ length s + dec_value s" by (simp add: trans_le_add1)
  also have "\<dots> < 2 ^ 64" using Cons.prems(2) dec_value_Cons [of ?y s] by simp
  finally have "?y < 2 ^ 64" .
  moreover have "digit_value c = Some (ord c - 48)" "ord c - 48 < 10" "c \<noteq> CHR ''_''"
    using Cons.prems(1) by (auto simp: digit_value_def is_digit_def)
  ultimately show ?case using Cons by simp
qed simp

lemma nat_dec_zero: "hd (nat_dec n) = CHR ''0'' \<Longrightarrow> n = 0"
  using nat_dec_hd_zero [of n] dec_value_nat_dec [of n] by (auto simp: dec_value_def)

lemma ParseInt0_Itoa:
  assumes "0 \<le> i" "i < 2 ^ 63"
  shows "ParseInt0 (Itoa i) = Some i"
proof -
  let ?s = "nat_dec (nat i)"
  have b: "nat i < 2 ^ 63" using assms by (simp add: nat_less_iff)
  have s: "list_all is_digit ?s" "?s \<noteq> []" by (simp_all add: nat_dec_digits)
  then have h: "hd ?s \<noteq> CHR ''-''" "hd ?s \<noteq> CHR ''+''" "CHR ''_'' \<notin> set ?s"
    using digits_hd [OF s] by (auto simp: list_all_iff is_digit_def)
  have v: "foldl (\<lambda>a c. a * 10 + (ord c - 48)) 0 ?s = nat i" using dec_value_nat_dec [of "nat i"] by (simp add: dec_value_def)
  have "ParseUint0 ?s = Some (nat i)"
  proof (cases "hd ?s = CHR ''0''")
    case True
    with nat_dec_zero [OF True] nat_dec_hd_zero [OF True] show ?thesis by (simp add: ParseUint0_def base_prefix_def)
  next
    case False
    with uint_digits_value [OF s(1), of 0] v b s(2) h show ?thesis by (simp add: ParseUint0_def)
  qed
  then show ?thesis using assms b s h by (simp add: ParseInt0_def Itoa_def)
qed

lemma leadingInt_value:
  assumes "list_all is_digit s" "foldl (\<lambda>a c. a * 10 + (ord c - 48)) x s \<le> 2 ^ 63" "rest = [] \<or> \<not> is_digit (hd rest)"
  shows "leadingInt x (s @ rest) = Some (foldl (\<lambda>a c. a * 10 + (ord c - 48)) x s, rest)"
  using assms(1,2)
proof (induction s arbitrary: x)
  case Nil
  then show ?case using assms(3) by (cases rest) auto
next
  case (Cons c s)
  let ?y = "x * 10 + (ord c - 48)"
  have "?y \<le> ?y * 10 ^ length s + dec_value s" by (simp add: trans_le_add1)
  also have "\<dots> \<le> 2 ^ 63" using Cons.prems(2) dec_value_Cons [of ?y s] by simp
  finally have "?y \<le> 2 ^ 63" .
  moreover from this have "\<not> x > 2 ^ 63 div 10" by simp
  ultimately show ?case using Cons by simp
qed

lemma ParseDuration_ns:
  assumes "0 \<le> i" "i < 2 ^ 63"
  shows "ParseDuration fraction (Itoa i @ ''ns'') = Some i"
proof -
  let ?s = "nat_dec (nat i)"
  have b: "nat i < 2 ^ 63" using assms by (simp add: nat_less_iff)
  have s: "list_all is_digit ?s" "?s \<noteq> []" by (simp_all add: nat_dec_digits)
  have h: "hd ?s \<noteq> CHR ''-''" "hd ?s \<noteq> CHR ''+''" "is_digit (hd ?s)" using digits_hd [OF s] s by (cases ?s; simp)+
  have v: "foldl (\<lambda>a c. a * 10 + (ord c - 48)) 0 ?s = nat i" using dec_value_nat_dec [of "nat i"] by (simp add: dec_value_def)
  have "leadingInt 0 (?s @ ''ns'') = Some (nat i, ''ns'')"
    using leadingInt_value [OF s(1), of 0 "''ns''"] v b by (simp add: is_digit_def)
  then have "duration_term fraction (?s @ ''ns'') = Some (nat i, [])"
    using s h b by (simp add: duration_term_def unitMap_def is_digit_def)
  then have "duration_terms fraction 0 (?s @ ''ns'') = Some (nat i)"
    using b s by (subst duration_terms.simps) (simp add: duration_terms.simps)
  moreover have "?s @ ''ns'' \<noteq> ''0''" by (cases ?s) auto
  ultimately show ?thesis using assms b s h by (simp add: ParseDuration_def Itoa_def)
qed

end
