(* ===== verification/CommandLine.thy ===== *)
theory CommandLine
  imports Requests Viewer NewNode Options
begin

text \<open>
  The commands with their arguments, of \<open>main.go\<close>, \<open>request.go\<close>, \<open>browse.go\<close> and \<open>config.go\<close> under
  \<open>src/cmd/deep\<close>: how \<open>deep fetch\<close>, \<open>deep request\<close>, \<open>deep preview\<close> and \<open>deep serve\<close> read their options,
  and what they print. What the \<open>flag\<close> package itself prints is not part of the model.
\<close>

subsection \<open>Results as JSON\<close>

definition security_members :: "SecurityInfo \<Rightarrow> (bytes \<times> jvalue) list" where
  "security_members i =
     [(''tls_version'', JString (si_TLSVersion i)), (''key_exchange'', JString (si_KeyExchange i)),
      (''cipher_suite'', JString (si_CipherSuite i)), (''authentication'', JString (si_Authentication i)),
      (''post_quantum_key_exchange'', JBool (si_PostQuantumKeyExchange i)),
      (''post_quantum_authentication'', JBool (si_PostQuantumAuthentication i))]"

definition result_members :: "Result \<Rightarrow> (bytes \<times> jvalue) list" where
  "result_members r =
     [(''media_type'', JString (re_MediaType r)), (''size'', JNumber (Itoa (re_Size r))), (''sha256'', JString (re_SHA256 r)),
      (''security'', JObject (security_members (re_Security r)))]"

text \<open>The fields of the embedded \<open>Result\<close> come first.\<close>

definition app_result_members :: "ApplicationResult \<Rightarrow> (bytes \<times> jvalue) list" where
  "app_result_members r =
     result_members (ax_Result r) @ [(''status'', JNumber (Itoa (ax_Status r))), (''headers'', headers_json (ax_Headers r))]"

subsection \<open>What the commands share\<close>

text \<open>
  What loading a client takes from the host: key pairs, resolver programs, the adapter of a proxy,
  the two ways to dial, files and the working directory.
\<close>

record 'h client_host =
  ch_keyPair :: "string \<Rightarrow> string \<Rightarrow> TLSCertificate res"
  ch_run :: program
  ch_proxy :: "string \<Rightarrow> adapter"
  ch_dialTCP :: "Endpoint \<Rightarrow> 'h conn res"
  ch_dialProxy :: "Endpoint \<Rightarrow> 'h conn res"
  ch_file :: "string \<Rightarrow> bytes res"
  ch_cwd :: string

definition load_client :: "'h env \<Rightarrow> 'h client_host \<Rightarrow> string \<Rightarrow> 'h Client res" where
  "load_client env host path =
     LoadClientConfig (e_crypto env) (e_now env) (ch_keyPair host) (ch_run host) (ch_proxy host) (ch_dialTCP host)
       (ch_dialProxy host) (ch_file host) (ch_cwd host) path"

text \<open>Standard output and the diagnostics.\<close>

record console =
  co_out :: writer
  co_diagnostic :: writer

text \<open>One write whose error the command returns, and one whose outcome it ignores.\<close>

definition put :: "bytes \<Rightarrow> writer \<Rightarrow> check \<times> writer" where
  "put data w = (case Write data w of (n, e, w') \<Rightarrow> (case e of Some er \<Rightarrow> Inl er | None \<Rightarrow> Inr (), w'))"

definition out_put :: "bytes \<Rightarrow> console \<Rightarrow> check \<times> console" where
  "out_put data con = (case put data (co_out con) of (r, w) \<Rightarrow> (r, con\<lparr>co_out := w\<rparr>))"

definition out_line :: "string \<Rightarrow> console \<Rightarrow> console" where
  "out_line s con = snd (out_put (s @ [CHR 0x0A]) con)"

definition diagnostic_json :: "(bytes \<times> jvalue) list \<Rightarrow> console \<Rightarrow> check \<times> console" where
  "diagnostic_json ms con =
     (case put (json_print (JObject ms) @ [CHR 0x0A]) (co_diagnostic con) of (r, w) \<Rightarrow> (r, con\<lparr>co_diagnostic := w\<rparr>))"

subsection \<open>deep fetch\<close>

record fetchOptions =
  fo_config :: string
  fo_output :: string
  fo_info :: bool
  fo_timeout :: int
  fo_maxBytes :: int

definition fetch_flags :: "(nat \<Rightarrow> nat \<Rightarrow> nat \<Rightarrow> nat) \<Rightarrow> fetchOptions flag list" where
  "fetch_flags fraction =
     [String_flag ''config'' (\<lambda>s p. p\<lparr>fo_config := s\<rparr>), String_flag ''output'' (\<lambda>s p. p\<lparr>fo_output := s\<rparr>),
      Bool_flag ''info'' (\<lambda>b p. p\<lparr>fo_info := b\<rparr>), Duration_flag fraction ''timeout'' (\<lambda>i p. p\<lparr>fo_timeout := i\<rparr>),
      Int64_flag ''max-bytes'' (\<lambda>i p. p\<lparr>fo_maxBytes := i\<rparr>)]"

definition fetch_defaults :: fetchOptions where
  "fetch_defaults =
     \<lparr>fo_config = ''client.json'', fo_output = [], fo_info = False, fo_timeout = 30 * Second, fo_maxBytes = 0\<rparr>"

text \<open>After the options: the transfer to standard output or to a file, and the report.\<close>

definition fetch_with ::
    "'h env \<Rightarrow> 'h client_host \<Rightarrow> file_host \<Rightarrow> string \<Rightarrow> fetchOptions \<Rightarrow> console \<Rightarrow> check \<times> console \<times> files" where
  "fetch_with env host fh uri opts con =
     (case fetch_client (load_client env host (fo_config opts)) (fo_timeout opts) (fo_maxBytes opts) of
        Inl e \<Rightarrow> (Inl e, con, fh_later fh)
      | Inr client \<Rightarrow>
          (case (if fo_output opts = []
                 then (case Client_Fetch env client uri (co_out con) of (r, w) \<Rightarrow> (r, con\<lparr>co_out := w\<rparr>, fh_later fh))
                 else (case fetchFile env client uri fh (fo_output opts) of (r, fs) \<Rightarrow> (r, con, fs))) of
             (Inl e, con', fs) \<Rightarrow> (Inl e, con', fs)
           | (Inr result, con', fs) \<Rightarrow>
               if fo_info opts then (case diagnostic_json (result_members result) con' of (r, con'') \<Rightarrow> (r, con'', fs))
               else (Inr (), con', fs)))"

definition fetchResource ::
    "(nat \<Rightarrow> nat \<Rightarrow> nat \<Rightarrow> nat) \<Rightarrow> 'h env \<Rightarrow> 'h client_host \<Rightarrow> file_host \<Rightarrow> string list \<Rightarrow> console \<Rightarrow> check \<times> console \<times> files" where
  "fetchResource fraction env host fh args con =
     (case args of
        [] \<Rightarrow> (Inl (Errorf ''usage: deep fetch deep://node.network/path --config client.json [--output file] [--info]''), con, fh_later fh)
      | uri # rest \<Rightarrow>
          if uri = ''--help'' \<or> uri = ''-h'' then
            (Inr (), out_line ''Usage: deep fetch deep://node.network/path --config client.json [--output file] [--info] [--timeout 30s]'' con,
             fh_later fh)
          else (case ParseURI uri of
              Inl e \<Rightarrow> (Inl e, con, fh_later fh)
            | Inr _ \<Rightarrow>
                (case parseFlags (fetch_flags fraction) rest fetch_defaults of
                   Inl e \<Rightarrow> (Inl e, con, fh_later fh)
                 | Inr None \<Rightarrow> (Inr (), con, fh_later fh)
                 | Inr (Some opts) \<Rightarrow> fetch_with env host fh uri opts con)))"

subsection \<open>deep request\<close>

record requestOptions =
  ro_config :: string
  ro_info :: bool
  ro_timeout :: int
  ro_limit :: int

definition request_flags :: "(nat \<Rightarrow> nat \<Rightarrow> nat \<Rightarrow> nat) \<Rightarrow> requestOptions flag list" where
  "request_flags fraction =
     [String_flag ''config'' (\<lambda>s p. p\<lparr>ro_config := s\<rparr>), Bool_flag ''info'' (\<lambda>b p. p\<lparr>ro_info := b\<rparr>),
      Duration_flag fraction ''timeout'' (\<lambda>i p. p\<lparr>ro_timeout := i\<rparr>), Int64_flag ''max-bytes'' (\<lambda>i p. p\<lparr>ro_limit := i\<rparr>)]"

definition request_defaults :: requestOptions where
  "request_defaults =
     \<lparr>ro_config = ''client.json'', ro_info = False, ro_timeout = 30 * Second, ro_limit = MaxApplicationResponseBytes\<rparr>"

definition request_with :: "'h env \<Rightarrow> 'h env \<Rightarrow> 'h client_host \<Rightarrow> string \<Rightarrow> requestOptions \<Rightarrow> reader \<Rightarrow> console \<Rightarrow> check \<times> console" where
  "request_with env env2 host uri opts stdin con =
     (case requestResource env env2 (load_client env host (ro_config opts)) (ro_timeout opts) (ro_limit opts) uri stdin of
        Inl e \<Rightarrow> (Inl e, con)
      | Inr (body, result) \<Rightarrow>
          (case out_put body con of
             (Inl e, con') \<Rightarrow> (Inl e, con')
           | (Inr _, con') \<Rightarrow> if ro_info opts then diagnostic_json (app_result_members result) con' else (Inr (), con')))"

definition requestCommand ::
    "(nat \<Rightarrow> nat \<Rightarrow> nat \<Rightarrow> nat) \<Rightarrow> 'h env \<Rightarrow> 'h env \<Rightarrow> 'h client_host \<Rightarrow> string list \<Rightarrow> reader \<Rightarrow> console \<Rightarrow> check \<times> console" where
  "requestCommand fraction env env2 host args stdin con =
     (case args of
        [] \<Rightarrow> (Inl (Errorf ''usage: deep request deep://node.network/ --config client.json --info < request.json''), con)
      | uri # rest \<Rightarrow>
          if rest = [] \<and> (uri = ''--help'' \<or> uri = ''-h'') then
            (Inr (), out_line ''Usage: deep request deep://node.network/ --config client.json --info < request.json'' con)
          else (case ParseURI uri of
              Inl e \<Rightarrow> (Inl e, con)
            | Inr _ \<Rightarrow>
                (case parseFlags (request_flags fraction) rest request_defaults of
                   Inl e \<Rightarrow> (Inl e, con)
                 | Inr None \<Rightarrow> (Inr (), con)
                 | Inr (Some opts) \<Rightarrow> request_with env env2 host uri opts stdin con)))"

subsection \<open>deep preview\<close>

definition preview_with :: "'h env \<Rightarrow> 'h client_host \<Rightarrow> string \<Rightarrow> string \<Rightarrow> console \<Rightarrow> check \<times> console" where
  "preview_with env host uri config con =
     (case previewURI env (load_client env host config) uri of
        Inl e \<Rightarrow> (Inl e, con)
      | Inr (text, result) \<Rightarrow>
          (case out_put text con of
             (Inl e, con') \<Rightarrow> (Inl e, con')
           | (Inr _, con') \<Rightarrow> diagnostic_json (result_members result) con'))"

definition previewCommand ::
    "'h env \<Rightarrow> 'h client_host \<Rightarrow> string res \<Rightarrow> string list \<Rightarrow> console \<Rightarrow> check \<times> console" where
  "previewCommand env host executable args con =
     (case args of
        [] \<Rightarrow> (Inl (Errorf ''usage: deep preview deep://node.network/path [--config client.json]''), con)
      | uri # rest \<Rightarrow>
          (case ParseURI uri of
             Inl e \<Rightarrow> (Inl e, con)
           | Inr _ \<Rightarrow>
               (case executable of
                  Inl e \<Rightarrow> (Inl e, con)
                | Inr exe \<Rightarrow>
                    (case parseFlags [String_flag ''config'' (\<lambda>s _. s)] rest (Join [Dir exe, ''config.json'']) of
                       Inl e \<Rightarrow> (Inl e, con)
                     | Inr None \<Rightarrow> (Inr (), con)
                     | Inr (Some config) \<Rightarrow> preview_with env host uri config con))))"

subsection \<open>deep serve and the choice of the command\<close>

definition serve_command ::
    "crypto \<Rightarrow> int \<Rightarrow> (string \<Rightarrow> URL option) \<Rightarrow> (string \<Rightarrow> bytes res) \<Rightarrow> (string \<Rightarrow> string res) \<Rightarrow> string \<Rightarrow>
     (string \<Rightarrow> string \<Rightarrow> TLSCertificate res) \<Rightarrow> (string \<Rightarrow> directory res) \<Rightarrow> (string \<Rightarrow> check) \<Rightarrow> string list \<Rightarrow>
     (Server \<times> tlsConfig \<times> provider) option res" where
  "serve_command k now parse disk eval cwd keyPair openRoot listen args =
     (case parseFlags [String_flag ''config'' (\<lambda>s _. s)] args ''server.json'' of
        Inl e \<Rightarrow> Inl e
      | Inr None \<Rightarrow> Inr None
      | Inr (Some path) \<Rightarrow> map_sum id Some (serveNode k now parse disk eval cwd keyPair openRoot listen path))"

text \<open>The command that \<open>run\<close> calls, with the arguments it gets.\<close>

datatype command =
    Print_usage | Print_version | Init_node "string list" | Init_client "string list" | Inspect_certificate "string list"
  | Serve_node "string list" | Request_resource "string list" | Fetch_resource "string list" | Run_demo
  | Proxy_command "string list" | Viewer_command "string list" | Browse_uri "string list" | Preview_command "string list"
  | Open_uri "string list"

definition dispatch :: "string list \<Rightarrow> command res" where
  "dispatch args =
     (case args of
        [] \<Rightarrow> Inr Print_usage
      | name # rest \<Rightarrow>
          if name = ''help'' \<or> name = ''--help'' \<or> name = ''-h'' then Inr Print_usage
          else if name = ''version'' then (if rest \<noteq> [] then Inl (Errorf ''version does not accept arguments'') else Inr Print_version)
          else if name = ''init'' then Inr (Init_node rest)
          else if name = ''client-init'' then Inr (Init_client rest)
          else if name = ''inspect'' then Inr (Inspect_certificate rest)
          else if name = ''serve'' then Inr (Serve_node rest)
          else if name = ''request'' then Inr (Request_resource rest)
          else if name = ''fetch'' then Inr (Fetch_resource rest)
          else if name = ''demo'' then (if rest \<noteq> [] then Inl (Errorf ''demo does not accept arguments'') else Inr Run_demo)
          else if name = ''proxy'' then Inr (Proxy_command rest)
          else if name = ''viewer'' then Inr (Viewer_command rest)
          else if name = ''browse'' then Inr (Browse_uri rest)
          else if name = ''preview'' then Inr (Preview_command rest)
          else if name = ''open-uri'' then Inr (Open_uri rest)
          else Inl (Errorf ''unknown command; use deep --help''))"

subsection \<open>Options are taken literally\<close>

abbreviation bool_text :: "bool \<Rightarrow> string" where
  "bool_text b \<equiv> if b then ''true'' else ''false''"

lemma flag_fields [simp]:
  "flag_name (String_flag n f) = n" "\<not> flag_bool (String_flag n f)" "flag_set (String_flag n f) v x = Some (f v x)"
  "flag_name (Bool_flag n g) = n" "flag_bool (Bool_flag n g)" "flag_set (Bool_flag n g) v x = map_option (\<lambda>b. g b x) (ParseBool v)"
  "flag_name (Scalar_flag p n h) = n" "\<not> flag_bool (Scalar_flag p n h)"
  "flag_set (Scalar_flag p n h) v x = map_option (\<lambda>i. h i x) (p v)"
  by (simp_all add: String_flag_def Bool_flag_def Scalar_flag_def)

lemma ParseBool_text [simp]: "ParseBool (bool_text b) = Some b"
  by (simp add: ParseBool_def)

definition fetch_arguments :: "fetchOptions \<Rightarrow> string list" where
  "fetch_arguments opts =
     [''--config'', fo_config opts, ''--output'', fo_output opts, ''--info='' @ bool_text (fo_info opts),
      ''--timeout'', Itoa (fo_timeout opts) @ ''ns'', ''--max-bytes'', Itoa (fo_maxBytes opts)]"

lemma fetch_arguments_parsed:
  assumes "0 \<le> fo_timeout opts" "fo_timeout opts < 2 ^ 63" "0 \<le> fo_maxBytes opts" "fo_maxBytes opts < 2 ^ 63"
  shows "parseFlags (fetch_flags fraction) (fetch_arguments opts) x = Inr (Some opts)"
proof -
  obtain f1 f2 f3 f4 f5 where f: "fetch_flags fraction = [f1, f2, f3, f4, f5]" by (simp add: fetch_flags_def)
  let ?as = "[(f1, fo_config opts), (f2, fo_output opts), (f3, bool_text (fo_info opts)), (f4, Itoa (fo_timeout opts) @ ''ns''),
    (f5, Itoa (fo_maxBytes opts))]"
  have fs: "f1 = String_flag ''config'' (\<lambda>s p. p\<lparr>fo_config := s\<rparr>)" "f2 = String_flag ''output'' (\<lambda>s p. p\<lparr>fo_output := s\<rparr>)"
    "f3 = Bool_flag ''info'' (\<lambda>b p. p\<lparr>fo_info := b\<rparr>)" "f4 = Duration_flag fraction ''timeout'' (\<lambda>i p. p\<lparr>fo_timeout := i\<rparr>)"
    "f5 = Int64_flag ''max-bytes'' (\<lambda>i p. p\<lparr>fo_maxBytes := i\<rparr>)"
    using f by (simp_all add: fetch_flags_def)
  have "fetch_arguments opts = concat (map written ?as)" using fs by (simp add: fetch_arguments_def written_def)
  moreover have "stores ?as x = Some opts" using fs assms ParseDuration_ns ParseInt0_Itoa by simp
  ultimately show ?thesis
    using parseFlags_written [of "fetch_flags fraction" ?as x opts] unfolding f using fs by (simp add: plain_name_def)
qed

lemma ParseURI_not_option:
  assumes "ParseURI uri = Inr u"
  shows "uri \<noteq> ''--help'' \<and> uri \<noteq> ''-h''"
proof -
  have "\<not> is_ok (ParseURI ''--help'')" "\<not> is_ok (ParseURI ''-h'')" by code_simp+
  then show ?thesis using assms by (auto simp: is_ok_def)
qed

text \<open>
  Property C32: The options of \<open>deep fetch\<close> mean what they say: called with an address and each option
  followed by its value, the command does exactly the transfer with these values, whatever the
  texts are: a file name or a value that begins with dashes is never taken for an option.
\<close>

theorem fetch_command_line:
  assumes "ParseURI uri = Inr u" "0 \<le> fo_timeout opts" "fo_timeout opts < 2 ^ 63" "0 \<le> fo_maxBytes opts" "fo_maxBytes opts < 2 ^ 63"
  shows "fetchResource fraction env host fh (uri #
     [''--config'', fo_config opts, ''--output'', fo_output opts, ''--info='' @ (if fo_info opts then ''true'' else ''false''),
      ''--timeout'', Itoa (fo_timeout opts) @ ''ns'', ''--max-bytes'', Itoa (fo_maxBytes opts)]) con =
   fetch_with env host fh uri opts con"
  using ParseURI_not_option [OF assms(1)] fetch_arguments_parsed [OF assms(2-)] assms(1)
  unfolding fetch_arguments_def by (simp add: fetchResource_def)

theorem fetch_command_line_witness:
  "\<forall>(env :: unit env) host fh con. fetchResource (\<lambda>_ _ _. 0) env host fh [''deep://n.alpha/'', ''--config'', ''--info'', ''--output'', ''-x'',
       ''--info=true'', ''--timeout'', Itoa 5 @ ''ns'', ''--max-bytes'', Itoa 0] con =
     fetch_with env host fh ''deep://n.alpha/''
       \<lparr>fo_config = ''--info'', fo_output = ''-x'', fo_info = True, fo_timeout = 5, fo_maxBytes = 0\<rparr> con"
proof -
  let ?opts = "\<lparr>fo_config = ''--info'', fo_output = ''-x'', fo_info = True, fo_timeout = 5, fo_maxBytes = 0\<rparr>"
  have "is_ok (ParseURI ''deep://n.alpha/'')" by code_simp
  then obtain u where "ParseURI ''deep://n.alpha/'' = Inr u" by (auto simp: is_ok_iff)
  note run = fetch_command_line [OF this, of ?opts]
  show ?thesis
  proof (intro allI)
    fix env :: "unit env" and host fh con
    show "fetchResource (\<lambda>_ _ _. 0) env host fh [''deep://n.alpha/'', ''--config'', ''--info'', ''--output'', ''-x'',
       ''--info=true'', ''--timeout'', Itoa 5 @ ''ns'', ''--max-bytes'', Itoa 0] con = fetch_with env host fh ''deep://n.alpha/'' ?opts con"
      using run [of "\<lambda>_ _ _. 0" env host fh con] by simp
  qed
qed

subsection \<open>What is shown is clean\<close>

lemma out_put_clean:
  assumes "w_script (co_out con) = []" "out_put data con = (r, con')"
  shows "r = Inr ()" "w_out (co_out con') = w_out (co_out con) @ data" "co_diagnostic con' = co_diagnostic con"
  using assms by (auto simp: out_put_def put_def Write_def)

lemma diagnostic_json_out: "diagnostic_json ms con = (r, con') \<Longrightarrow> co_out con' = co_out con"
  by (auto simp: diagnostic_json_def split: prod.splits)

lemma preview_with_out:
  assumes "preview_with env host uri config con = (r, con')" "w_script (co_out con) = []"
  shows "w_out (co_out con') = w_out (co_out con) \<or>
    (\<exists>content result. w_out (co_out con') = w_out (co_out con) @ terminalText content \<and>
       verified (e_sha env) previewLimit result content)"
proof (cases "previewURI env (load_client env host config) uri")
  case (Inl e)
  with assms(1) show ?thesis by (simp add: preview_with_def)
next
  case (Inr p)
  obtain shown result where p: "p = (shown, result)" by fastforce
  obtain x con1 where y: "out_put shown con = (x, con1)" by fastforce
  note c = out_put_clean [OF assms(2) y]
  have out: "co_out con' = co_out con1" using assms(1) Inr p y c(1) by (auto simp: preview_with_def dest: diagnostic_json_out)
  from Inr p obtain cl w where f: "Client_Fetch env (cl\<lparr>cl_MaxBytes := previewLimit\<rparr>) uri fresh_writer = (Inr result, w)"
    and t: "shown = terminalText (w_out w)"
    by (auto simp: previewURI_def split: sum.splits prod.splits)
  have "client_limit (cl\<lparr>cl_MaxBytes := previewLimit\<rparr>) = previewLimit" by (simp add: client_limit_def previewLimit_def)
  with Client_Fetch_ok [OF f] have "verified (e_sha env) previewLimit result (w_out w)" by (auto simp: fresh_writer_def)
  then show ?thesis using c(2) out t by auto
qed


end
