(* ===== verification/Inspect.thy ===== *)
theory Inspect
  imports CommandLine
begin

text \<open>
  \<open>deep inspect\<close> of \<open>src/cmd/deep/identity.go\<close>: what it prints of a certificate. Decoding PEM and the
  texts of names, algorithms and times belong to Go's library and are arguments.
\<close>

text \<open>
  \<open>pem.Decode\<close> gives the type and the bytes of the first block, if there is one, and what follows
  it; the others are \<open>Subject.String\<close>, the names of the two algorithms and a time as RFC 3339.
\<close>

record renderer =
  rd_pem :: "bytes \<Rightarrow> (string \<times> bytes) option \<times> bytes"
  rd_Subject :: "Certificate \<Rightarrow> string"
  rd_PublicKeyAlgorithm :: "Certificate \<Rightarrow> string"
  rd_SignatureAlgorithm :: "sig_alg \<Rightarrow> string"
  rd_Time :: "int \<Rightarrow> string"

text \<open>The documented behaviour: a certificate that was encoded alone is decoded, and nothing follows it.\<close>

definition pem_inverse :: "renderer \<Rightarrow> bool" where
  "pem_inverse rd \<longleftrightarrow> (\<forall>der. rd_pem rd (EncodeToMemory ''CERTIFICATE'' der) = (Some (''CERTIFICATE'', der), []))"

fun usage_code :: "ext_usage \<Rightarrow> nat" where
  "usage_code ServerAuth = 1"
| "usage_code ClientAuth = 2"
| "usage_code (OtherUsage n) = n"

text \<open>A nil slice is printed as \<open>null\<close>; the parser leaves what a certificate does not have nil.\<close>

definition json_slice :: "('a \<Rightarrow> jvalue) \<Rightarrow> 'a list \<Rightarrow> jvalue" where
  "json_slice f xs = (if xs = [] then JNull else JArray (map f xs))"

text \<open>The members of the printed object, in the order in which a Go map is printed.\<close>

definition certificate_members :: "crypto \<Rightarrow> renderer \<Rightarrow> int \<Rightarrow> Certificate \<Rightarrow> (bytes \<times> jvalue) list" where
  "certificate_members k rd now cert =
     [(''authorities'', json_slice JString (x_DNSNames cert)),
      (''not_after'', JString (rd_Time rd (x_NotAfter cert))),
      (''not_before'', JString (rd_Time rd (x_NotBefore cert))),
      (''pin_sha256'', JString (EncodeToString (k_Sum256 k (x_RawSubjectPublicKeyInfo cert)))),
      (''public_key_algorithm'', JString (rd_PublicKeyAlgorithm rd cert)),
      (''signature_algorithm'', JString (rd_SignatureAlgorithm rd (x_SignatureAlgorithm cert))),
      (''subject'', JString (rd_Subject rd cert)),
      (''usage'', json_slice (\<lambda>u. JNumber (Itoa (int (usage_code u)))) (x_ExtKeyUsage cert)),
      (''valid_now'', JBool (\<not> now < x_NotBefore cert \<and> now < x_NotAfter cert))]"

definition inspect_with :: "crypto \<Rightarrow> renderer \<Rightarrow> int \<Rightarrow> (string \<Rightarrow> bytes res) \<Rightarrow> string \<Rightarrow> writer \<Rightarrow> check \<times> writer" where
  "inspect_with k rd now file path out =
     (if path = [] then (Inl (Errorf ''inspect requires --certificate''), out)
      else case file path of
        Inl e \<Rightarrow> (Inl e, out)
      | Inr content \<Rightarrow>
          (let data = take 65537 content
           in if length data > 65536 then (Inl (Errorf ''certificate file exceeds 64 KiB''), out)
              else case rd_pem rd data of
                (Some (kind, der), rest) \<Rightarrow>
                  if kind \<noteq> ''CERTIFICATE'' \<or> TrimSpace rest \<noteq> [] then (Inl (Errorf ''expected exactly one PEM CERTIFICATE''), out)
                  else (case k_ParseCertificate k der of
                      Inl e \<Rightarrow> (Inl e, out)
                    | Inr cert \<Rightarrow> put (json_print (JObject (certificate_members k rd now cert)) @ [CHR 0x0A]) out)
              | (None, rest) \<Rightarrow> (Inl (Errorf ''expected exactly one PEM CERTIFICATE''), out)))"

definition inspectCertificate ::
    "crypto \<Rightarrow> renderer \<Rightarrow> int \<Rightarrow> (string \<Rightarrow> bytes res) \<Rightarrow> string list \<Rightarrow> writer \<Rightarrow> check \<times> writer" where
  "inspectCertificate k rd now file args out =
     (case parseFlags [String_flag ''certificate'' (\<lambda>s _. s)] args [] of
        Inl e \<Rightarrow> (Inl e, out)
      | Inr None \<Rightarrow> (Inr (), out)
      | Inr (Some path) \<Rightarrow> inspect_with k rd now file path out)"

lemma certificate_flag: "parseFlags [String_flag ''certificate'' (\<lambda>s _. s)] [''--certificate'', path] x = Inr (Some path)"
  using parseFlags_written [of "[String_flag ''certificate'' (\<lambda>s _. s)]" "[(String_flag ''certificate'' (\<lambda>s _. s), path)]" x path]
  by (simp add: written_def plain_name_def)

text \<open>
  Property C26: \<open>deep inspect\<close> shows the identity that was generated: for the certificate file of
  \<open>GenerateIdentity\<close> it succeeds and prints one line of JSON with the pin that was handed out, the
  authority as the only name, and that the certificate is valid, from its creation to the last
  second of its validity.
\<close>

theorem inspect_shows_identity:
  assumes "GenerateIdentity k iss now authority validFor = Inr (cert, key, pin)" "issues k iss" "pem_inverse rd"
    "now \<le> t" "t \<le> now + validFor - Second" "path \<noteq> []" "file path = Inr cert" "length cert \<le> 65536" "w_script out = []"
  shows "\<exists>ms. inspectCertificate k rd t file [''--certificate'', path] out =
       (Inr (), out\<lparr>w_out := w_out out @ json_print (JObject ms) @ [CHR 0x0A]\<rparr>) \<and>
     map_of ms ''pin_sha256'' = Some (JString pin) \<and> map_of ms ''authorities'' = Some (JArray [JString authority]) \<and>
     map_of ms ''valid_now'' = Some (JBool True)"
proof -
  from assms(1) have g: "generateIdentity k iss now authority validFor ServerAuth = Inr (cert, key, pin)" by (simp add: GenerateIdentity_def)
  show ?thesis
  proof (rule generated [OF g assms(2)])
    fix der pub c
    assume der: "cert = EncodeToMemory ''CERTIFICATE'' der" and c: "k_ParseCertificate k der = Inr c"
      and pin: "pin = EncodeToString (k_Sum256 k (x_RawSubjectPublicKeyInfo c))" and names: "x_DNSNames c = [authority]"
      and valid: "x_NotBefore c \<le> now" "now + validFor - Second < x_NotAfter c"
    let ?ms = "certificate_members k rd t c"
    have pem: "rd_pem rd cert = (Some (''CERTIFICATE'', der), [])" using assms(3) by (simp add: der pem_inverse_def)
    have "take 65537 cert = cert" using assms(8) by simp
    then have "inspect_with k rd t file path out = put (json_print (JObject ?ms) @ [CHR 0x0A]) out"
      using assms(6-8) pem c by (simp add: inspect_with_def TrimSpace_def)
    moreover have "map_of ?ms ''pin_sha256'' = Some (JString pin)" "map_of ?ms ''authorities'' = Some (JArray [JString authority])"
      "map_of ?ms ''valid_now'' = Some (JBool True)"
      using assms(4,5) valid by (simp_all add: certificate_members_def pin names json_slice_def)
    ultimately show ?thesis
      using assms(9) by (intro exI [of _ ?ms]) (simp add: inspectCertificate_def certificate_flag put_def Write_def)
  qed
qed

definition sample_pem :: "bytes \<Rightarrow> (string \<times> bytes) option \<times> bytes" where
  "sample_pem s =
     (case b64_decode (filter (\<lambda>c. c \<noteq> CHR 0x0A) (take (length s - 54) (drop 28 s))) of
        Some der \<Rightarrow> (Some (''CERTIFICATE'', der), []) | None \<Rightarrow> (None, s))"

definition sample_renderer :: renderer where
  "sample_renderer = \<lparr>rd_pem = sample_pem, rd_Subject = (\<lambda>_. []), rd_PublicKeyAlgorithm = (\<lambda>_. []),
     rd_SignatureAlgorithm = (\<lambda>_. []), rd_Time = (\<lambda>_. [])\<rparr>"

lemma pem_lines_filter: "CHR 0x0A \<notin> set s \<Longrightarrow> filter (\<lambda>c. c \<noteq> CHR 0x0A) (pem_lines s) = s"
proof (induction s rule: pem_lines.induct)
  case (1 s)
  show ?case
  proof (cases "s = []")
    case False
    have "filter (\<lambda>c. c \<noteq> CHR 0x0A) (take 64 s) = take 64 s" using 1(2) by (auto simp: filter_id_conv dest: in_set_takeD)
    moreover have "CHR 0x0A \<notin> set (drop 64 s)" using 1(2) by (auto dest: in_set_dropD)
    ultimately show ?thesis using 1(1) False by (subst pem_lines.simps) simp
  qed (simp add: pem_lines.simps)
qed

lemma pem_lines_length: "length (pem_lines s) \<le> 2 * length s"
proof (induction s rule: pem_lines.induct)
  case (1 s)
  then show ?case by (subst pem_lines.simps) (cases s; auto simp: min_def)
qed

lemma sample_pem_inverse: "pem_inverse sample_renderer"
proof -
  have "sample_pem (EncodeToMemory ''CERTIFICATE'' der) = (Some (''CERTIFICATE'', der), [])" for der
  proof -
    have "CHR 0x0A \<notin> set (b64_encode der)" using b64_encode_chars [of der] by auto
    note f = pem_lines_filter [OF this]
    show ?thesis by (simp add: sample_pem_def EncodeToMemory_def f b64_decode_encode)
  qed
  then show ?thesis by (simp add: pem_inverse_def sample_renderer_def)
qed

theorem inspect_shows_identity_witness:
  "\<exists>cert key ms. GenerateIdentity sample_generating careful_issuer Minute ''n.alpha'' Minute = Inr (cert, key, sample_pin) \<and>
     inspectCertificate sample_generating sample_renderer Minute (\<lambda>_. Inr cert) [''--certificate'', ''identity.crt''] fresh_writer =
       (Inr (), fresh_writer\<lparr>w_out := json_print (JObject ms) @ [CHR 0x0A]\<rparr>) \<and> map_of ms ''pin_sha256'' = Some (JString sample_pin)"
proof -
  let ?cert = "EncodeToMemory ''CERTIFICATE'' ''der''"
  obtain key where g: "GenerateIdentity sample_generating careful_issuer Minute ''n.alpha'' Minute = Inr (?cert, key, sample_pin)"
    using sample_generated by (rule exE)
  have l: "length ?cert \<le> 65536"
    using pem_lines_length [of "b64_encode ''der''"] by (simp add: EncodeToMemory_def)
  have m0: "Minute \<le> Minute + Minute - Second" and w: "w_script fresh_writer = []" by (simp_all add: Minute_def Second_def fresh_writer_def)
  obtain ms where m: "inspectCertificate sample_generating sample_renderer Minute (\<lambda>_. Inr ?cert) [''--certificate'', ''identity.crt''] fresh_writer =
      (Inr (), fresh_writer\<lparr>w_out := w_out fresh_writer @ json_print (JObject ms) @ [CHR 0x0A]\<rparr>)" "map_of ms ''pin_sha256'' = Some (JString sample_pin)"
    using inspect_shows_identity [OF g careful_issues sample_pem_inverse order_refl m0 _ _ l w, of "''identity.crt''" "\<lambda>_. Inr ?cert"]
    by blast
  have e: "fresh_writer\<lparr>w_out := w_out fresh_writer @ x\<rparr> = fresh_writer\<lparr>w_out := x\<rparr>" for x by (simp add: fresh_writer_def)
  show ?thesis by (intro exI [of _ ?cert] exI [of _ key] exI [of _ ms] conjI g m(1) [unfolded e] m(2))
qed

end
