(* ===== verification/Greeting.thy ===== *)
theory Greeting
  imports NewNode
begin

text \<open>
  What a node that \<open>deep init\<close> just created serves: the content directory on the disk, seen by the
  file provider, is a tree with one file.
\<close>

text \<open>
  The root of the file provider shows the names of a disk below a directory while nobody changes
  them: the answers of \<open>Lstat\<close> and \<open>OpenFile\<close> at any moment.
\<close>

definition shows_disk :: "directory \<Rightarrow> disk \<Rightarrow> string \<Rightarrow> bool" where
  "shows_disk root d dir \<longleftrightarrow> (\<forall>t name.
     case dk_names d (Join [dir, name]) of
       None \<Rightarrow> \<not> is_ok (sn_Lstat (root t) name)
     | Some (Regular_file i content) \<Rightarrow>
         sn_Lstat (root t) name = Inr (tree_info (Regular i content)) \<and>
         (\<exists>body. sn_Open (root t) name = Inr (Inr (tree_info (Regular i content)), body) \<and> stream body = content \<and> r_end body = EOF)
     | Some Directory \<Rightarrow> sn_Lstat (root t) name = Inr (tree_info (Folder []))
     | Some (Other_file b r) \<Rightarrow> True)"

abbreviation greeting_tree :: "nat \<Rightarrow> string \<Rightarrow> tree" where
  "greeting_tree i authority \<equiv> Folder [(''index.txt'', Regular i (welcome_text authority))]"

lemma safe_path_elem: "safe_part p \<Longrightarrow> path_elem p"
  using safe_part_names [of p] by (simp add: path_elem_def)

lemma content_member:
  assumes "\<forall>q\<in>set ps. path_elem q" "path_elem p"
  shows "Join [Join [rooted ps, ''content''], p] = rooted (ps @ [''content'', p])"
proof -
  have c: "Join [rooted ps, ''content''] = rooted (ps @ [''content''])" using node_path [OF assms(1), of "''content''"] by simp
  have "Split p (CHR ''/'') = [p]" using assms(2) Split_no_sep [of "CHR ''/''" p] by (simp add: path_elem_def)
  then have "Join [rooted (ps @ [''content'']), p] = rooted ((ps @ [''content'']) @ [p])"
    using assms Join_rooted [of "ps @ [''content'']" p] by (simp add: path_elem_def)
  then show ?thesis unfolding c by simp
qed

lemma created_content:
  assumes "create_node k iss iss2 now parse cwd opts d = (Inr (target, pin), d')" "undisturbed d" "IsAbs cwd"
    "consistent (Abs cwd (io_dir opts)) d" "io_upstream opts = []"
  obtains i where "\<forall>p. path_elem p \<longrightarrow> dk_names d' (Join [Join [target, ''content''], p]) =
    (if p = ''index.txt'' then Some (Regular_file i (welcome_text (io_authority opts))) else None)"
  using assms(1-4)
proof (cases rule: create_node_cases)
  case (made cert key pin' client)
  obtain ps where ps: "Abs cwd (io_dir opts) = rooted ps" "\<forall>q\<in>set ps. path_elem q" using Abs_rooted [OF assms(3)] .
  have t: "target = rooted ps" using made(5) ps(1) by simp
  let ?fs = "node_files opts (cert, key, pin') client"
  have index: "Join [rooted ps, ''content/index.txt''] = rooted (ps @ [''content'', ''index.txt''])"
    using node_path [OF ps(2), of "''content/index.txt''"] by (simp add: node_names_def)
  have "(''content/index.txt'', welcome_text (io_authority opts)) \<in> set ?fs"
    using assms(5) by (simp add: node_files_def init_files_def content_index)
  then obtain i where i: "dk_names d' (rooted (ps @ [''content'', ''index.txt''])) = Some (Regular_file i (welcome_text (io_authority opts)))"
    using made(8) index unfolding ps(1) by fastforce
  have "dk_names d' (rooted (ps @ [''content'', p])) = None" if p: "path_elem p" "p \<noteq> ''index.txt''" for p
  proof -
    let ?n = "rooted (ps @ [''content'', p])"
    have elems: "\<forall>q\<in>set (ps @ [''content'', p]). path_elem q" using ps(2) p(1) by (simp add: path_elem_def)
    have other: "?n \<noteq> rooted (ps @ qs)" if "\<forall>q\<in>set qs. path_elem q" "qs \<noteq> [''content'', p]" for qs
    proof
      assume e: "?n = rooted (ps @ qs)"
      have "ps @ [''content'', p] = ps @ qs" by (rule rooted_inject [OF elems _ e]) (use ps(2) that(1) in \<open>simp add: ball_Un\<close>)
      then show False using that(2) by simp
    qed
    have "?n \<noteq> rooted ps" "?n \<noteq> Join [rooted ps, ''content'']"
      using other [of "[]"] other [of "[''content'']"] node_path [OF ps(2), of "''content''"] by (simp_all add: path_elem_def)
    moreover have "?n \<notin> (\<lambda>f. Join [rooted ps, fst f]) ` set ?fs"
    proof
      assume "?n \<in> (\<lambda>f. Join [rooted ps, fst f]) ` set ?fs"
      then obtain f where f: "f \<in> set ?fs" "?n = Join [rooted ps, fst f]" by blast
      from f(1) obtain qs where "qs \<in> node_names" "Join [rooted ps, fst f] = rooted (ps @ qs)" by (rule node_file_path [OF ps(2)])
      then show False using other [of qs] node_path_elems [of qs] f(2) p(2) by (auto simp: node_names_def)
    qed
    moreover have "dk_names d ?n = None"
      using assms(4) made(6) within_child [of "[''content'', p]" ps] unfolding consistent_def ps(1) by simp
    ultimately show ?thesis using made(9) unfolding ps(1) by simp
  qed
  then show thesis using that [of i] i content_member [OF ps(2)] unfolding t by simp
qed simp

lemma greeting_at_rest:
  assumes "create_node k iss iss2 now parse cwd opts d = (Inr (target, pin), d')" "undisturbed d" "IsAbs cwd"
    "consistent (Abs cwd (io_dir opts)) d" "io_upstream opts = []" "shows_disk root d' (Join [target, ''content''])"
  obtains i where "at_rest root (greeting_tree i (io_authority opts))"
proof -
  obtain i where i: "\<forall>p. path_elem p \<longrightarrow> dk_names d' (Join [Join [target, ''content''], p]) =
    (if p = ''index.txt'' then Some (Regular_file i (welcome_text (io_authority opts))) else None)"
    by (rule created_content [OF assms(1-5)])
  have "case lookup (greeting_tree i (io_authority opts)) parts of
        None \<Rightarrow> \<not> is_ok (sn_Lstat (root t) (join (CHR ''/'') parts))
      | Some x \<Rightarrow> sn_Lstat (root t) (join (CHR ''/'') parts) = Inr (tree_info x) \<and>
          (case x of
             Regular n content \<Rightarrow> (\<exists>body. sn_Open (root t) (join (CHR ''/'') parts) = Inr (Inr (tree_info x), body) \<and>
                stream body = content \<and> r_end body = EOF)
           | _ \<Rightarrow> True)"
    if p: "\<forall>p\<in>set parts. safe_part p" "parts \<noteq> []" "is_folder (lookup (greeting_tree i (io_authority opts)) (butlast parts))" for t parts
  proof -
    obtain p where one: "parts = [p]"
    proof (cases "butlast parts")
      case Nil
      then show thesis using p(2) that [of "last parts"] by (metis append_Nil append_butlast_last_id)
    next
      case (Cons a as)
      with p(3) have False by (cases as) (auto split: if_splits)
      then show thesis ..
    qed
    have s: "path_elem p" using p(1) one safe_path_elem by simp
    from assms(6) have "case dk_names d' (Join [Join [target, ''content''], p]) of
       None \<Rightarrow> \<not> is_ok (sn_Lstat (root t) p)
     | Some (Regular_file i content) \<Rightarrow>
         sn_Lstat (root t) p = Inr (tree_info (Regular i content)) \<and>
         (\<exists>body. sn_Open (root t) p = Inr (Inr (tree_info (Regular i content)), body) \<and> stream body = content \<and> r_end body = EOF)
     | Some Directory \<Rightarrow> sn_Lstat (root t) p = Inr (tree_info (Folder []))
     | Some (Other_file b r) \<Rightarrow> True" unfolding shows_disk_def by blast
    then show ?thesis using i s one by (cases "p = ''index.txt''") auto
  qed
  then show thesis by (intro that [of i]) (simp add: at_rest_def)
qed

lemma serve_greeting:
  assumes "int (length (welcome_text authority)) \<le> MaxResourceSize"
  shows "serve_tree mime (greeting_tree i authority) ''/'' = Inr (welcome_text authority, media_type mime ''/index.txt'')"
proof -
  have "Split ''index.html'' (CHR ''/'') = [''index.html'']" "Split ''index.txt'' (CHR ''/'') = [''index.txt'']" by (simp_all add: Split_no_sep)
  then show ?thesis using assms
    by (simp add: serve_tree_def file_at_def HasSuffix_def HasPrefix_def TrimPrefix_def unsafe_part_def ContainsAny_def Let_def)
qed

lemma welcome_length: "ValidateAuthority a = Inr () \<Longrightarrow> length (welcome_text a) \<le> 1000"
  using authority_text(1) [of a] by (simp add: welcome_text_def)

text \<open>The address of the new node.\<close>

lemma root_address:
  assumes "ValidateAuthority a = Inr ()"
  obtains uri where "ParseURI (''deep://'' @ a @ ''/'') = Inr uri" "u_Authority uri = a" "u_Path uri = ''/''" "u_Query uri = []"
proof -
  from assms obtain node network where a: "a = node @ CHR ''.'' # network" "label_chars True node" "label_chars False network"
    using ValidateAuthority_ok [of a] by (auto simp: is_ok_def)
  let ?u = "\<lparr>u_Authority = a, u_Node = node, u_Network = network, u_Path = ''/'', u_Query = [], u_Fragment = []\<rparr>"
  have "is_ok (ValidateResource ''/'' [])" by code_simp
  then have "uri_wf ?u" using a assms label_chars_no_dot by (auto simp: uri_wf_def is_ok_def)
  moreover have "format_uri ?u = ''deep://'' @ a @ ''/''" by (simp add: format_uri_def scheme_prefix_def)
  moreover have "length (''deep://'' @ a @ ''/'') \<le> MaxURILength" using authority_text(1) [OF assms] by (simp add: MaxURILength_def)
  ultimately have "ParseURI (''deep://'' @ a @ ''/'') = Inr ?u" using ParseURI_formatted [of ?u] by simp
  then show thesis by (rule that) simp_all
qed

end
