(* ===== verification/Spec2Isabelle.thy ===== *)
theory Spec2Isabelle
  imports Inspect Greeting
begin

text \<open>
  DEEP is an authenticated request protocol: a client resolves an authority
  (\<open>node.network\<close>) to an endpoint with a pinned post-quantum identity, opens a TLS 1.3
  connection to it, and over that connection exchanges framed messages (HELLO, WELCOME,
  REQUEST, CONTINUE, RESPONSE, DATA, END, ERROR, CLOSE) to fetch resources or to make
  application requests. This development models the Go package under \<open>src/\<close>.

  \<^bold>\<open>Theories.\<close>
  \<^item> \<open>Prelude\<close>, \<open>GoLib\<close>: byte strings, error values, readers that fragment their stream and
    writers that follow a script of partial writes and failures; the parts of Go's \<open>strings\<close>,
    \<open>utf8\<close>, \<open>unicode\<close>, \<open>strconv\<close> and \<open>hex\<close> that the program calls.
  \<^item> \<open>Json\<close>, \<open>JsonCodec\<close>, \<open>JsonStruct\<close>: \<open>encoding/json\<close> as the program uses it: the token
    stream of a decoder, the tree it builds, printing, and decoding into structs; every
    printed value is read back.
  \<^item> \<open>Uri\<close>: \<open>src/uri.go\<close>. Parsing accepts only canonical addresses and inverts printing.
  \<^item> \<open>Protocol\<close>, \<open>Metadata\<close>, \<open>Messages\<close>, \<open>Wire\<close>: \<open>src/protocol.go\<close>. Frames are read and
    written byte by byte with request IDs and lengths as 32-bit words; the metadata
    validator is characterised exactly; the locale \<open>message_codec\<close> holds what follows for a
    stream of messages from the law that reading inverts writing, and \<open>metadata_struct\<close> what
    each metadata record promises, interpreted for all of them.
  \<^item> \<open>Limits\<close>: \<open>src/limits.go\<close> and the accept loop \<open>Serve\<close> of \<open>src/server.go\<close>. The loop and
    the goroutines of its connections are a step relation on the state they share, so its
    properties hold for every interleaving; \<open>admission\<close> is the contract of the limiter.
  \<^item> \<open>Security\<close>: the identity and TLS policy of \<open>src/security.go\<close>. Certificate parsing,
    signature checks and SHA-256 belong to Go's cryptography and are the argument \<open>k\<close>.
  \<^item> \<open>Adapters\<close>: \<open>src/adapters.go\<close>: endpoints, registry, static adapters; the locale
    \<open>resolver\<close> is what clients rely on.
  \<^item> \<open>Conn\<close>, \<open>Serving\<close>, \<open>Client\<close>: \<open>src/server.go\<close>, \<open>src/client.go\<close>, \<open>src/application.go\<close> as
    state-passing programs over one connection record: its two streams, the destination of
    a body, deadlines, the answers of the coming \<open>ctx.Err\<close> and \<open>Set*Deadline\<close> calls, a clock
    that advances by arbitrary amounts, the limiter and the provider's own state.
  \<^item> \<open>ConfigJson\<close>, \<open>Config\<close>: the rest of \<open>src/adapters.go\<close>: the strict decoder of
    configuration files, resolver programs, and the way from a file to a registry and a
    client. \<open>config_struct\<close> is the contract of a struct decoded strictly. Go's maps are
    association lists in the order in which they are visited.
  \<^item> \<open>Net\<close>, \<open>Proxy\<close>: numeric IP addresses, the limiter's key of a connection, and the local
    proxy protocol of \<open>src/proxy.go\<close>, whose frames interpret \<open>message_codec\<close> again.
  \<^item> \<open>Paths\<close>, \<open>Files\<close>: the lexical file names of \<open>path/filepath\<close>, and the provider of
    \<open>src/resources.go\<close> over a directory that other programs may change at any time; on a
    directory at rest it refines the lookup in a tree.
  \<^item> \<open>Upstream\<close>: \<open>src/http_upstream.go\<close>: which local addresses are dialled, what of a request
    reaches the local service, what of its answer is passed on, and the slots as a step relation.
  \<^item> \<open>Node\<close>: \<open>deep serve\<close> of \<open>src/cmd/deep/config.go\<close> up to the accept loop.
  \<^item> \<open>Terminal\<close>, \<open>Commands\<close>, \<open>Base64\<close>, \<open>Requests\<close>: \<open>deep preview\<close>, \<open>deep fetch\<close> and \<open>deep request\<close>
    of \<open>src/cmd/deep\<close>.
  \<^item> \<open>JsonIndent\<close>, \<open>Disk\<close>, \<open>Flags\<close>: what the settings commands need of Go's library: indented JSON
    and that it is read back; names and files of a disk whose operations follow a script of
    failures and of changes by other programs; the \<open>flag\<close> package.
  \<^item> \<open>Viewer\<close>: \<open>viewer_settings.go\<close>, \<open>browse.go\<close> and \<open>openURI\<close> of \<open>src/cmd/deep\<close>: the settings are
    replaced as a whole or not at all, and only an enabled viewer is started.
  \<^item> \<open>ProxySettings\<close>: \<open>deep proxy\<close> of \<open>proxy_settings.go\<close>: it replaces the proxy of a configuration
    and nothing else, or leaves the file as it was.
  \<^item> \<open>Identity\<close>, \<open>NewNode\<close>: \<open>generateIdentity\<close> of \<open>src/security.go\<close>, \<open>deep init\<close> and
    \<open>deep client-init\<close> of \<open>identity.go\<close>: what they write is what \<open>deep serve\<close> and the client load.
  \<^item> \<open>Greeting\<close>: the content directory of a new node as the file provider sees it.
  \<^item> \<open>Options\<close>, \<open>CommandLine\<close>, \<open>Inspect\<close>: options with numbers and durations; \<open>deep fetch\<close>, \<open>deep request\<close>,
    \<open>deep preview\<close>, \<open>deep serve\<close> and \<open>deep inspect\<close> from their arguments to what they print.
  \<^item> This theory: properties across components, from a file of the served directory through
    \<open>transfer\<close> on the server to \<open>Fetch\<close> on the client and the file that \<open>deep fetch\<close> publishes,
    from \<open>deep init\<close> to the greeting that a client receives, and \<open>Dial\<close> down to the TLS policy.

  \<^bold>\<open>Errors and loops.\<close> A fallible function returns a sum whose left part is the error; a
  method on a stream or connection also returns its new state. Loops are total functions:
  reading loops shorten the input, sending loops the rest of the body. The server's session
  loop ends because each round consumes input; no fuel is used.

  \<^bold>\<open>Not modelled.\<close> Goroutines other than those of \<open>Serve\<close> (\<open>context.AfterFunc\<close> closing a
  connection shows as a failing read or write), TLS records and cryptography (fresh keys and
  certificates are arguments of \<open>generateIdentity\<close>), sockets, file modes and the operating
  system's file systems beyond what \<open>Files\<close>, \<open>Commands\<close> and \<open>Disk\<close> say of them; of the programs
  under \<open>src/cmd\<close> the usage texts, what the \<open>flag\<close> package prints, the success messages of \<open>deep init\<close>
  and \<open>deep client-init\<close>, and \<open>deep demo\<close>, which runs two of the modelled servers and a client in one
  process. What is taken from Go's library as an argument is named where it is used: parsing and
  signing certificates, \<open>url.Parse\<close>, \<open>pem.Decode\<close>, the tables of MIME types, the floating-point
  product of \<open>time.ParseDuration\<close>, and running programs.
\<close>

subsection \<open>A transfer, seen from the other side\<close>

definition response_frame :: "32 word \<Rightarrow> string \<Rightarrow> int \<Rightarrow> Frame" where
  "response_frame rid media sz = \<lparr>f_Type = Response, f_RequestID = rid,
     f_Metadata = json_print (JObject (response_members \<lparr>sm_MediaType = media, sm_Size = sz\<rparr>)), f_Body = []\<rparr>"

definition request_frame :: "32 word \<Rightarrow> URI \<Rightarrow> string \<Rightarrow> Frame" where
  "request_frame rid uri operation = \<lparr>f_Type = Request, f_RequestID = rid,
     f_Metadata = json_print (JObject (request_members \<lparr>rm_Authority = u_Authority uri,
       rm_Path = u_Path uri, rm_Query = u_Query uri, rm_Operation = operation\<rparr>)), f_Body = []\<rparr>"

lemma MaxResourceSize_int64: "0 \<le> n \<Longrightarrow> n \<le> MaxResourceSize \<Longrightarrow> int64_ok n"
  by (simp add: MaxResourceSize_def int64_ok_def)

lemma transfer_ok:
  assumes "transfer sha srv h rid request c = (Inr (), c')"
  obtains resource a body chunks where
    "hd_Open h (c_app c) (rm_Path request) (rm_Query request) = (Inr resource, a)"
    "rs_Body resource = Some body" "0 \<le> rs_Size resource" "rs_Size resource \<le> MaxResourceSize"
    "validateMediaType (rs_MediaType resource)" "rs_Size resource \<le> s_MaxBytes srv"
    "stream body = concat chunks" "int (length (stream body)) = rs_Size resource"
    "frame_ok (response_frame rid (rs_MediaType resource) (rs_Size resource))"
    "\<forall>ch\<in>set chunks. frame_ok (data_frame rid ch)"
    "frame_ok (end_frame rid (rs_Size resource) (EncodeToString (sha (stream body))))"
    "w_out (c_out c') = w_out (c_out c) @
       encode_frame (response_frame rid (rs_MediaType resource) (rs_Size resource)) @
       concat (map (\<lambda>ch. encode_frame (data_frame rid ch)) chunks) @
       encode_frame (end_frame rid (rs_Size resource) (EncodeToString (sha (stream body))))"
proof -
  from assms obtain resource c1 body u c2 p c3 where
    o: "call_Open h (rm_Path request) (rm_Query request) c = (Inr resource, c1)"
    and b: "rs_Body resource = Some body" and n: "0 \<le> rs_Size resource" "rs_Size resource \<le> MaxResourceSize"
    and m: "validateMediaType (rs_MediaType resource)" and mx: "rs_Size resource \<le> s_MaxBytes srv"
    and r: "conn_send Response rid (response_members \<lparr>sm_MediaType = rs_MediaType resource,
      sm_Size = rs_Size resource\<rparr>) [] c1 = (Inr u, c2)"
    and l: "chunk_loop ''resource ended before its announced size'' rid (rs_Size resource) 0 [] body c2 = (Inr p, c3)"
    and e: "finish_body sha ''resource size changed during transfer'' rid p c3 = (Inr (), c')"
    by (auto simp: transfer_def res_simps not_less split: option.splits)
  obtain t acc b' where p: "p = (t, acc, b')" by (cases p) auto
  from e p have be: "body_ended b'" and s: "conn_send End rid (end_members \<lparr>em_Size = t,
      em_SHA256 = EncodeToString (sha acc)\<rparr>) [] c3 = (Inr (), c')"
    by (auto simp: finish_body_def res_simps)
  from chunk_loop_ok [OF l [unfolded p]] obtain chunks where
    ch: "acc = [] @ concat chunks" "stream body = concat chunks @ stream b'"
      "t = 0 + int (length (concat chunks))" "0 \<le> rs_Size resource \<longrightarrow> t = rs_Size resource"
      "w_out (c_out c3) = w_out (c_out c2) @ concat (map (\<lambda>ch. encode_frame (data_frame rid ch)) chunks)"
      "\<forall>ch\<in>set chunks. frame_ok (data_frame rid ch)" by blast
  have "stream b' = []" using be by (simp add: body_ended_iff)
  then have st: "stream body = concat chunks" "t = rs_Size resource" "acc = stream body" using ch n by simp_all
  obtain a where a: "hd_Open h (c_app c) (rm_Path request) (rm_Query request) = (Inr resource, a)"
    "c_out c1 = c_out c" using o by (auto simp: call_Open_def split: prod.splits)
  note fr = conn_send_frame [OF r, folded response_frame_def] and fe = conn_send_frame [OF s]
  show thesis
    by (rule that [OF a(1) b n m mx st(1)])
      (use fr fe ch(3,5,6) st a(2) in \<open>simp_all add: end_frame_def response_frame_def\<close>)
qed

lemma fetch_body_complete:
  assumes out: "frame_ok (request_frame rid uri ''FETCH'')" "w_script (c_out c) = []"
    and inp: "stream (c_in c) = encode_frame (response_frame rid media sz) @
       concat (map (\<lambda>ch. encode_frame (data_frame rid ch)) chunks) @
       encode_frame (end_frame rid sz (EncodeToString (sha (concat chunks)))) @ rest"
    and ok: "frame_ok (response_frame rid media sz)" "\<forall>ch\<in>set chunks. frame_ok (data_frame rid ch)"
      "frame_ok (end_frame rid sz (EncodeToString (sha (concat chunks))))"
    and m: "validateMediaType media" "0 \<le> sz" "sz \<le> MaxResourceSize" "sz \<le> se_maxBytes s"
      "int (length (concat chunks)) = sz"
    and clean: "w_script (c_dest c) = []" "c_ctx c = []" "c_set c = []"
  shows "\<exists>c'. fetch_body sha s uri rid c =
      (Inr \<lparr>re_MediaType = media, re_Size = sz, re_SHA256 = EncodeToString (sha (concat chunks)),
            re_Security = se_Security s\<rparr>, c') \<and>
    w_out (c_dest c') = w_out (c_dest c) @ concat chunks \<and> stream (c_in c') = rest"
proof -
  let ?c1 = "c\<lparr>c_out := (c_out c)\<lparr>w_out := w_out (c_out c) @ encode_frame (request_frame rid uri ''FETCH'')\<rparr>\<rparr>"
  let ?m = "\<lparr>sm_MediaType = media, sm_Size = sz\<rparr>"
  have 1: "conn_send Request rid (request_members \<lparr>rm_Authority = u_Authority uri, rm_Path = u_Path uri,
      rm_Query = u_Query uri, rm_Operation = ''FETCH''\<rparr>) [] c = (Inr (), ?c1)"
    using conn_send_clean [OF out [unfolded request_frame_def]] by (simp add: request_frame_def)
  obtain r where r: "conn_read ?c1 = (Inr (response_frame rid media sz), ?c1\<lparr>c_in := r\<rparr>)"
    "stream r = concat (map (\<lambda>ch. encode_frame (data_frame rid ch)) chunks) @
       encode_frame (end_frame rid sz (EncodeToString (sha (concat chunks)))) @ rest"
    using conn_read_frame [OF ok(1), of ?c1] inp by auto
  let ?c2 = "?c1\<lparr>c_in := r\<rparr>"
  have x: "expect (response_frame rid media sz) Response rid = Inr ()"
    by (simp add: expect_def response_frame_def)
  have good: "response_good ?m"
    using m by (simp add: response_good_def validateMediaType_utf8 MaxResourceSize_int64)
  have d: "DecodeMetadata (response_frame rid media sz) response_table response_zero [''media_type'', ''size''] = Inr ?m"
    by (rule response_msg.decode_print [OF good])
      (use ok(1) in \<open>simp_all add: frame_ok_def is_ok_unit response_frame_def\<close>)
  obtain q where q: "receive_loop ''response request ID mismatch'' ''resource size or SHA-256 mismatch''
      sha rid sz 0 [] ?c2 = (Inr (EncodeToString (sha ([] @ concat chunks))),
       ?c2\<lparr>c_in := q, c_dest := (c_dest ?c2)\<lparr>w_out := w_out (c_dest ?c2) @ concat chunks\<rparr>\<rparr>)" "stream q = rest"
    using receive_loop_complete [of ?c2 rid chunks sz sha "[]" rest 0 "''response request ID mismatch''"
        "''resource size or SHA-256 mismatch''"] r(2) ok(2,3) m clean MaxResourceSize_int64 by auto
  have g: "\<not> sz < 0" "\<not> MaxResourceSize < sz" "\<not> se_maxBytes s < sz" using m by simp_all
  show ?thesis
    unfolding fetch_body_def
    by (simp add: andThen_def 1 r(1) lift_def x d m(1) g q(1) [simplified] SetDeadline_clean
        clean ret_def q(2))
qed

lemma plain_keys:
  "escape_body ''media_type'' = ''media_type''" "escape_body ''size'' = ''size''"
  "escape_body ''authority'' = ''authority''" "escape_body ''path'' = ''path''"
  "escape_body ''query'' = ''query''" "escape_body ''operation'' = ''operation''"
  by (rule escape_body_plain, simp)+

lemma response_frame_ok:
  assumes "rid \<noteq> 0" "validateMediaType media" "0 \<le> sz" "sz \<le> MaxResourceSize"
  shows "frame_ok (response_frame rid media sz)"
proof -
  let ?m = "\<lparr>sm_MediaType = media, sm_Size = sz\<rparr>"
  have i: "int64_ok sz" using assms(3,4) by (rule MaxResourceSize_int64)
  have g: "response_good ?m" using i assms(2) by (simp add: response_good_def validateMediaType_utf8)
  have "length media \<le> 255" using assms(2) by (simp add: validateMediaType_def split: if_splits)
  then have "length (json_print (JObject (response_members ?m))) \<le> MaxMetadataSize"
    using Itoa_length [OF i] escape_body_length [of media]
    by (simp add: response_members_def json_quote_def plain_keys MaxMetadataSize_def)
  from response_msg.print_valid [OF g this] show ?thesis
    unfolding response_frame_def by (rule frame_ok_nobody [OF _ assms(1)]) simp
qed

lemma request_frame_ok:
  assumes "rid \<noteq> 0" "ParseURI raw = Inr uri" "length operation \<le> 20" "utf8_valid operation"
    "length (u_Authority uri) + length (u_Path uri) + length (u_Query uri) \<le> 1300"
  shows "frame_ok (request_frame rid uri operation)"
proof -
  let ?m = "\<lparr>rm_Authority = u_Authority uri, rm_Path = u_Path uri, rm_Query = u_Query uri,
    rm_Operation = operation\<rparr>"
  have wf: "uri_wf uri" using assms(2) by (auto elim: ParseURI_authority intro: parse_tail_wf)
  have 1: "\<forall>c\<in>set (u_Path uri). ord c < 128" "\<forall>c\<in>set (u_Query uri). ord c < 128"
    using component_range(2) [OF uri_wfD(4) [OF wf]] component_range(2) [OF uri_wfD(5) [OF wf]] by force+
  have 2: "\<forall>c\<in>set (u_Authority uri). ord c < 128"
    using authority_chars(2) [OF uri_wfD(1) [OF wf]] by force
  from 1 2 have g: "request_good ?m" using assms(4) by (simp add: request_good_def utf8_valid_ascii)
  have "length (json_print (JObject (request_members ?m))) \<le> MaxMetadataSize"
    using escape_body_length [of "u_Authority uri"] escape_body_length [of "u_Path uri"]
      escape_body_length [of "u_Query uri"] escape_body_length [of operation] assms(3,5)
    by (simp add: request_members_def json_quote_def plain_keys MaxMetadataSize_def)
  from request_msg.print_valid [OF g this] show ?thesis
    unfolding request_frame_def by (rule frame_ok_nobody [OF _ assms(1)]) simp
qed

text \<open>
  The server delivers: for a provider that returns a body holding exactly the bytes it
  announces, within the limits, \<open>transfer\<close> on a working connection always completes and
  leaves the connection ready for the next request.
\<close>

lemma transfer_completes:
  assumes "works c" "rid \<noteq> 0" "hd_Open h (c_app c) (rm_Path request) (rm_Query request) = (Inr resource, a)"
    "rs_Body resource = Some body" "rs_Size resource = int (length (stream body))" "r_end body = EOF"
    "validateMediaType (rs_MediaType resource)" "rs_Size resource \<le> MaxResourceSize"
    "rs_Size resource \<le> s_MaxBytes srv" "length (sha (stream body)) \<le> 64"
  shows "\<exists>c'. transfer sha srv h rid request c = (Inr (), c') \<and> works c'"
proof -
  let ?sz = "rs_Size resource"
  let ?c1 = "c\<lparr>c_app := a\<rparr>"
  have o: "call_Open h (rm_Path request) (rm_Query request) c = (Inr resource, ?c1)"
    using assms(3) by (simp add: call_Open_def)
  have nn: "\<not> ?sz < 0" "\<not> MaxResourceSize < ?sz" "\<not> s_MaxBytes srv < ?sz" using assms by simp_all
  have rf: "frame_ok (response_frame rid (rs_MediaType resource) ?sz)"
    using assms by (intro response_frame_ok) auto
  obtain c2 where c2: "conn_send Response rid (response_members \<lparr>sm_MediaType = rs_MediaType resource,
      sm_Size = ?sz\<rparr>) [] ?c1 = (Inr (), c2)" "works c2"
    using conn_send_clean [OF rf [unfolded response_frame_def], of ?c1] assms(1) by (auto simp: works_def)
  obtain b c3 where l: "chunk_loop ''resource ended before its announced size'' rid ?sz 0 [] body c2 =
      (Inr (?sz, stream body, b), c3)" "works c3" "stream b = []" "r_end b = EOF"
    using chunk_loop_complete [OF c2(2) assms(2), of ?sz 0 body _ "[]"] assms(5,6) by fastforce
  have ef: "frame_ok (end_frame rid ?sz (EncodeToString (sha (stream body))))"
    using assms by (intro end_frame_ok MaxResourceSize_int64) auto
  obtain c4 where "conn_send End rid (end_members \<lparr>em_Size = ?sz,
      em_SHA256 = EncodeToString (sha (stream body))\<rparr>) [] c3 = (Inr (), c4)" "works c4"
    using conn_send_clean [OF ef [unfolded end_frame_def], of c3] l(2) by (auto simp: works_def)
  then show ?thesis
    using l body_ended_iff [of b] assms(4,7)
    by (simp add: transfer_def andThen_def o nn c2(1) finish_body_def)
qed

definition sample_handler :: "unit handler" where
  "sample_handler = \<lparr>hd_Open = (\<lambda>u path query. (Inr \<lparr>rs_Body = Some (whole ''hi''),
     rs_MediaType = ''text/plain'', rs_Size = 2\<rparr>, u)), hd_Exchange = None\<rparr>"

definition sample_request :: requestMetadata where
  "sample_request = \<lparr>rm_Authority = ''n.alpha'', rm_Path = ''/'', rm_Query = [], rm_Operation = ''FETCH''\<rparr>"

lemma sample_media: "validateMediaType ''text/plain''"
  by (simp add: validateMediaType_def)

text \<open>A call on an open session over a connection on which nothing fails.\<close>

lemma session_call_runs:
  assumes "ParseURI uriText = Inr uri" "u_Authority uri = se_authority s" "\<not> se_busy s" "\<not> se_closed s"
    "se_nextID s \<noteq> 0" "c_ctx c = []" "c_set c = []"
  obtains c3 where "c_in c3 = c_in c" "c_out c3 = c_out c" "c_dest c3 = c_dest c" "c_ctx c3 = []" "c_set c3 = []"
    "session_call busy exhausted parent uriText body s c =
       (case body uri (se_nextID s) c3 of
          (Inl e, c4) \<Rightarrow> (Inl e, s\<lparr>se_nextID := se_nextID s + 1, se_closed := True\<rparr>, close_conn c4)
        | (Inr x, c4) \<Rightarrow> (Inr x, s\<lparr>se_nextID := se_nextID s + 1\<rparr>, c4))"
proof -
  obtain t c2 where n: "Now c = (t, c2)" and c2: "c_in c2 = c_in c" "c_out c2 = c_out c" "c_dest c2 = c_dest c"
    "c_ctx c2 = []" "c_set c2 = []" using assms(6,7) by (cases "c_ticks c") (auto simp: Now_def)
  obtain c3 where d: "setDeadline (WithTimeout parent (se_timeout s) t) (se_timeout s) c2 = (Inr (), c3)"
    and c3: "c_in c3 = c_in c" "c_out c3 = c_out c" "c_dest c3 = c_dest c" "c_ctx c3 = []" "c_set c3 = []"
    using c2 by (cases "c_ticks c2") (auto simp: setDeadline_def Let_def Now_def SetDeadline_clean)
  show thesis
    by (rule that [OF c3]) (use assms n d in \<open>simp add: session_call_def ctx_Err_def Let_def\<close>)
qed

lemma Session_Fetch_runs:
  assumes "ParseURI uriText = Inr uri" "u_Authority uri = se_authority s" "\<not> se_busy s" "\<not> se_closed s"
    "se_nextID s \<noteq> 0" "c_ctx c = []" "c_set c = []"
  obtains c3 where "c_in c3 = c_in c" "c_out c3 = c_out c" "c_dest c3 = c_dest c" "c_ctx c3 = []" "c_set c3 = []"
    "Session_Fetch sha parent uriText True s c =
       (case fetch_body sha s uri (se_nextID s) c3 of
          (Inl e, c4) \<Rightarrow> (Inl e, s\<lparr>se_nextID := se_nextID s + 1, se_closed := True\<rparr>, close_conn c4)
        | (Inr x, c4) \<Rightarrow> (Inr x, s\<lparr>se_nextID := se_nextID s + 1\<rparr>, c4))"
  by (rule session_call_runs [OF assms]) (rule that, assumption+, simp add: Session_Fetch_def)

lemma transfer_fetched:
  assumes server: "transfer sha srv h rid request cs = (Inr (), cs')"
      "hd_Open h (c_app cs) (rm_Path request) (rm_Query request) = (Inr resource, a)"
    and asks: "ParseURI uriText = Inr uri" "u_Authority uri = se_authority s" "frame_ok (request_frame rid uri ''FETCH'')"
    and session: "\<not> se_busy s" "\<not> se_closed s" "se_nextID s = rid" "rid \<noteq> 0" "rs_Size resource \<le> se_maxBytes s"
    and link: "stream (c_in c) = drop (length (w_out (c_out cs))) (w_out (c_out cs')) @ rest"
      "w_script (c_out c) = []" "w_script (c_dest c) = []" "c_ctx c = []" "c_set c = []"
  shows "\<exists>body s' c'. rs_Body resource = Some body \<and>
     Session_Fetch sha parent uriText True s c =
       (Inr \<lparr>re_MediaType = rs_MediaType resource, re_Size = rs_Size resource,
             re_SHA256 = EncodeToString (sha (stream body)), re_Security = se_Security s\<rparr>, s', c') \<and>
     w_out (c_dest c') = w_out (c_dest c) @ stream body \<and> stream (c_in c') = rest"
  using server(1)
proof (rule transfer_ok)
  fix resource' a' body chunks
  assume o: "hd_Open h (c_app cs) (rm_Path request) (rm_Query request) = (Inr resource', a')"
    and b: "rs_Body resource' = Some body" and n: "0 \<le> rs_Size resource'" "rs_Size resource' \<le> MaxResourceSize"
    and m: "validateMediaType (rs_MediaType resource')"
    and st: "stream body = concat chunks" "int (length (stream body)) = rs_Size resource'"
    and ok: "frame_ok (response_frame rid (rs_MediaType resource') (rs_Size resource'))"
      "\<forall>ch\<in>set chunks. frame_ok (data_frame rid ch)"
      "frame_ok (end_frame rid (rs_Size resource') (EncodeToString (sha (stream body))))"
    and w: "w_out (c_out cs') = w_out (c_out cs) @
       encode_frame (response_frame rid (rs_MediaType resource') (rs_Size resource')) @
       concat (map (\<lambda>ch. encode_frame (data_frame rid ch)) chunks) @
       encode_frame (end_frame rid (rs_Size resource') (EncodeToString (sha (stream body))))"
  have rr: "resource' = resource" using o server(2) by simp
  obtain c3 where c3: "c_in c3 = c_in c" "c_out c3 = c_out c" "c_dest c3 = c_dest c" "c_ctx c3 = []" "c_set c3 = []"
    and call: "Session_Fetch sha parent uriText True s c =
      (case fetch_body sha s uri (se_nextID s) c3 of
          (Inl e, c4) \<Rightarrow> (Inl e, s\<lparr>se_nextID := se_nextID s + 1, se_closed := True\<rparr>, close_conn c4)
        | (Inr x, c4) \<Rightarrow> (Inr x, s\<lparr>se_nextID := se_nextID s + 1\<rparr>, c4))"
    using Session_Fetch_runs [of uriText uri s c] asks(1,2) session link(4,5) by auto
  obtain c' where f: "fetch_body sha s uri rid c3 =
      (Inr \<lparr>re_MediaType = rs_MediaType resource, re_Size = rs_Size resource,
            re_SHA256 = EncodeToString (sha (concat chunks)), re_Security = se_Security s\<rparr>, c')"
    "w_out (c_dest c') = w_out (c_dest c3) @ concat chunks" "stream (c_in c') = rest"
    using fetch_body_complete [of rid uri c3 "rs_MediaType resource" "rs_Size resource" chunks sha rest s]
      asks(3) link c3 w ok st n m session(5) rr by auto
  have "Session_Fetch sha parent uriText True s c =
      (Inr \<lparr>re_MediaType = rs_MediaType resource, re_Size = rs_Size resource,
            re_SHA256 = EncodeToString (sha (stream body)), re_Security = se_Security s\<rparr>,
       s\<lparr>se_nextID := se_nextID s + 1\<rparr>, c')"
    using call session(3) f(1) st by simp
  with b rr f(2,3) st c3 show ?thesis by auto
qed

text \<open>
  Property C1: End to end: when the server's \<open>transfer\<close> reports success for a request, a client
  session that asks for that resource under that request ID and reads the bytes the
  server wrote returns exactly the provider's resource: its media type, its size and its
  SHA-256, with every byte of it, and nothing else, written to the destination.
\<close>

theorem transfer_Fetch:
  assumes server: "transfer sha srv h rid request cs = (Inr (), cs')"
      "hd_Open h (c_app cs) (rm_Path request) (rm_Query request) = (Inr resource, a)"
    and asks: "ParseURI uriText = Inr uri" "u_Authority uri = se_authority s" "frame_ok (request_frame rid uri ''FETCH'')"
    and session: "\<not> se_busy s" "\<not> se_closed s" "se_nextID s = rid" "rid \<noteq> 0" "rs_Size resource \<le> se_maxBytes s"
    and link: "stream (c_in c) = drop (length (w_out (c_out cs))) (w_out (c_out cs')) @ rest"
      "w_script (c_out c) = []" "w_script (c_dest c) = []" "c_ctx c = []" "c_set c = []"
  shows "\<exists>body s' c'. rs_Body resource = Some body \<and>
     Session_Fetch sha parent uriText True s c =
       (Inr \<lparr>re_MediaType = rs_MediaType resource, re_Size = rs_Size resource,
             re_SHA256 = EncodeToString (sha (stream body)), re_Security = se_Security s\<rparr>, s', c') \<and>
     w_out (c_dest c') = w_out (c_dest c) @ stream body \<and> stream (c_in c') = rest"
  using assms by (rule transfer_fetched)

definition sample_session :: Session where
  "sample_session = \<lparr>se_Security = \<lparr>si_TLSVersion = [], si_KeyExchange = [], si_CipherSuite = [],
     si_Authentication = [], si_PostQuantumKeyExchange = True, si_PostQuantumAuthentication = True\<rparr>,
     se_authority = ''n.alpha'', se_timeout = Second, se_maxBytes = 10, se_nextID = 1, se_busy = False,
     se_closed = False\<rparr>"

definition sample_uri :: URI where
  "sample_uri = \<lparr>u_Authority = ''n.alpha'', u_Node = ''n'', u_Network = ''alpha'',
     u_Path = ''/'', u_Query = [], u_Fragment = []\<rparr>"

lemma sample_parse: "ParseURI ''deep://n.alpha/'' = Inr sample_uri"
  unfolding sample_uri_def by code_simp

lemma sample_transfer:
  "\<exists>cs'. transfer (\<lambda>b. b) (server_defaults sample_server) sample_handler 1 sample_request (sample_conn []) =
     (Inr (), cs') \<and> works cs'"
  by (rule transfer_completes [where a = "()" and body = "whole ''hi''" and
      resource = "\<lparr>rs_Body = Some (whole ''hi''), rs_MediaType = ''text/plain'', rs_Size = 2\<rparr>"])
    (simp_all add: sample_works sample_handler_def sample_media MaxResourceSize_def server_defaults_def
      sample_server_def DefaultMaxBytes_def Let_def)

lemma sample_request_fits: "frame_ok (request_frame 1 sample_uri ''FETCH'')"
  by (rule request_frame_ok [OF _ sample_parse]) (simp_all add: sample_uri_def)

abbreviation sample_resource :: Resource where
  "sample_resource \<equiv> \<lparr>rs_Body = Some (whole ''hi''), rs_MediaType = ''text/plain'', rs_Size = 2\<rparr>"

abbreviation sample_result :: Result where
  "sample_result \<equiv> \<lparr>re_MediaType = ''text/plain'', re_Size = 2, re_SHA256 = EncodeToString ''hi'',
     re_Security = se_Security sample_session\<rparr>"

lemma sample_open: "hd_Open sample_handler (c_app (sample_conn [])) (rm_Path sample_request)
    (rm_Query sample_request) = (Inr sample_resource, ())"
  by (simp add: sample_handler_def)

lemma sample_fetch:
  "\<exists>input s' c'. Session_Fetch (\<lambda>b. b) None ''deep://n.alpha/'' True sample_session (sample_conn input) =
     (Inr sample_result, s', c')"
proof -
  obtain cs' where t: "transfer (\<lambda>b. b) (server_defaults sample_server) sample_handler 1 sample_request
      (sample_conn []) = (Inr (), cs')" using sample_transfer by blast
  have "\<exists>body s' c'. rs_Body sample_resource = Some body \<and>
     Session_Fetch (\<lambda>b. b) None ''deep://n.alpha/'' True sample_session (sample_conn (w_out (c_out cs'))) =
       (Inr \<lparr>re_MediaType = rs_MediaType sample_resource, re_Size = rs_Size sample_resource,
             re_SHA256 = EncodeToString (stream body), re_Security = se_Security sample_session\<rparr>, s', c') \<and>
     w_out (c_dest c') = w_out (c_dest (sample_conn (w_out (c_out cs')))) @ stream body \<and> stream (c_in c') = []"
    by (rule transfer_fetched [OF t sample_open sample_parse _ sample_request_fits])
      (simp_all add: sample_session_def sample_uri_def)
  then show ?thesis by auto
qed

theorem transfer_Fetch_witness:
  "\<exists>cs' s' c'. transfer (\<lambda>b. b) (server_defaults sample_server) sample_handler 1 sample_request (sample_conn []) =
      (Inr (), cs') \<and>
    Session_Fetch (\<lambda>b. b) None ''deep://n.alpha/'' True sample_session (sample_conn (w_out (c_out cs'))) =
      (Inr sample_result, s', c') \<and> w_out (c_dest c') = ''hi''"
proof -
  obtain cs' where t: "transfer (\<lambda>b. b) (server_defaults sample_server) sample_handler 1 sample_request
      (sample_conn []) = (Inr (), cs')" using sample_transfer by blast
  have "\<exists>body s' c'. rs_Body sample_resource = Some body \<and>
     Session_Fetch (\<lambda>b. b) None ''deep://n.alpha/'' True sample_session (sample_conn (w_out (c_out cs'))) =
       (Inr \<lparr>re_MediaType = rs_MediaType sample_resource, re_Size = rs_Size sample_resource,
             re_SHA256 = EncodeToString (stream body), re_Security = se_Security sample_session\<rparr>, s', c') \<and>
     w_out (c_dest c') = w_out (c_dest (sample_conn (w_out (c_out cs')))) @ stream body \<and> stream (c_in c') = []"
    by (rule transfer_Fetch [OF t sample_open sample_parse _ sample_request_fits])
      (simp_all add: sample_session_def sample_uri_def)
  with t show ?thesis by auto
qed



subsection \<open>Dialling\<close>

definition welcome_frame :: Frame where
  "welcome_frame = \<lparr>f_Type = Welcome, f_RequestID = 0, f_Metadata = json_print (JObject (welcome_members
     \<lparr>wm_Version = int ProtocolVersion, wm_MaxChunk = int MaxChunkSize\<rparr>)), f_Body = []\<rparr>"

lemma welcome_good: "welcome_good \<lparr>wm_Version = int ProtocolVersion, wm_MaxChunk = int MaxChunkSize\<rparr>"
  by (simp add: welcome_good_def int64_ok_def ProtocolVersion_def MaxChunkSize_def)

lemma frame_ok_control:
  assumes "validateJSON m = Inr ()" "kind = Hello \<or> kind = Welcome \<or> kind = Close"
  shows "frame_ok \<lparr>f_Type = kind, f_RequestID = 0, f_Metadata = m, f_Body = []\<rparr>"
proof -
  from assms(1) have l: "length m \<le> 8192" "2 \<le> length m"
    by (simp_all add: validateJSON_iff MaxMetadataSize_def)
  then have "\<not> (word_of_nat (length m) :: 32 word) < 2" "\<not> (8192 :: 32 word) < word_of_nat (length m)"
    by (simp_all add: word_less_nat_alt unat_word32)
  with assms l show ?thesis
    by (auto simp: frame_ok_def is_ok_unit validateHeader_def MaxMetadataSize_def MaxChunkSize_def word_le_nat_alt)
qed

lemma control_keys:
  "escape_body ''version'' = ''version''" "escape_body ''max_chunk'' = ''max_chunk''"
  "escape_body ''versions'' = ''versions''"
  by (rule escape_body_plain, simp)+

lemma welcome_frame_ok:
  "frame_ok welcome_frame"
  "DecodeMetadata welcome_frame welcome_table welcome_zero [''version'', ''max_chunk''] =
     Inr \<lparr>wm_Version = int ProtocolVersion, wm_MaxChunk = int MaxChunkSize\<rparr>"
proof -
  let ?m = "\<lparr>wm_Version = int ProtocolVersion, wm_MaxChunk = int MaxChunkSize\<rparr>"
  have i: "int64_ok (int ProtocolVersion)" "int64_ok (int MaxChunkSize)"
    by (simp_all add: int64_ok_def ProtocolVersion_def MaxChunkSize_def)
  have "length (json_print (JObject (welcome_members ?m))) \<le> MaxMetadataSize"
    using Itoa_length [OF i(1)] Itoa_length [OF i(2)]
    by (simp add: welcome_members_def json_quote_def control_keys MaxMetadataSize_def)
  note v = welcome_msg.print_valid [OF welcome_good this]
  show "frame_ok welcome_frame" unfolding welcome_frame_def by (rule frame_ok_control [OF v]) simp
  show "DecodeMetadata welcome_frame welcome_table welcome_zero [''version'', ''max_chunk''] = Inr ?m"
    by (rule welcome_msg.decode_print [OF welcome_good v]) (simp add: welcome_frame_def)
qed

lemma hello_frame_ok: "frame_ok \<lparr>f_Type = Hello, f_RequestID = 0, f_Metadata = json_print (JObject
    (hello_members \<lparr>hm_Versions = Some [int ProtocolVersion]\<rparr>)), f_Body = []\<rparr>"
proof -
  let ?m = "\<lparr>hm_Versions = Some [int ProtocolVersion]\<rparr>"
  have i: "int64_ok (int ProtocolVersion)" by (simp add: int64_ok_def ProtocolVersion_def)
  have g: "hello_good ?m" using i by (simp add: hello_good_def)
  have "length (json_print (JObject (hello_members ?m))) \<le> MaxMetadataSize"
    using Itoa_length [OF i] by (simp add: hello_members_def json_quote_def control_keys MaxMetadataSize_def)
  from hello_msg.print_valid [OF g this] show ?thesis by (rule frame_ok_control) simp
qed

text \<open>What a handshake over a channel with a prepared connection state does.\<close>

lemma dial_session_completes:
  assumes h: "\<And>c. handshake config c = (Inr state, c\<lparr>c_in := peer\<rparr>)" and i: "InspectSecurity k state = Inr security"
    and c: "stream peer = encode_frame welcome_frame @ rest" "w_script (c_out c) = []" "c_ctx c = []" "c_set c = []"
    and m: "0 < maxBytes" "maxBytes \<le> MaxResourceSize"
  shows "\<exists>c'. dial_session k handshake config deadline timeout maxBytes authority c =
     (Inr \<lparr>se_Security = security, se_authority = authority, se_timeout = timeout,
           se_maxBytes = maxBytes, se_nextID = 1, se_busy = False, se_closed = False\<rparr>, c') \<and>
     stream (c_in c') = rest \<and> works c'"
proof -
  obtain c1 where d: "setDeadline deadline timeout c = (Inr (), c1)"
    and c1: "w_script (c_out c1) = []" "c_ctx c1 = []" "c_set c1 = []"
    using c by (cases "c_ticks c") (auto simp: setDeadline_def Let_def Now_def SetDeadline_clean)
  let ?c1 = "c1\<lparr>c_in := peer\<rparr>"
  define c2 where "c2 = ?c1\<lparr>c_out := (c_out ?c1)\<lparr>w_out := w_out (c_out ?c1) @ encode_frame \<lparr>f_Type = Hello,
    f_RequestID = 0, f_Metadata = json_print (JObject (hello_members \<lparr>hm_Versions = Some [int ProtocolVersion]\<rparr>)),
    f_Body = []\<rparr>\<rparr>\<rparr>"
  have "w_script (c_out ?c1) = []" using c1 by simp
  note s = conn_send_clean [OF hello_frame_ok this, folded c2_def]
  have c2: "stream (c_in c2) = encode_frame welcome_frame @ rest" "c_ctx c2 = []" "c_set c2 = []" "w_script (c_out c2) = []"
    by (simp_all add: c2_def c1 c(1))
  obtain r where r: "conn_read c2 = (Inr welcome_frame, c2\<lparr>c_in := r\<rparr>)" "stream r = rest"
    using conn_read_frame [OF welcome_frame_ok(1) c2(1)] .
  have e: "expect welcome_frame Welcome 0 = Inr ()" by (simp add: expect_def welcome_frame_def)
  have x: "ctx_Err (c2\<lparr>c_in := r\<rparr>) = (Inr (), c2\<lparr>c_in := r\<rparr>)" using c2 by (simp add: ctx_Err_def)
  have "c_set (c2\<lparr>c_in := r\<rparr>) = []" using c2 by simp
  note z = SetDeadline_clean [OF this]
  have t: "tls_handshake handshake config c1 = (Inr state, ?c1)" by (simp add: tls_handshake_def h)
  show ?thesis
    unfolding dial_session_def Let_def lift_def andThen_def d t i prod.case sum.case s r(1) e welcome_frame_ok(2)
    using m c2 r(2) by (simp add: x z ret_def works_def del: split_paired_Ex)
qed


text \<open>A server of the sample identity that answers HELLO and goes on with the given bytes.\<close>

definition sample_handshake :: "bytes \<Rightarrow> tlsConfig \<Rightarrow> unit conn \<Rightarrow> ConnectionState res \<times> unit conn" where
  "sample_handshake input config c =
     (let state = sample_state [sample_leaf ''n.alpha'' ServerAuth]
      in if g_VerifyConnection config 5 state = Inr ()
         then (Inr state, c\<lparr>c_in := whole (encode_frame welcome_frame @ input)\<rparr>) else (Inl EOF, c))"

definition sample_client :: "unit Client" where
  "sample_client =
     \<lparr>cl_Registry = Some \<lparr>rg_networks = [''alpha'' \<mapsto> StaticAdapter_Resolve [''n.alpha'' \<mapsto> sample_endpoint]],
        rg_proxy = None\<rparr>,
      cl_Dialers = [''mem'' \<mapsto> (\<lambda>_. Inr (sample_conn []))], cl_Timeout = 0, cl_MaxBytes = 10, cl_Identity = None\<rparr>"

lemma sample_client_config:
  "\<exists>config. ClientTLSConfig sample_crypto ''n.alpha'' sample_pin = Inr config \<and>
     g_VerifyConnection config 5 (sample_state [sample_leaf ''n.alpha'' ServerAuth]) = Inr ()"
proof -
  obtain config where c: "ClientTLSConfig sample_crypto ''n.alpha'' sample_pin = Inr config"
    by (simp add: ClientTLSConfig_def sample_authority sample_pin_decodes)
  have "DecodeString sample_pin = Some (replicate 32 (CHR ''a''))"
    using sample_pin_decodes by (simp add: decodeIdentityPin_iff)
  with client_config_accepts [OF c, of 5 "sample_state [sample_leaf ''n.alpha'' ServerAuth]"] c
  show ?thesis by (simp add: sample_channel sample_identity)
qed

lemma sample_inspect: "\<exists>security. InspectSecurity sample_crypto (sample_state [sample_leaf ''n.alpha'' ServerAuth]) = Inr security"
  using sample_channel [of "[sample_leaf ''n.alpha'' ServerAuth]"]
  by (simp add: InspectSecurity_def verifySecurityProfile_iff [THEN iffD2] validateIdentityKey_def)
    (simp add: sample_state_def sample_leaf_def)

text \<open>Any client that resolves the address to the sample server reaches it.\<close>

definition reaches_sample :: "unit Client \<Rightarrow> bool" where
  "reaches_sample cl \<longleftrightarrow> (\<exists>registry e dial. cl_Registry cl = Some registry \<and> Resolve registry [] ''n.alpha'' = (Inr e, []) \<and>
     ep_Transport e \<noteq> [] \<and> cl_Dialers cl (ep_Transport e) = Some dial \<and> dial e = Inr (sample_conn []) \<and> ep_PinSHA256 e = sample_pin) \<and>
     cl_Identity cl = None \<and> 0 < cl_MaxBytes cl \<and> cl_MaxBytes cl \<le> MaxResourceSize"

lemma dial_sample:
  assumes "reaches_sample cl"
  shows "\<exists>security c. Dial sample_crypto cl (sample_handshake input) 0 None [] ''deep://n.alpha/'' =
     Inr (\<lparr>se_Security = security, se_authority = ''n.alpha'', se_timeout = (if cl_Timeout cl \<le> 0 then 30 * Second else cl_Timeout cl),
           se_maxBytes = cl_MaxBytes cl, se_nextID = 1, se_busy = False, se_closed = False\<rparr>, c) \<and> stream (c_in c) = input \<and> works c"
proof -
  let ?t = "if cl_Timeout cl \<le> 0 then 30 * Second else cl_Timeout cl"
  let ?st = "sample_state [sample_leaf ''n.alpha'' ServerAuth]"
  from assms obtain registry e dial where r: "cl_Registry cl = Some registry" "Resolve registry [] ''n.alpha'' = (Inr e, [])" "ep_Transport e \<noteq> []"
    "cl_Dialers cl (ep_Transport e) = Some dial" "dial e = Inr (sample_conn [])" "ep_PinSHA256 e = sample_pin"
    and l: "cl_Identity cl = None" "0 < cl_MaxBytes cl" "cl_MaxBytes cl \<le> MaxResourceSize" by (auto simp: reaches_sample_def)
  obtain config where g: "ClientTLSConfig sample_crypto ''n.alpha'' sample_pin = Inr config"
    and v: "g_VerifyConnection config 5 ?st = Inr ()" using sample_client_config by blast
  obtain security where i: "InspectSecurity sample_crypto ?st = Inr security" using sample_inspect by blast
  have h: "sample_handshake input config c = (Inr ?st, c\<lparr>c_in := whole (encode_frame welcome_frame @ input)\<rparr>)" for c by (simp add: sample_handshake_def v)
  have "\<exists>c'. dial_session sample_crypto (sample_handshake input) config (WithTimeout None ?t 0) ?t (cl_MaxBytes cl)
      ''n.alpha'' (sample_conn []) =
     (Inr \<lparr>se_Security = security, se_authority = ''n.alpha'', se_timeout = ?t,
           se_maxBytes = cl_MaxBytes cl, se_nextID = 1, se_busy = False, se_closed = False\<rparr>, c') \<and>
     stream (c_in c') = input \<and> works c'"
    by (rule dial_session_completes [where peer = "whole (encode_frame welcome_frame @ input)", OF _ i]) (use l in \<open>simp_all add: h\<close>)
  then show ?thesis
    using r l by (auto simp: Dial_def sample_parse Let_def sample_uri_def g with_identity_def)
qed

lemma sample_client_reaches: "reaches_sample (sample_client\<lparr>cl_Timeout := timeout, cl_MaxBytes := 10\<rparr>)"
proof -
  have n: "network_of ''n.alpha'' = ''alpha''" using network_of_authority [of "''alpha''" "''n''"] by simp
  have "Resolve \<lparr>rg_networks = [''alpha'' \<mapsto> StaticAdapter_Resolve [''n.alpha'' \<mapsto> sample_endpoint]],
        rg_proxy = None\<rparr> [] ''n.alpha'' = (Inr sample_endpoint, [])"
    by (simp add: Resolve_def Err_def adapter_for_def n StaticAdapter_Resolve_def sample_authority sample_endpoint_ok)
  moreover have "ep_Transport sample_endpoint = ''mem''" "ep_PinSHA256 sample_endpoint = sample_pin"
    by (simp_all add: sample_endpoint_def)
  ultimately show ?thesis by (simp add: reaches_sample_def sample_client_def MaxResourceSize_def)
qed

lemmas sample_dial = dial_sample [OF sample_client_reaches, simplified]


subsection \<open>Serving and fetching files\<close>

text \<open>The file provider as the handler of a server; it does not take application requests.\<close>

definition file_handler :: "directory \<Rightarrow> (string \<Rightarrow> string) \<Rightarrow> fs_state handler" where
  "file_handler root mime = \<lparr>hd_Open = (\<lambda>st path query. FileHandler_Open root mime path query st), hd_Exchange = None\<rparr>"

lemma tree_transferred:
  assumes tree: "at_rest root (Folder ts)" "PathUnescape path = Some decoded" "utf8_valid decoded"
      "serve_tree mime (Folder ts) decoded = Inr (content, media)" "validateMediaType media"
      "int (length content) \<le> s_MaxBytes srv" "int (length content) \<le> MaxResourceSize"
    and path: "is_ok (ValidateResource path query)"
      "length path + 10 + (if query \<noteq> [] then 1 + length query else 0) \<le> MaxURILength"
    and conn: "works c" "fs_ctx (c_app c) = []" "rid \<noteq> 0" "length (sha content) \<le> 64"
    and request: "rm_Path request = path" "rm_Query request = query"
  shows "\<exists>c' resource a body. transfer sha srv (file_handler root mime) rid request c = (Inr (), c') \<and>
     hd_Open (file_handler root mime) (c_app c) path query = (Inr resource, a) \<and> rs_Body resource = Some body \<and>
     stream body = content \<and> rs_MediaType resource = media \<and> rs_Size resource = int (length content)"
proof -
  obtain r a where o: "FileHandler_Open root mime path query (c_app c) = (r, a)" by fastforce
  from FileHandler_rest [OF tree(1) conn(2) path tree(2,3), of mime] o tree(4)
  obtain resource body where r: "r = Inr resource" "rs_Body resource = Some body" "stream body = content"
    "rs_MediaType resource = media" "r_end body = EOF" "rs_Size resource = int (length content)"
    by (auto simp: offers_def split: sum.splits)
  have h: "hd_Open (file_handler root mime) (c_app c) path query = (Inr resource, a)"
    using o r(1) by (simp add: file_handler_def)
  have "\<exists>c'. transfer sha srv (file_handler root mime) rid request c = (Inr (), c') \<and> works c'"
    by (rule transfer_completes [OF conn(1,3) _ r(2)]) (use h request r tree conn in simp_all)
  with h r show ?thesis by blast
qed

lemma tree_delivered:
  assumes tree: "at_rest root (Folder ts)" "PathUnescape (u_Path uri) = Some decoded" "utf8_valid decoded"
      "serve_tree mime (Folder ts) decoded = Inr (content, media)" "validateMediaType media"
    and asks: "ParseURI uriText = Inr uri" "u_Authority uri = se_authority s" "frame_ok (request_frame rid uri ''FETCH'')"
      "length (u_Path uri) + 10 + (if u_Query uri \<noteq> [] then 1 + length (u_Query uri) else 0) \<le> MaxURILength"
    and limits: "int (length content) \<le> s_MaxBytes srv" "int (length content) \<le> MaxResourceSize"
      "int (length content) \<le> se_maxBytes s" "length (sha content) \<le> 64"
    and server: "works cs" "fs_ctx (c_app cs) = []"
      "transfer sha srv (file_handler root mime) rid \<lparr>rm_Authority = u_Authority uri, rm_Path = u_Path uri,
         rm_Query = u_Query uri, rm_Operation = ''FETCH''\<rparr> cs = (result, cs')"
    and session: "\<not> se_busy s" "\<not> se_closed s" "se_nextID s = rid" "rid \<noteq> 0"
    and link: "stream (c_in c) = drop (length (w_out (c_out cs))) (w_out (c_out cs')) @ rest"
      "w_script (c_out c) = []" "w_script (c_dest c) = []" "c_ctx c = []" "c_set c = []"
  shows "result = Inr () \<and> (\<exists>s' c'. Session_Fetch sha parent uriText True s c =
       (Inr \<lparr>re_MediaType = media, re_Size = int (length content), re_SHA256 = EncodeToString (sha content),
             re_Security = se_Security s\<rparr>, s', c') \<and>
     w_out (c_dest c') = w_out (c_dest c) @ content)"
proof -
  have v: "is_ok (ValidateResource (u_Path uri) (u_Query uri))"
    using ParseURI_wf [OF asks(1)] by (simp add: uri_wf_def)
  obtain c1 resource a body where t: "transfer sha srv (file_handler root mime) rid \<lparr>rm_Authority = u_Authority uri,
      rm_Path = u_Path uri, rm_Query = u_Query uri, rm_Operation = ''FETCH''\<rparr> cs = (Inr (), c1)"
    and o: "hd_Open (file_handler root mime) (c_app cs) (u_Path uri) (u_Query uri) = (Inr resource, a)"
    and r: "rs_Body resource = Some body" "stream body = content" "rs_MediaType resource = media"
      "rs_Size resource = int (length content)"
    using tree_transferred [where sha = sha, OF tree limits(1,2) v asks(4) server(1,2) session(4) limits(4),
        of "\<lparr>rm_Authority = u_Authority uri, rm_Path = u_Path uri, rm_Query = u_Query uri, rm_Operation = ''FETCH''\<rparr>"]
    by auto
  have c1: "result = Inr ()" "c1 = cs'" using t server(3) by simp_all
  with transfer_fetched [OF t _ asks(1-3) session _ link(1) [folded c1(2)], of resource a parent] o r limits(3) link
  show ?thesis by auto
qed

text \<open>
  Property C4: A file of the served directory reaches the client: when the directory is at rest and
  its tree offers contents under the path of an address, within the limits of both sides, the
  server's \<open>transfer\<close> of that address completes, and a client session that reads what the server
  wrote returns the media type, the size and the SHA-256 of exactly these contents and writes
  exactly them.
\<close>

theorem tree_fetched:
  assumes tree: "at_rest root (Folder ts)" "PathUnescape (u_Path uri) = Some decoded" "utf8_valid decoded"
      "serve_tree mime (Folder ts) decoded = Inr (content, media)" "validateMediaType media"
    and asks: "ParseURI uriText = Inr uri" "u_Authority uri = se_authority s" "frame_ok (request_frame rid uri ''FETCH'')"
      "length (u_Path uri) + 10 + (if u_Query uri \<noteq> [] then 1 + length (u_Query uri) else 0) \<le> MaxURILength"
    and limits: "int (length content) \<le> s_MaxBytes srv" "int (length content) \<le> MaxResourceSize"
      "int (length content) \<le> se_maxBytes s" "length (sha content) \<le> 64"
    and server: "works cs" "fs_ctx (c_app cs) = []"
      "transfer sha srv (file_handler root mime) rid \<lparr>rm_Authority = u_Authority uri, rm_Path = u_Path uri,
         rm_Query = u_Query uri, rm_Operation = ''FETCH''\<rparr> cs = (result, cs')"
    and session: "\<not> se_busy s" "\<not> se_closed s" "se_nextID s = rid" "rid \<noteq> 0"
    and link: "stream (c_in c) = drop (length (w_out (c_out cs))) (w_out (c_out cs')) @ rest"
      "w_script (c_out c) = []" "w_script (c_dest c) = []" "c_ctx c = []" "c_set c = []"
  shows "result = Inr () \<and> (\<exists>s' c'. Session_Fetch sha parent uriText True s c =
       (Inr \<lparr>re_MediaType = media, re_Size = int (length content), re_SHA256 = EncodeToString (sha content),
             re_Security = se_Security s\<rparr>, s', c') \<and>
     w_out (c_dest c') = w_out (c_dest c) @ content)"
  using assms by (rule tree_delivered)

definition docs_uri :: URI where
  "docs_uri = \<lparr>u_Authority = ''n.alpha'', u_Node = ''n'', u_Network = ''alpha'',
     u_Path = ''/docs/'', u_Query = [], u_Fragment = []\<rparr>"

definition file_conn :: "fs_state conn" where
  "file_conn =
     \<lparr>c_in = whole [], c_out = fresh_writer, c_dest = fresh_writer, c_ctx = [], c_set = [],
      c_now = 0, c_ticks = [], c_readDeadline = None, c_writeDeadline = None, c_closed = False,
      c_peers = newPeerLimiter 1 1, c_app = \<lparr>fs_ctx = [], fs_time = 0\<rparr>\<rparr>"

lemma docs_parse: "ParseURI ''deep://n.alpha/docs/'' = Inr docs_uri"
  unfolding docs_uri_def by code_simp

theorem tree_fetched_witness:
  "\<exists>cs' s' c'. transfer (\<lambda>b. b) (server_defaults sample_server) (file_handler (\<lambda>_. tree_snapshot sample_tree) (\<lambda>_. [])) 1
       \<lparr>rm_Authority = ''n.alpha'', rm_Path = ''/docs/'', rm_Query = [], rm_Operation = ''FETCH''\<rparr> file_conn = (Inr (), cs') \<and>
    Session_Fetch (\<lambda>b. b) None ''deep://n.alpha/docs/'' True sample_session (sample_conn (w_out (c_out cs'))) =
      (Inr \<lparr>re_MediaType = ''text/html; charset=utf-8'', re_Size = 2, re_SHA256 = EncodeToString ''hi'',
            re_Security = se_Security sample_session\<rparr>, s', c') \<and> w_out (c_dest c') = ''hi''"
proof -
  obtain result cs' where t: "transfer (\<lambda>b. b) (server_defaults sample_server)
      (file_handler (\<lambda>_. tree_snapshot sample_tree) (\<lambda>_. [])) 1 \<lparr>rm_Authority = u_Authority docs_uri,
      rm_Path = u_Path docs_uri, rm_Query = u_Query docs_uri, rm_Operation = ''FETCH''\<rparr> file_conn = (result, cs')" by fastforce
  have u: "u_Path docs_uri = ''/docs/''" "u_Query docs_uri = []" "u_Authority docs_uri = ''n.alpha''"
    by (simp_all add: docs_uri_def)
  have w: "works file_conn" "w_out (c_out file_conn) = []" "fs_ctx (c_app file_conn) = []"
    by (simp_all add: file_conn_def works_def fresh_writer_def)
  have q: "frame_ok (request_frame 1 docs_uri ''FETCH'')"
    by (rule request_frame_ok [OF _ docs_parse]) (simp_all add: u)
  have "result = Inr () \<and> (\<exists>s' c'. Session_Fetch (\<lambda>b. b) None ''deep://n.alpha/docs/'' True sample_session
      (sample_conn (w_out (c_out cs'))) = (Inr \<lparr>re_MediaType = ''text/html; charset=utf-8'', re_Size = int (length ''hi''),
        re_SHA256 = EncodeToString ''hi'', re_Security = se_Security sample_session\<rparr>, s', c') \<and>
      w_out (c_dest c') = w_out (c_dest (sample_conn (w_out (c_out cs')))) @ ''hi'')"
    by (rule tree_fetched [OF tree_at_rest [of sample_tree, unfolded sample_tree_def], folded sample_tree_def,
        OF _ _ sample_serve _ docs_parse _ q _ _ _ _ _ w(1,3) t])
      (simp_all add: u w(2) validateMediaType_def sample_session_def MaxURILength_def MaxResourceSize_def server_defaults_def
        sample_server_def DefaultMaxBytes_def Let_def)
  then show ?thesis using t by (auto simp: u)
qed


definition disk_snapshot :: "disk \<Rightarrow> string \<Rightarrow> snapshot" where
  "disk_snapshot d dir =
     \<lparr>sn_Lstat = (\<lambda>name. case dk_names d (Join [dir, name]) of
        None \<Rightarrow> Inl NotExist
      | Some (Regular_file i content) \<Rightarrow> Inr (tree_info (Regular i content))
      | Some Directory \<Rightarrow> Inr (tree_info (Folder []))
      | Some (Other_file b r) \<Rightarrow> Inr (tree_info Symlink)),
      sn_Open = (\<lambda>name. case dk_names d (Join [dir, name]) of
        Some (Regular_file i content) \<Rightarrow> Inr (Inr (tree_info (Regular i content)), whole content)
      | _ \<Rightarrow> Inl NotExist)\<rparr>"

lemma disk_snapshot_shows: "shows_disk (\<lambda>_. disk_snapshot d dir) d dir"
  by (auto simp: shows_disk_def disk_snapshot_def split: option.splits entry.splits)



definition sample_host :: file_host where
  "sample_host = \<lparr>fh_earlier = Map.empty, fh_lstatErr = None, fh_temporary = Inr ''.deep-download-1'', fh_writes = [],
     fh_flush = Inr (), fh_link = Inr (), fh_later = Map.empty\<rparr>"

definition sample_env :: "bytes \<Rightarrow> unit env" where
  "sample_env input = \<lparr>e_crypto = sample_crypto, e_handshake = sample_handshake input, e_sha = (\<lambda>b. b), e_now = 0,
     e_parent = None, e_ctx = []\<rparr>"

lemma fetch_sample:
  assumes "reaches_sample cl" "2 \<le> cl_MaxBytes cl"
  shows "\<exists>input result w. Client_Fetch (sample_env input) cl ''deep://n.alpha/'' fresh_writer = (Inr result, w) \<and> w_out w = ''hi''"
proof -
  obtain cs' where t: "transfer (\<lambda>b. b) (server_defaults sample_server) sample_handler 1 sample_request
      (sample_conn []) = (Inr (), cs')" using sample_transfer by blast
  obtain s c where d: "Dial sample_crypto cl (sample_handshake (w_out (c_out cs'))) 0 None [] ''deep://n.alpha/'' = Inr (s, c)"
    and s: "se_authority s = ''n.alpha''" "se_maxBytes s = cl_MaxBytes cl" "se_nextID s = 1" "\<not> se_busy s" "\<not> se_closed s"
    and c: "stream (c_in c) = w_out (c_out cs')" "works c" using dial_sample [OF assms(1), of "w_out (c_out cs')"] by force
  have "\<exists>body s' c'. rs_Body sample_resource = Some body \<and>
     Session_Fetch (\<lambda>b. b) None ''deep://n.alpha/'' True s (c\<lparr>c_dest := fresh_writer\<rparr>) =
       (Inr \<lparr>re_MediaType = rs_MediaType sample_resource, re_Size = rs_Size sample_resource,
             re_SHA256 = EncodeToString (stream body), re_Security = se_Security s\<rparr>, s', c') \<and>
     w_out (c_dest c') = w_out (c_dest (c\<lparr>c_dest := fresh_writer\<rparr>)) @ stream body \<and> stream (c_in c') = []"
    by (rule transfer_fetched [OF t sample_open sample_parse _ sample_request_fits])
      (use c s assms(2) in \<open>simp_all add: sample_uri_def works_def fresh_writer_def\<close>)
  then show ?thesis
    using d by (auto simp: Client_Fetch_def sample_env_def fresh_writer_def intro!: exI [of _ "w_out (c_out cs')"])
qed

lemma sample_client_fetch:
  "\<exists>input result w. Client_Fetch (sample_env input) (sample_client\<lparr>cl_Timeout := timeout, cl_MaxBytes := 10\<rparr>)
     ''deep://n.alpha/'' fresh_writer = (Inr result, w) \<and> w_out w = ''hi''"
  by (rule fetch_sample [OF sample_client_reaches]) simp


text \<open>A client loaded from the configuration that \<open>deep init\<close> writes for a public node.\<close>

definition sample_client_host :: "unit client_host" where
  "sample_client_host = \<lparr>ch_keyPair = (\<lambda>_ _. Inl EOF), ch_run = (\<lambda>_ _ _ _. ([], [], None)), ch_proxy = (\<lambda>_ ctx _. (Inl EOF, ctx)),
     ch_dialTCP = (\<lambda>_. Inr (sample_conn [])), ch_dialProxy = (\<lambda>_. Inl EOF),
     ch_file = (\<lambda>_. Inr (json_file (init_client sample_options sample_pin True))), ch_cwd = ''/''\<rparr>"

lemma sample_client_loads:
  obtains cl where "load_client (sample_env input) sample_client_host path = Inr cl" "reaches_sample (cl\<lparr>cl_MaxBytes := previewLimit\<rparr>)"
proof -
  have a: "ValidateAuthority (io_authority sample_options) = Inr ()" by (simp add: sample_options_def sample_authority)
  note c = init_client_decodes [OF a sample_init_ok(3), of True]
  obtain registry where r: "registryFromConfig (\<lambda>_ _ _ _. ([], [], None)) (\<lambda>_ ctx _. (Inl EOF, ctx))
      (client_registry sample_options sample_pin True) (Dir (Abs ''/'' path)) = Inr registry"
    "Resolve registry [] (io_authority sample_options) = (Inr (init_endpoint sample_options sample_pin), [])"
    by (rule client_registry_resolves [OF a sample_init_ok(3)])
  have l: "loadRegistryConfig (\<lambda>_. Inr (json_file (init_client sample_options sample_pin True))) ''/'' path =
      Inr (client_registry sample_options sample_pin True, Dir (Abs ''/'' path))"
    using c by (simp add: loadRegistryConfig_def Let_def client_registry_def ProtocolVersion_def)
  define cl where "cl = NewClient (\<lambda>_. Inr (sample_conn [])) (\<lambda>_. Inl EOF) (Some registry)"
  have "load_client (sample_env input) sample_client_host path = Inr cl"
    using l r(1) by (simp add: load_client_def LoadClientConfig_def sample_client_host_def cl_def client_registry_def Let_def)
  moreover have "reaches_sample (cl\<lparr>cl_MaxBytes := previewLimit\<rparr>)"
    using r(2) by (simp add: reaches_sample_def cl_def NewClient_def init_endpoint_def sample_options_def previewLimit_def
        MaxResourceSize_def ProxyTransport_def)
  ultimately show thesis by (rule that)
qed


lemma sample_exchange_refused:
  "\<exists>input w. Client_Exchange (sample_env input) (sample_client\<lparr>cl_Timeout := timeout, cl_MaxBytes := 10\<rparr>) ''deep://n.alpha/''
     \<lparr>ar_Method = ''GET'', ar_Headers = Some [], ar_Body = []\<rparr> fresh_writer =
       (Inl (Remote ''UNSUPPORTED_OPERATION'' ''no''), w)"
proof -
  let ?r = "\<lparr>ar_Method = ''GET'', ar_Headers = Some [], ar_Body = []\<rparr>"
  define e where "e = \<lparr>re_Code = ''UNSUPPORTED_OPERATION'', re_Message = ''no''\<rparr>"
  define f where "f = \<lparr>f_Type = Error, f_RequestID = 1, f_Metadata = json_print (JObject (error_members e)), f_Body = []\<rparr>"
  have v: "ValidateRemoteError (Some e) = Inr ()"
    by (simp add: e_def ValidateRemoteError_def IsControl_def In_Cf_Zl_Zp_def In_Cf_def Cf_table_def)
  have r: "error_reply (Remote ''UNSUPPORTED_OPERATION'' ''no'') = e"
    using v by (simp add: error_reply_def e_def)
  have j: "validateJSON (json_print (JObject (error_members e))) = Inr ()"
    using error_reply_sendable [of "Remote ''UNSUPPORTED_OPERATION'' ''no''"] r by simp
  have ok: "frame_ok f" unfolding f_def by (rule error_frame_ok [OF j])
  have "DecodeMetadata f error_table error_zero [''code'', ''message''] = Inr e"
    by (rule error_msg.decode_print [OF ValidateRemoteError_good [OF v] j]) (simp add: f_def)
  then have x: "expect f Continue 1 = Inl (Remote ''UNSUPPORTED_OPERATION'' ''no'')"
    using v by (simp add: expect_def f_def e_def)
  obtain s c where d: "Dial sample_crypto (sample_client\<lparr>cl_Timeout := timeout, cl_MaxBytes := 10\<rparr>)
      (sample_handshake (encode_frame f)) 0 None [] ''deep://n.alpha/'' = Inr (s, c)"
    and s: "se_authority s = ''n.alpha''" "se_maxBytes s = 10" "se_nextID s = 1" "\<not> se_busy s" "\<not> se_closed s"
    and c: "stream (c_in c) = encode_frame f @ []" "works c" using sample_dial [of timeout "encode_frame f"] by force
  let ?c = "c\<lparr>c_dest := fresh_writer\<rparr>"
  obtain c3 where c3: "c_in c3 = c_in c" "c_out c3 = c_out c"
    and call: "session_call ''session is busy'' ''request IDs exhausted'' None ''deep://n.alpha/'' (exchange_body (\<lambda>b. b) ?r s) s ?c =
      (case exchange_body (\<lambda>b. b) ?r s sample_uri (se_nextID s) c3 of
          (Inl e, c4) \<Rightarrow> (Inl e, s\<lparr>se_nextID := se_nextID s + 1, se_closed := True\<rparr>, close_conn c4)
        | (Inr x, c4) \<Rightarrow> (Inr x, s\<lparr>se_nextID := se_nextID s + 1\<rparr>, c4))"
    using session_call_runs [OF sample_parse, of s ?c "''session is busy''" "''request IDs exhausted''" None "exchange_body (\<lambda>b. b) ?r s"]
      s c(2) by (auto simp: sample_uri_def works_def)
  have q: "frame_ok (request_frame 1 sample_uri ''EXCHANGE'')"
    by (rule request_frame_ok [OF _ sample_parse]) (simp_all add: sample_uri_def)
  have "w_script (c_out c3) = []" using c3 c(2) by (simp add: works_def)
  from conn_send_clean [OF q [unfolded request_frame_def] this] obtain c4 where
    w: "conn_send Request 1 (request_members \<lparr>rm_Authority = u_Authority sample_uri, rm_Path = u_Path sample_uri,
      rm_Query = u_Query sample_uri, rm_Operation = ''EXCHANGE''\<rparr>) [] c3 = (Inr (), c4)" "c_in c4 = c_in c3" by auto
  obtain r' where "conn_read c4 = (Inr f, c4\<lparr>c_in := r'\<rparr>)"
    using conn_read_frame [OF ok, of c4 "[]"] c(1) c3 w(2) by auto
  then have "\<exists>c5. exchange_body (\<lambda>b. b) ?r s sample_uri 1 c3 = (Inl (Remote ''UNSUPPORTED_OPERATION'' ''no''), c5)"
    using w x by (simp add: exchange_body_def andThen_def lift_def)
  then have "\<exists>s' c'. Session_Exchange (\<lambda>b. b) None ''deep://n.alpha/'' ?r True s ?c = (Inl (Remote ''UNSUPPORTED_OPERATION'' ''no''), s', c')"
    using call s by (auto simp: Session_Exchange_def ValidApplicationMethod_def ValidateApplicationHeaders_def
        MaxApplicationRequestBytes_def)
  then show ?thesis using d by (auto simp: Client_Exchange_def sample_env_def intro!: exI [of _ "encode_frame f"])
qed


subsection \<open>Addresses that cannot be requested\<close>

lemma escape_body_ampersands:
  "\<forall>c\<in>set s. ord c < 128 \<Longrightarrow> 6 * count_list s (CHR ''&'') \<le> length (escape_body s)"
proof (induction s)
  case (Cons c s)
  then show ?case
    by (cases "c = CHR ''&''") (auto simp: escape_body_def escape_unit_def u_escape_def hex4_def)
qed (simp add: escape_body_def)

lemma ampersands_refused:
  assumes "ParseURI uriText = Inr uri" "MaxMetadataSize < 6 * count_list (u_Query uri) (CHR ''&'')"
  shows "conn_send Request rid (request_members \<lparr>rm_Authority = a, rm_Path = p,
     rm_Query = u_Query uri, rm_Operation = operation\<rparr>) [] c = (Inl (protocolError ''frame size limit exceeded''), c)"
proof -
  have "\<forall>c\<in>set (u_Query uri). ord c < 128"
    using component_range(2) [OF uri_wfD(5) [OF ParseURI_wf [OF assms(1)]]] by force
  from escape_body_ampersands [OF this] assms(2) show ?thesis
    by (simp add: conn_send_def send_def WriteFrame_def request_members_def json_quote_def)
qed

text \<open>
  Property C40: An address may be valid and still impossible to fetch: \<open>json.Marshal\<close> writes an
  ampersand as six bytes, so the REQUEST metadata of an address of at most 4096 bytes whose
  query has 1366 or more of them exceeds the 8192-byte limit; the frame is refused before
  anything is sent, and the failed call closes the session.
\<close>

theorem ampersands_unsendable:
  assumes "ParseURI uriText = Inr uri" "u_Authority uri = se_authority s"
    "MaxMetadataSize < 6 * count_list (u_Query uri) (CHR ''&'')"
    "\<not> se_busy s" "\<not> se_closed s" "se_nextID s \<noteq> 0" "c_ctx c = []" "c_set c = []"
  shows "\<exists>c'. Session_Fetch sha parent uriText True s c =
     (Inl (protocolError ''frame size limit exceeded''), s\<lparr>se_nextID := se_nextID s + 1, se_closed := True\<rparr>, c') \<and>
     w_out (c_out c') = w_out (c_out c) \<and> c_closed c'"
proof -
  obtain c3 where c3: "c_out c3 = c_out c"
    and call: "Session_Fetch sha parent uriText True s c =
      (case fetch_body sha s uri (se_nextID s) c3 of
          (Inl e, c4) \<Rightarrow> (Inl e, s\<lparr>se_nextID := se_nextID s + 1, se_closed := True\<rparr>, close_conn c4)
        | (Inr x, c4) \<Rightarrow> (Inr x, s\<lparr>se_nextID := se_nextID s + 1\<rparr>, c4))"
    using Session_Fetch_runs [OF assms(1,2,4-8)] .
  have "fetch_body sha s uri (se_nextID s) c3 = (Inl (protocolError ''frame size limit exceeded''), c3)"
    by (simp add: fetch_body_def andThen_def ampersands_refused [OF assms(1,3)])
  then show ?thesis using call c3 by (simp add: close_conn_def)
qed

theorem ampersands_unsendable_witness:
  "\<exists>uri c'. ParseURI (''deep://n.alpha/?'' @ replicate 1400 (CHR ''&'')) = Inr uri \<and>
     Session_Fetch (\<lambda>b. b) None (''deep://n.alpha/?'' @ replicate 1400 (CHR ''&'')) True sample_session (sample_conn []) =
       (Inl (protocolError ''frame size limit exceeded''), sample_session\<lparr>se_nextID := 2, se_closed := True\<rparr>, c')"
proof -
  define q where "q = replicate 1400 (CHR ''&'')"
  have q: "length q = 1400" "count_list q (CHR ''&'') = 1400" "component True q"
  proof -
    have "component True (replicate n (CHR ''&''))" for n
      by (induction n) (simp_all add: component_Cons component_char_def component.intros)
    moreover have "count_list (replicate n (CHR ''&'')) (CHR ''&'') = n" for n by (induction n) simp_all
    ultimately show "length q = 1400" "count_list q (CHR ''&'') = 1400" "component True q" by (simp_all add: q_def)
  qed
  let ?u = "\<lparr>u_Authority = ''n.alpha'', u_Node = ''n'', u_Network = ''alpha'',
     u_Path = ''/'', u_Query = q, u_Fragment = []\<rparr>"
  have "uri_wf ?u" using q(1,3)
    by (simp add: uri_wf_def ValidateResource_ok sample_authority MaxURILength_def component_Cons component_char_def
        component.intros)
  moreover have f: "format_uri ?u = ''deep://n.alpha/?'' @ q"
    using q(1) by (auto simp: format_uri_def scheme_prefix_def)
  ultimately have p: "ParseURI (''deep://n.alpha/?'' @ q) = Inr ?u"
    using ParseURI_formatted [of ?u] q(1) by (simp add: MaxURILength_def)
  have "\<exists>c'. Session_Fetch (\<lambda>b. b) None (''deep://n.alpha/?'' @ q) True sample_session (sample_conn []) =
       (Inl (protocolError ''frame size limit exceeded''),
        sample_session\<lparr>se_nextID := se_nextID sample_session + 1, se_closed := True\<rparr>, c') \<and>
     w_out (c_out c') = w_out (c_out (sample_conn [])) \<and> c_closed c'"
    by (rule ampersands_unsendable [OF p]) (simp_all add: q sample_session_def MaxMetadataSize_def)
  moreover have "sample_session\<lparr>se_nextID := se_nextID sample_session + 1, se_closed := True\<rparr> =
      sample_session\<lparr>se_nextID := 2, se_closed := True\<rparr>" by (simp add: sample_session_def)
  ultimately show ?thesis using p unfolding q_def by auto
qed

end
